(* ===== verification/Prelude.thy ===== *)
theory Prelude
  imports Main "HOL-Library.Word" "HOL-Library.Monad_Syntax"
begin

unbundle bit_operations_syntax

text \<open>
  The vocabulary shared by every theory of the development: the C integer types as words,
  the C idioms that many files use (testing, setting and clearing one bit), the two contracts
  that several components provide (a packed array of cells, a byte-driven machine with an
  invariant), and the generic lemmas on words and folds that carry the component proofs.
\<close>

type_synonym u8 = "8 word"
type_synonym u16 = "16 word"
type_synonym u32 = "32 word"
type_synonym ptr = "32 word"

text \<open>\<open>word_nat\<close> collects the facts that move a bounded word computation to \<open>nat\<close>.\<close>

named_theorems word_nat

lemma unat_of_nat_small [word_nat]:
  "n < 2 ^ LENGTH('a) \<Longrightarrow> unat (of_nat n :: 'a::len word) = n"
  by (simp add: unat_of_nat take_bit_nat_eq_self)

lemma unat_add_small [word_nat]:
  "unat (a :: 'a::len word) + unat b < 2 ^ LENGTH('a) \<Longrightarrow> unat (a + b) = unat a + unat b"
  by (simp add: unat_word_ariths)

lemma unat_mult_small [word_nat]:
  "unat (a :: 'a::len word) * unat b < 2 ^ LENGTH('a) \<Longrightarrow> unat (a * b) = unat a * unat b"
  by (simp add: unat_word_ariths)

lemma unat_sub_small [word_nat]:
  "unat b \<le> unat (a :: 'a::len word) \<Longrightarrow> unat (a - b) = unat a - unat b"
  by (simp add: unat_sub_if')

lemma word_eq_unat: "(a :: 'a::len word) = b \<longleftrightarrow> unat a = unat b"
  by (simp add: word_unat_eq_iff)

lemma unat_bound: "unat (w :: 'a::len word) < 2 ^ LENGTH('a)"
  by (rule unsigned_less)

text \<open>Rounding a length up to pages.\<close>

lemma ceil_div_pages:
  "m div 4096 + (if m mod 4096 \<noteq> 0 then 1 else 0) = (m + 4095) div (4096::nat)"
proof -
  define d r where "d = m div 4096" and "r = m mod 4096"
  have m: "m = d * 4096 + r" "r < 4096" by (simp_all add: d_def r_def)
  have "(m + 4095) div 4096 = d + (if r = 0 then 0 else 1)"
    using m by (intro div_nat_eqI) auto
  then show ?thesis by (simp add: d_def r_def)
qed

subsection \<open>Single bits\<close>

text \<open>\<open>pow2 n\<close> is the C expression \<open>1 << n\<close>.\<close>

definition pow2 :: "nat \<Rightarrow> 'a::len word" where
  "pow2 n = push_bit n 1"

lemma bit_pow2 [simp]: "bit (pow2 n :: 'a::len word) k \<longleftrightarrow> k = n \<and> n < LENGTH('a)"
  by (auto simp: pow2_def bit_simps)

lemma bit_or_pow2:
  "bit ((x :: 'a::len word) OR pow2 n) k \<longleftrightarrow> bit x k \<or> (k = n \<and> n < LENGTH('a))"
  by (auto simp: bit_simps)

lemma bit_and_not_pow2:
  "bit ((x :: 'a::len word) AND NOT (pow2 n)) k \<longleftrightarrow> bit x k \<and> k \<noteq> n"
  by (auto simp: bit_simps dest: bit_imp_le_length)

subsection \<open>Ranges of bits\<close>

lemma mask_consts:
  "(0xF :: 'a::len word) = mask 4" "(0xFF :: 'a::len word) = mask 8" "(0xFFFF :: 'a::len word) = mask 16"
  "(0xFFFFF :: 'a::len word) = mask 20" "(0xFFFFFF :: 'a::len word) = mask 24"
  by (simp_all add: mask_eq_exp_minus_1)

lemma bit_beyond: "LENGTH('a) \<le> n \<Longrightarrow> \<not> bit (w :: 'a::len word) n"
  using bit_imp_le_length[of w n] by auto

text \<open>Equality of two words by ranges of bits.\<close>

lemma word_eq_split:
  fixes a b :: "'a::len word"
  assumes "\<And>n. n < k \<Longrightarrow> bit a n \<longleftrightarrow> bit b n"
    and "\<And>n. n < l \<Longrightarrow> bit a (k + n) \<longleftrightarrow> bit b (k + n)"
    and "\<And>n. k + l + n < LENGTH('a) \<Longrightarrow> bit a (k + l + n) \<longleftrightarrow> bit b (k + l + n)"
  shows "a = b"
proof (rule bit_word_eqI)
  fix n assume n: "n < LENGTH('a)"
  consider "n < k" | m where "n = k + m" "m < l" | m where "n = k + l + m"
    by (metis le_add_diff_inverse nat_add_left_cancel_less not_less)
  then show "bit a n \<longleftrightarrow> bit b n" by cases (use assms n in simp_all)
qed

subsection \<open>Packed arrays of cells\<close>

text \<open>
  The page-frame bitmap of the physical memory manager and the key bitmap of the keyboard
  driver pack small cells into machine integers. What their clients rely on is that writing
  a cell is read back and leaves every other cell alone; \<open>fill\<close> is the loop that writes the
  same value to several cells.
\<close>

locale packed_array =
  fixes get :: "'m \<Rightarrow> 'k \<Rightarrow> 'v"
    and put :: "'k \<Rightarrow> 'v \<Rightarrow> 'm \<Rightarrow> 'm"
    and valid :: "'k \<Rightarrow> bool"
  assumes get_put_same: "valid k \<Longrightarrow> get (put k v m) k = v"
    and get_put_other: "valid k \<Longrightarrow> valid k' \<Longrightarrow> k \<noteq> k' \<Longrightarrow> get (put k v m) k' = get m k'"
begin

lemma get_put: "valid k \<Longrightarrow> valid k' \<Longrightarrow> get (put k v m) k' = (if k = k' then v else get m k')"
  by (simp add: get_put_same get_put_other)

lemma get_fill:
  "\<forall>k\<in>set ks. valid k \<Longrightarrow> valid k' \<Longrightarrow>
   get (fold (\<lambda>k. put k v) ks m) k' = (if k' \<in> set ks then v else get m k')"
  by (induction ks arbitrary: m) (auto simp: get_put)

lemma put_put_observed:
  "valid k \<Longrightarrow> valid k' \<Longrightarrow> get (put k v (put k w m)) k' = get (put k v m) k'"
  by (simp add: get_put)

lemma put_commute_observed:
  "valid k \<Longrightarrow> valid l \<Longrightarrow> valid k' \<Longrightarrow> k \<noteq> l \<Longrightarrow>
   get (put k v (put l w m)) k' = get (put l w (put k v m)) k'"
  by (auto simp: get_put)

end

subsection \<open>Allocators of fresh objects\<close>

text \<open>
  What the linked lists and the task list rely on when they create a node: an allocation
  returns, and an address other than 0 was not live before and is the only address that became live.
\<close>

locale fresh_allocator =
  fixes new :: "'s \<Rightarrow> (ptr \<times> 's) option"
    and live :: "'s \<Rightarrow> ptr \<Rightarrow> bool"
    and ok :: "'s \<Rightarrow> bool"
  assumes new_total: "ok s \<Longrightarrow> \<exists>p t. new s = Some (p, t)"
    and new_ok: "ok s \<Longrightarrow> new s = Some (p, t) \<Longrightarrow> ok t"
    and new_fresh: "ok s \<Longrightarrow> new s = Some (p, t) \<Longrightarrow> p \<noteq> 0 \<Longrightarrow> \<not> live s p"
    and new_live: "ok s \<Longrightarrow> new s = Some (p, t) \<Longrightarrow> live t x \<longleftrightarrow> live s x \<or> (p \<noteq> 0 \<and> x = p)"
begin

primrec news :: "nat \<Rightarrow> 's \<Rightarrow> (ptr list \<times> 's) option" where
  "news 0 s = Some ([], s)"
| "news (Suc n) s = do { (p, s) \<leftarrow> new s; (ps, s) \<leftarrow> news n s; Some (p # ps, s) }"

lemma news_spec:
  "ok s \<Longrightarrow> \<exists>ps t. news n s = Some (ps, t) \<and> ok t \<and> length ps = n \<and>
     distinct (filter (\<lambda>p. p \<noteq> 0) ps) \<and> (\<forall>p\<in>set ps. p \<noteq> 0 \<longrightarrow> \<not> live s p) \<and>
     (\<forall>x. live t x \<longleftrightarrow> live s x \<or> x \<in> set ps - {0})"
proof (induction n arbitrary: s)
  case (Suc n)
  obtain p s1 where p: "new s = Some (p, s1)" using new_total[OF Suc.prems] by blast
  note ok1 = new_ok[OF Suc.prems p] and fresh = new_fresh[OF Suc.prems p] and live = new_live[OF Suc.prems p]
  obtain ps t where ps: "news n s1 = Some (ps, t)" "ok t" "length ps = n"
    "distinct (filter (\<lambda>p. p \<noteq> 0) ps)" "\<And>p. p \<in> set ps \<Longrightarrow> p \<noteq> 0 \<Longrightarrow> \<not> live s1 p"
    "\<And>x. live t x \<longleftrightarrow> live s1 x \<or> x \<in> set ps - {0}"
    using Suc.IH[OF ok1] by blast
  have "p \<noteq> 0 \<Longrightarrow> p \<notin> set ps" using ps(5)[of p] live[of p] by blast
  then show ?case using p ps fresh live by auto
qed simp

end

subsection \<open>Machines driven by a stream of inputs\<close>

text \<open>
  A driver is called once per input (a byte from the controller, a timer tick); \<open>None\<close> is a call that
  breaks down (an access outside an array, a division by zero). If one call from a good state
  succeeds and ends in a good state, so does every sequence of calls.
\<close>

primrec run :: "('i \<Rightarrow> 's \<Rightarrow> 's option) \<Rightarrow> 'i list \<Rightarrow> 's \<Rightarrow> 's option" where
  "run step [] s = Some s"
| "run step (i # is) s = do { s \<leftarrow> step i s; run step is s }"

lemma run_append: "run step (is @ js) s = do { s \<leftarrow> run step is s; run step js s }"
  by (induction "is" arbitrary: s) (auto split: bind_splits)

locale driven_machine =
  fixes step :: "'i \<Rightarrow> 's \<Rightarrow> 's option"
    and inv :: "'s \<Rightarrow> bool"
  assumes step_inv: "inv s \<Longrightarrow> \<exists>t. step i s = Some t \<and> inv t"
begin

lemma step_defined: "inv s \<Longrightarrow> step i s \<noteq> None"
  using step_inv by force

lemma run_inv: "inv s \<Longrightarrow> \<exists>t. run step is s = Some t \<and> inv t"
proof (induction "is" arbitrary: s)
  case (Cons i "is")
  obtain t where "step i s = Some t" "inv t" using step_inv[OF Cons.prems] by blast
  then show ?case using Cons.IH by simp
qed simp

lemma run_Some_inv: "inv s \<Longrightarrow> run step is s = Some t \<Longrightarrow> inv t"
  using run_inv[of s "is"] by auto

end

end
