(* ===== verification/PMM.thy ===== *)
theory PMM
  imports Prelude
begin

unbundle bit_operations_syntax

text \<open>
  \<^verbatim>\<open>mem/pmm.c\<close>: the bitmap of page frames with two bits per frame, the allocator and its release
  operation. The bitmap is a function from double word indices to double words; \<open>frame_state\<close> reads
  the owner of a frame from it. Every operation is proved on the frame map it induces: writing
  an entry changes that entry only, a range is marked frame by frame, the search is first-fit.
\<close>

definition PAGE_SIZE :: u32 where [simp]: "PAGE_SIZE = 4096"
definition PAGE_SHIFT :: nat where [simp]: "PAGE_SHIFT = 12"
definition TYPE_BITS :: nat where [simp]: "TYPE_BITS = 2"
definition PAGE_NUMBER :: nat where [simp]: "PAGE_NUMBER = 1048576"
definition TYPE_MASK :: u32 where [simp]: "TYPE_MASK = 3"

datatype pmm_flags = PMM_UNUSED | PMM_RESERVED | PMM_KERNEL | PMM_USER

fun pmm_flags_code :: "pmm_flags \<Rightarrow> u32" where
  "pmm_flags_code PMM_UNUSED = 0"
| "pmm_flags_code PMM_RESERVED = 1"
| "pmm_flags_code PMM_KERNEL = 2"
| "pmm_flags_code PMM_USER = 3"

definition pmm_flags_of :: "u32 \<Rightarrow> pmm_flags" where
  "pmm_flags_of v = (if v = 0 then PMM_UNUSED else if v = 1 then PMM_RESERVED
     else if v = 2 then PMM_KERNEL else PMM_USER)"

text \<open>Ownership is ordered by the code that the bitmap stores; an unused frame is the least.\<close>

lemma pmm_flags_code_inject: "pmm_flags_code a = pmm_flags_code b \<longleftrightarrow> a = b"
  by (cases a; cases b; simp)

instantiation pmm_flags :: "{linorder, order_bot}"
begin

definition less_eq_pmm_flags :: "pmm_flags \<Rightarrow> pmm_flags \<Rightarrow> bool" where
  "less_eq_pmm_flags a b \<longleftrightarrow> pmm_flags_code a \<le> pmm_flags_code b"

definition less_pmm_flags :: "pmm_flags \<Rightarrow> pmm_flags \<Rightarrow> bool" where
  "less_pmm_flags a b \<longleftrightarrow> pmm_flags_code a < pmm_flags_code b"

definition bot_pmm_flags :: pmm_flags where
  "bot_pmm_flags = PMM_UNUSED"

instance
proof
  fix a b c :: pmm_flags
  show "a < b \<longleftrightarrow> a \<le> b \<and> \<not> b \<le> a"
    unfolding less_eq_pmm_flags_def less_pmm_flags_def by (rule less_le_not_le)
  show "a \<le> a" unfolding less_eq_pmm_flags_def by (rule order_refl)
  show "a \<le> b \<Longrightarrow> b \<le> c \<Longrightarrow> a \<le> c" unfolding less_eq_pmm_flags_def by (rule order_trans)
  show "a \<le> b \<Longrightarrow> b \<le> a \<Longrightarrow> a = b"
    unfolding less_eq_pmm_flags_def using pmm_flags_code_inject[of a b] order.antisym by blast
  show "a \<le> b \<or> b \<le> a" unfolding less_eq_pmm_flags_def by (rule linear)
  show "bot \<le> a" unfolding less_eq_pmm_flags_def bot_pmm_flags_def by simp
qed

end

lemma pmm_flags_bot [simp]: "PMM_UNUSED \<le> f"
  using bot_least[of f] by (simp add: bot_pmm_flags_def)

record pmm =
  bitmap :: "u32 \<Rightarrow> u32"
  highest_kernel_page :: u32

definition BITMAP_SET :: "u32 \<Rightarrow> (u32 \<Rightarrow> u32) \<Rightarrow> u32 \<Rightarrow> u32" where
  "BITMAP_SET idx m = m(idx div 32 := m (idx div 32) OR pow2 (unat (idx mod 32)))"

definition BITMAP_CLEAR :: "u32 \<Rightarrow> (u32 \<Rightarrow> u32) \<Rightarrow> u32 \<Rightarrow> u32" where
  "BITMAP_CLEAR idx m = m(idx div 32 := m (idx div 32) AND NOT (pow2 (unat (idx mod 32))))"

definition pmm_bitmap_set :: "u32 \<Rightarrow> u32 \<Rightarrow> 'a pmm_scheme \<Rightarrow> 'a pmm_scheme" where
  "pmm_bitmap_set idx value s =
     (let base = idx * of_nat TYPE_BITS in
      s\<lparr>bitmap := fold (\<lambda>i m. if bit value i then BITMAP_SET (base + of_nat i) m
                               else BITMAP_CLEAR (base + of_nat i) m)
                    [0..<TYPE_BITS] (bitmap s)\<rparr>)"

definition pmm_bitmap_get :: "'a pmm_scheme \<Rightarrow> u32 \<Rightarrow> u32" where
  "pmm_bitmap_get s idx =
     (let base = idx * of_nat TYPE_BITS in
      drop_bit (unat (base mod 32)) (bitmap s (base div 32)) AND TYPE_MASK)"

definition bitmap_bit :: "(u32 \<Rightarrow> u32) \<Rightarrow> u32 \<Rightarrow> bool" where
  "bitmap_bit m k = bit (m (k div 32)) (unat (k mod 32))"

lemma div_mod_eq_word: "(k::u32) div 32 = k' div 32 \<Longrightarrow> k mod 32 = k' mod 32 \<Longrightarrow> k = k'"
  by (metis word_mod_div_equality)

lemma mod32_less: "unat ((k::u32) mod 32) < 32"
  by (simp add: unat_mod)

lemma unat_mod32_eq: "unat ((k::u32) mod 32) = unat (k' mod 32) \<longleftrightarrow> k mod 32 = k' mod 32"
  by (rule word_unat_eq_iff [symmetric])

lemma bit_position_eq:
  "(k::u32) = k' \<longleftrightarrow> k div 32 = k' div 32 \<and> unat (k mod 32) = unat (k' mod 32)"
  using div_mod_eq_word[of k k'] unat_mod32_eq[of k k'] by blast

lemma bitmap_bit_SET: "bitmap_bit (BITMAP_SET k m) k' \<longleftrightarrow> k = k' \<or> bitmap_bit m k'"
  unfolding bitmap_bit_def BITMAP_SET_def bit_position_eq[of k k']
  using mod32_less[of k] by (simp add: fun_upd_apply bit_or_pow2) (metis)

lemma bitmap_bit_CLEAR: "bitmap_bit (BITMAP_CLEAR k m) k' \<longleftrightarrow> k \<noteq> k' \<and> bitmap_bit m k'"
  unfolding bitmap_bit_def BITMAP_CLEAR_def bit_position_eq[of k k']
  by (simp add: fun_upd_apply bit_and_not_pow2) (metis)

lemma bit_TYPE_MASK: "bit (3 :: u32) n \<longleftrightarrow> n < 2"
proof -
  have "(3::u32) = mask 2" by (simp add: mask_eq_exp_minus_1)
  then have "bit (3::u32) n \<longleftrightarrow> bit (mask 2 :: u32) n" by (rule arg_cong)
  also have "\<dots> \<longleftrightarrow> n < 2" unfolding bit_mask_iff by auto
  finally show ?thesis .
qed

lemma nat_bit_pair:
  assumes "n < 2"
  shows "(a * 2 + n) div 32 = a * 2 div (32::nat)" and "(a * 2 + n) mod 32 = a * 2 mod 32 + n"
proof -
  have d: "(a * 2 + n) div 2 = a" "(a * 2 + n) mod 2 = n" using assms by simp_all
  show "(a * 2 + n) div 32 = a * 2 div (32::nat)"
    using div_mult2_eq[of "a * 2 + n" 2 16] div_mult2_eq[of "a * 2" 2 16] d by simp
  show "(a * 2 + n) mod 32 = a * 2 mod 32 + n"
    using mod_mult2_eq[of "a * 2 + n" 2 16] mod_mult2_eq[of "a * 2" 2 16] d by simp
qed

lemma page_bit_index:
  assumes "idx < 1048576" and "n < 2"
  shows "unat (idx * 2 + of_nat n :: u32) = unat idx * 2 + n"
proof -
  have b: "unat idx < 1048576" using assms(1) by (simp add: word_less_nat_alt)
  then have u: "unat (idx * 2) = unat idx * 2"
    by (simp add: unat_mult_small)
  have "unat (of_nat n :: u32) = n" using assms(2) by (simp add: unat_of_nat_small)
  with u b assms(2) show ?thesis by (simp add: unat_add_small)
qed

lemma page_bit_position:
  assumes "idx < 1048576" and "n < 2"
  shows "(idx * 2 + of_nat n :: u32) div 32 = idx * 2 div 32"
    and "unat ((idx * 2 + of_nat n :: u32) mod 32) = unat (idx * 2 mod 32) + n"
  using page_bit_index[OF assms] page_bit_index[OF assms(1), of 0] nat_bit_pair[OF assms(2), of "unat idx"]
  by (simp_all add: word_unat_eq_iff unat_div unat_mod)

lemma pmm_bitmap_get_bit:
  assumes "idx < 1048576"
  shows "bit (pmm_bitmap_get s idx) n \<longleftrightarrow> n < 2 \<and> bitmap_bit (bitmap s) (idx * 2 + of_nat n)"
proof (cases "n < 2")
  case True
  then show ?thesis using page_bit_position[OF assms True] bit_TYPE_MASK[of n]
    by (simp add: pmm_bitmap_get_def bitmap_bit_def bit_simps Let_def add.commute)
next
  case False
  then show ?thesis using bit_TYPE_MASK[of n]
    by (simp add: pmm_bitmap_get_def bit_simps Let_def)
qed

lemma pmm_bitmap_set_bit:
  assumes "idx < 1048576"
  shows "bitmap_bit (bitmap (pmm_bitmap_set idx v s)) k \<longleftrightarrow>
         (if k = idx * 2 then bit v 0 else if k = idx * 2 + 1 then bit v 1 else bitmap_bit (bitmap s) k)"
proof -
  have ne: "idx * 2 \<noteq> idx * 2 + (1::u32)" by simp
  have "bitmap (pmm_bitmap_set idx v s) =
      (let m0 = (if bit v 0 then BITMAP_SET (idx * 2) (bitmap s) else BITMAP_CLEAR (idx * 2) (bitmap s))
       in (if bit v 1 then BITMAP_SET (idx * 2 + 1) m0 else BITMAP_CLEAR (idx * 2 + 1) m0))"
    by (simp add: pmm_bitmap_set_def Let_def numeral_2_eq_2)
  then show ?thesis using ne
    by (auto simp: Let_def bitmap_bit_SET bitmap_bit_CLEAR split: if_splits)
qed

lemma page_bits_disjoint:
  assumes "i < 1048576" "j < 1048576" "i \<noteq> j" "m < 2" "n < 2"
  shows "i * 2 + of_nat m \<noteq> (j * 2 + of_nat n :: u32)"
proof
  assume "i * 2 + of_nat m = (j * 2 + of_nat n :: u32)"
  then have "unat i * 2 + m = unat j * 2 + n"
    using page_bit_index[OF assms(1,4)] page_bit_index[OF assms(2,5)] by (metis)
  with assms(4,5) have "unat i = unat j" by linarith
  with assms(3) show False by (simp add: word_unat_eq_iff)
qed

theorem pmm_bitmap_get_set:
  assumes "i < 1048576" "j < 1048576"
  shows "pmm_bitmap_get (pmm_bitmap_set i v s) j = (if i = j then v AND 3 else pmm_bitmap_get s j)"
proof (rule bit_word_eqI)
  fix n :: nat
  have two: "n < 2 \<Longrightarrow> n = 0 \<or> n = 1" by auto
  show "bit (pmm_bitmap_get (pmm_bitmap_set i v s) j) n =
        bit (if i = j then v AND 3 else pmm_bitmap_get s j) n"
  proof (cases "n < 2")
    case False
    then show ?thesis using bit_TYPE_MASK[of n]
      by (auto simp: pmm_bitmap_get_bit[OF assms(2)] bit_and_iff)
  next
    case True
    show ?thesis
    proof (cases "i = j")
      case True
      with \<open>n < 2\<close> show ?thesis using bit_TYPE_MASK[of n] two
        by (auto simp: pmm_bitmap_get_bit[OF assms(2)] pmm_bitmap_set_bit[OF assms(2)] bit_and_iff)
    next
      case False
      then have "j * 2 + of_nat n \<noteq> i * 2" "j * 2 + of_nat n \<noteq> i * 2 + (1 :: u32)"
        using page_bits_disjoint[OF assms(2,1) _ \<open>n < 2\<close>, of 0]
          page_bits_disjoint[OF assms(2,1) _ \<open>n < 2\<close>, of 1] by simp_all
      with False show ?thesis
        by (simp add: pmm_bitmap_get_bit[OF assms(2)] pmm_bitmap_set_bit[OF assms(1)])
    qed
  qed
qed

definition frame_state :: "'a pmm_scheme \<Rightarrow> u32 \<Rightarrow> pmm_flags" where
  "frame_state s page = pmm_flags_of (pmm_bitmap_get s page)"

lemma pmm_flags_of_code [simp]: "pmm_flags_of (pmm_flags_code f AND 3) = f"
  by (cases f) (simp_all add: pmm_flags_of_def)

interpretation frames: packed_array
  frame_state "\<lambda>page flags. pmm_bitmap_set page (pmm_flags_code flags)" "\<lambda>page. page < 1048576"
  by unfold_locales (simp_all add: frame_state_def pmm_bitmap_get_set)

lemma pmm_bitmap_get_less: "pmm_bitmap_get s i < 4"
proof -
  have "pmm_bitmap_get s i \<le> 3" unfolding pmm_bitmap_get_def Let_def TYPE_MASK_def
    by (rule word_and_le1)
  then show ?thesis by (simp add: word_le_nat_alt word_less_nat_alt)
qed

lemma pmm_bitmap_get_0_iff: "pmm_bitmap_get s i = 0 \<longleftrightarrow> frame_state s i = PMM_UNUSED"
  by (simp add: frame_state_def pmm_flags_of_def)

definition pmm_get_page :: "ptr \<Rightarrow> u32 \<Rightarrow> u32" where
  "pmm_get_page p offset = drop_bit PAGE_SHIFT (p + offset)"

definition pmm_get_address :: "u32 \<Rightarrow> u32 \<Rightarrow> ptr" where
  "pmm_get_address page offset = push_bit PAGE_SHIFT page + offset"

definition pmm_use :: "ptr \<Rightarrow> u32 \<Rightarrow> pmm_flags \<Rightarrow> 'a pmm_scheme \<Rightarrow> 'a pmm_scheme" where
  "pmm_use p len flags s =
     (if len = 0 then s
      else let start_page = pmm_get_page p 0;
               end_page = pmm_get_page p (len - 1);
               s' = fold (\<lambda>i. pmm_bitmap_set (of_nat i) (pmm_flags_code flags))
                      [unat start_page ..< Suc (unat end_page)] s
           in if flags = PMM_KERNEL \<and> highest_kernel_page s' < end_page
              then s'\<lparr>highest_kernel_page := end_page\<rparr> else s')"

definition pmm_pages :: "u32 \<Rightarrow> u32" where
  "pmm_pages len = len div PAGE_SIZE + (if len mod PAGE_SIZE \<noteq> 0 then 1 else 0)"

function pmm_find_loop :: "'a pmm_scheme \<Rightarrow> u32 \<Rightarrow> nat \<Rightarrow> u32 \<Rightarrow> ptr" where
  "pmm_find_loop s pages i free_pages =
     (if i < PAGE_NUMBER then
        let free_pages' = (if pmm_bitmap_get s (of_nat i) = pmm_flags_code PMM_UNUSED
                           then free_pages + 1 else 0)
        in if pages \<le> free_pages' then pmm_get_address (of_nat i - free_pages' + 1) 0
           else pmm_find_loop s pages (Suc i) free_pages'
      else 0)"
  by pat_completeness auto
termination
  by (relation "measure (\<lambda>(s, pages, i, free_pages). PAGE_NUMBER - i)") auto

declare pmm_find_loop.simps [simp del]

definition pmm_find_free :: "'a pmm_scheme \<Rightarrow> u32 \<Rightarrow> ptr" where
  "pmm_find_free s len = (if len = 0 then 0 else pmm_find_loop s (pmm_pages len) 0 0)"

definition pmm_alloc :: "u32 \<Rightarrow> pmm_flags \<Rightarrow> 'a pmm_scheme \<Rightarrow> ptr \<times> 'a pmm_scheme" where
  "pmm_alloc len flags s =
     (let p = pmm_find_free s len
      in if p = 0 then (0, s) else (p, pmm_use p len flags s))"

definition pmm_free :: "ptr \<Rightarrow> u32 \<Rightarrow> 'a pmm_scheme \<Rightarrow> 'a pmm_scheme" where
  "pmm_free p len s = (if len = 0 then s else pmm_use p len PMM_UNUSED s)"

definition pmm_check :: "'a pmm_scheme \<Rightarrow> ptr \<Rightarrow> pmm_flags" where
  "pmm_check s p = pmm_flags_of (pmm_bitmap_get s (pmm_get_page p 0))"

definition pmm_get_highest_kernel_page :: "'a pmm_scheme \<Rightarrow> u32" where
  "pmm_get_highest_kernel_page s = highest_kernel_page s"

subsection \<open>Pages and addresses\<close>

lemma unat_get_page: "unat (pmm_get_page p off) = unat (p + off) div 4096"
  by (simp add: pmm_get_page_def drop_bit_eq_div unat_div)

lemma get_page_less [simp]: "pmm_get_page p off < 1048576"
proof -
  have "unat (p + off) < 4294967296" using unsigned_less[of "p + off"] by simp
  then have "unat (p + off) div 4096 < 1048576" by linarith
  then show ?thesis by (simp add: word_less_nat_alt unat_get_page)
qed

lemma unat_get_address:
  assumes "page < 1048576" "off < 4096"
  shows "unat (pmm_get_address page off) = unat page * 4096 + unat off"
proof -
  have b: "unat page < 1048576" "unat off < 4096" using assms by (simp_all add: word_less_nat_alt)
  have "unat (push_bit 12 page) = unat page * 4096"
  proof -
    have "push_bit 12 page = page * 4096" by (simp add: push_bit_eq_mult)
    then show ?thesis using b by (simp add: unat_mult_small)
  qed
  then show ?thesis using b by (simp add: pmm_get_address_def unat_add_small)
qed

theorem get_page_get_address:
  assumes "page < 1048576" "off < 4096"
  shows "pmm_get_page (pmm_get_address page off) 0 = page"
  using assms unat_get_address[OF assms]
  by (simp add: word_unat_eq_iff unat_get_page word_less_nat_alt)

lemma get_address_0 [simp]: "page < 1048576 \<Longrightarrow> pmm_get_page (pmm_get_address page 0) 0 = page"
  by (simp add: get_page_get_address)

lemma get_address_eq_0_iff: "page < 1048576 \<Longrightarrow> pmm_get_address page 0 = 0 \<longleftrightarrow> page = 0"
  using unat_get_address[of page 0] by (simp add: word_unat_eq_iff)

subsection \<open>Marking ranges\<close>

lemma frame_state_highest [simp]:
  "frame_state (s\<lparr>highest_kernel_page := h\<rparr>) q = frame_state s q"
  by (simp add: frame_state_def pmm_bitmap_get_def)

lemma of_nat_eq_page: "n < 1048576 \<Longrightarrow> (of_nat n :: u32) = q \<longleftrightarrow> n = unat q"
  by (auto simp: unat_of_nat_small)

lemma frame_state_pmm_use:
  assumes "len \<noteq> 0" "q < 1048576"
  shows "frame_state (pmm_use p len flags s) q =
    (if pmm_get_page p 0 \<le> q \<and> q \<le> pmm_get_page p (len - 1) then flags else frame_state s q)"
proof -
  let ?is = "[unat (pmm_get_page p 0) ..< Suc (unat (pmm_get_page p (len - 1)))]"
  have e: "unat (pmm_get_page p (len - 1)) < 1048576"
    using get_page_less[of p "len - 1"] by (simp add: word_less_nat_alt)
  have "frame_state (fold (\<lambda>i. pmm_bitmap_set (of_nat i) (pmm_flags_code flags)) ?is s) q =
        frame_state (fold (\<lambda>page. pmm_bitmap_set page (pmm_flags_code flags)) (map of_nat ?is) s) q"
    by (simp add: fold_map comp_def)
  also have "\<dots> = (if q \<in> set (map of_nat ?is) then flags else frame_state s q)"
    using e assms(2) by (intro frames.get_fill) (auto simp: word_less_nat_alt unat_of_nat_small)
  also have "q \<in> set (map of_nat ?is) \<longleftrightarrow> pmm_get_page p 0 \<le> q \<and> q \<le> pmm_get_page p (len - 1)"
  proof
    assume "q \<in> set (map of_nat ?is)"
    then show "pmm_get_page p 0 \<le> q \<and> q \<le> pmm_get_page p (len - 1)"
      using e by (auto simp: word_le_nat_alt unat_of_nat_small)
  next
    assume "pmm_get_page p 0 \<le> q \<and> q \<le> pmm_get_page p (len - 1)"
    then have "unat q \<in> set ?is" by (auto simp: word_le_nat_alt)
    then have "(of_nat (unat q) :: u32) \<in> set (map of_nat ?is)"
      by (simp only: set_map) (rule imageI)
    moreover have "(of_nat (unat q) :: u32) = q" by simp
    ultimately show "q \<in> set (map of_nat ?is)" by (simp only:)
  qed
  finally show ?thesis
    by (simp only: pmm_use_def Let_def assms(1) if_False if_distrib[of "\<lambda>t. frame_state t q"]
        frame_state_highest if_cancel)
qed

subsection \<open>First fit\<close>

definition free_run :: "'a pmm_scheme \<Rightarrow> nat \<Rightarrow> nat \<Rightarrow> bool" where
  "free_run s q n \<longleftrightarrow> q + n \<le> PAGE_NUMBER \<and> (\<forall>k<n. frame_state s (of_nat (q + k)) = PMM_UNUSED)"

lemma word_run_start:
  assumes "unat f \<le> Suc i"
  shows "(of_nat i - f + 1 :: u32) = of_nat (Suc i - unat f)"
  using assms by (simp add: of_nat_diff)

lemma free_run_not_ending:
  assumes "\<forall>q'. q' + n \<le> i \<longrightarrow> \<not> free_run s q' n"
    and "\<And>q'. q' + n = Suc i \<Longrightarrow> \<not> free_run s q' n"
  shows "\<forall>q'. q' + n \<le> Suc i \<longrightarrow> \<not> free_run s q' n"
  using assms by (auto simp: le_Suc_eq)

lemma pmm_find_loop_spec:
  assumes "unat pages = n" "0 < n" "n \<le> PAGE_NUMBER" "i \<le> PAGE_NUMBER" "unat f < n" "unat f \<le> i"
    and "\<forall>k. i - unat f \<le> k \<and> k < i \<longrightarrow> frame_state s (of_nat k) = PMM_UNUSED"
    and "unat f = i \<or> frame_state s (of_nat (i - unat f - 1)) \<noteq> PMM_UNUSED"
    and "\<forall>q'. q' + n \<le> i \<longrightarrow> \<not> free_run s q' n"
  shows "pmm_find_loop s pages i f =
     (if \<exists>q. free_run s q n then pmm_get_address (of_nat (LEAST q. free_run s q n)) 0 else 0)"
  using assms
proof (induction s pages i f rule: pmm_find_loop.induct)
  case (1 s pages i f)
  let ?f' = "if pmm_bitmap_get s (of_nat i) = pmm_flags_code PMM_UNUSED then f + 1 else 0"
  note unfold = pmm_find_loop.simps[of s pages i f]
  have f1: "unat (f + 1) = Suc (unat f)"
    using "1.prems"(3,5) by (simp add: unat_add_small)
  show ?case
  proof (cases "i < PAGE_NUMBER")
    case False
    with "1.prems" have "\<not> free_run s q n" for q by (auto simp: free_run_def)
    with False show ?thesis by (simp add: unfold)
  next
    case i: True
    note IH = "1.IH"[OF i refl]
    show ?thesis
    proof (cases "frame_state s (of_nat i) = PMM_UNUSED")
      case used: False
      then have f': "?f' = 0" by (simp add: pmm_bitmap_get_0_iff)
      have "pmm_find_loop s pages i f = pmm_find_loop s pages (Suc i) ?f'"
        using i f' "1.prems"(1,2) by (simp add: unfold word_le_nat_alt)
      also have "\<dots> = (if \<exists>q. free_run s q n
          then pmm_get_address (of_nat (LEAST q. free_run s q n)) 0 else 0)"
      proof (rule IH)
        show "\<not> pages \<le> ?f'" using f' "1.prems"(1,2) by (auto simp: word_le_nat_alt)
        show "\<forall>q'. q' + n \<le> Suc i \<longrightarrow> \<not> free_run s q' n"
        proof (rule free_run_not_ending[OF "1.prems"(9)])
          fix q' assume q': "q' + n = Suc i"
          with "1.prems"(2) have "q' + (n - 1) = i" "n - 1 < n" by auto
          with used show "\<not> free_run s q' n" unfolding free_run_def by metis
        qed
      qed (use "1.prems" i used f' in \<open>auto simp: pmm_bitmap_get_0_iff\<close>)
      finally show ?thesis .
    next
      case unused: True
      then have f': "?f' = f + 1" by (simp add: pmm_bitmap_get_0_iff)
      have tail: "\<forall>k. Suc i - unat (f + 1) \<le> k \<and> k < Suc i \<longrightarrow> frame_state s (of_nat k) = PMM_UNUSED"
        using "1.prems"(7) unused f1 by (auto simp: less_Suc_eq)
      show ?thesis
      proof (cases "pages \<le> f + 1")
        case True
        then have n: "n = unat (f + 1)" using f1 "1.prems"(1,5) by (simp add: word_le_nat_alt)
        let ?q = "Suc i - n"
        have run: "free_run s ?q n"
          unfolding free_run_def
          using n i f1 "1.prems"(6) by (intro conjI allI impI tail[rule_format]) auto
        have "(LEAST q. free_run s q n) = ?q"
        proof (rule Least_equality[of "\<lambda>q. free_run s q n", OF run])
          fix q assume "free_run s q n"
          with "1.prems"(9) show "?q \<le> q" by (metis not_less_eq_eq le_diff_conv nat_le_linear)
        qed
        moreover have "pmm_find_loop s pages i f = pmm_get_address (of_nat i - (f + 1) + 1) 0"
          using i f' True by (simp add: unfold)
        ultimately show ?thesis using run word_run_start[of "f + 1" i] n f1 "1.prems"(6) by auto
      next
        case False
        have "pmm_find_loop s pages i f = pmm_find_loop s pages (Suc i) ?f'"
          using i f' False by (simp add: unfold)
        also have "\<dots> = (if \<exists>q. free_run s q n
            then pmm_get_address (of_nat (LEAST q. free_run s q n)) 0 else 0)"
        proof (rule IH)
          show "\<not> pages \<le> ?f'" using f' False by simp
          show "\<forall>q'. q' + n \<le> Suc i \<longrightarrow> \<not> free_run s q' n"
          proof (rule free_run_not_ending[OF "1.prems"(9)])
            fix q' assume q': "q' + n = Suc i"
            have lt: "Suc (unat f) < n" using False f1 "1.prems"(1) by (simp add: word_le_nat_alt)
            with q' "1.prems"(8) have "frame_state s (of_nat (i - unat f - 1)) \<noteq> PMM_UNUSED" by auto
            moreover have "q' + (n - unat f - 2) = i - unat f - 1" using q' lt by linarith
            moreover have "n - unat f - 2 < n" using lt by linarith
            ultimately show "\<not> free_run s q' n" unfolding free_run_def by metis
          qed
          show "unat ?f' < n" using f' f1 False "1.prems"(1) by (simp add: word_le_nat_alt)
        qed (use "1.prems" i f' f1 tail in \<open>auto\<close>)
        finally show ?thesis .
      qed
    qed
  qed
qed

subsection \<open>Allocation\<close>

lemma unat_pmm_pages: "unat (pmm_pages len) = (unat len + 4095) div 4096"
proof -
  let ?m = "unat len"
  have "?m < 4294967296" using unsigned_less[of len] by simp
  then have d: "?m div 4096 < 1048576" by linarith
  have "unat (pmm_pages len) = ?m div 4096 + (if ?m mod 4096 \<noteq> 0 then 1 else 0)"
    using d by (auto simp: pmm_pages_def unat_add_small unat_div unat_mod word_unat_eq_iff)
  also have "\<dots> = (?m + 4095) div 4096"
    by (rule ceil_div_pages)
  finally show ?thesis .
qed

lemma pmm_pages_bounds:
  assumes "len \<noteq> 0"
  shows "0 < unat (pmm_pages len)" "unat (pmm_pages len) \<le> PAGE_NUMBER"
    "(unat len - 1) div 4096 = unat (pmm_pages len) - 1"
proof -
  have l: "0 < unat len" "unat len < 4294967296"
    using assms unsigned_less[of len] by (auto simp: unat_gt_0)
  then show "0 < unat (pmm_pages len)" "unat (pmm_pages len) \<le> PAGE_NUMBER"
    by (simp_all add: unat_pmm_pages)
  show "(unat len - 1) div 4096 = unat (pmm_pages len) - 1"
    unfolding unat_pmm_pages using l(1) by linarith
qed

text \<open>The pages that a \<open>len\<close>-byte range at a page boundary spans.\<close>

lemma range_pages:
  assumes "len \<noteq> 0" "q + unat (pmm_pages len) \<le> PAGE_NUMBER"
  shows "pmm_get_page (pmm_get_address (of_nat q) 0) 0 = of_nat q"
    and "pmm_get_page (pmm_get_address (of_nat q) 0) (len - 1) = of_nat (q + unat (pmm_pages len) - 1)"
proof -
  note pb = pmm_pages_bounds[OF assms(1)]
  have q: "q < 1048576" using assms(2) pb(1) by simp
  have uq: "unat (of_nat q :: u32) = q" using q by (simp add: unat_of_nat_small)
  then have ql: "(of_nat q :: u32) < 1048576" using q by (simp add: word_less_nat_alt)
  show "pmm_get_page (pmm_get_address (of_nat q) 0) 0 = of_nat q" using ql by simp
  have l: "unat (len - 1) = unat len - 1"
    using assms(1) by (simp add: unat_sub_if' unat_gt_0 Suc_le_eq)
  have a: "unat (pmm_get_address (of_nat q) 0) = q * 4096"
    using unat_get_address[OF ql, of 0] uq by simp
  have lt: "q * 4096 + (unat len - 1) < 4294967296"
    using assms(2) pb by (simp add: unat_pmm_pages)
  have "unat (pmm_get_page (pmm_get_address (of_nat q) 0) (len - 1)) = (q * 4096 + (unat len - 1)) div 4096"
    using lt by (simp add: unat_get_page unat_add_small a l)
  also have "\<dots> = q + unat (pmm_pages len) - 1"
    using pb by simp
  also have "\<dots> = unat (of_nat (q + unat (pmm_pages len) - 1) :: u32)"
    using assms(2) by (subst unat_of_nat_small) simp_all
  finally show "pmm_get_page (pmm_get_address (of_nat q) 0) (len - 1) =
      of_nat (q + unat (pmm_pages len) - 1)"
    by (simp only: word_unat_eq_iff)
qed

lemma frame_state_use_run:
  assumes "len \<noteq> 0" "q + unat (pmm_pages len) \<le> PAGE_NUMBER" "x < 1048576"
  shows "frame_state (pmm_use (pmm_get_address (of_nat q) 0) len flags s) x =
    (if q \<le> unat x \<and> unat x < q + unat (pmm_pages len) then flags else frame_state s x)"
proof -
  note pb = pmm_pages_bounds[OF assms(1)]
  have "unat (of_nat q :: u32) = q" "unat (of_nat (q + unat (pmm_pages len) - 1) :: u32) = q + unat (pmm_pages len) - 1"
    using assms(2) pb(1) by (subst unat_of_nat_small; simp)+
  then show ?thesis
    using pb(1) by (auto simp: frame_state_pmm_use[OF assms(1,3)] range_pages[OF assms(1,2)] word_le_nat_alt)
qed

lemma pmm_find_free_spec:
  assumes "len \<noteq> 0"
  shows "pmm_find_free s len =
    (if \<exists>q. free_run s q (unat (pmm_pages len))
     then pmm_get_address (of_nat (LEAST q. free_run s q (unat (pmm_pages len)))) 0 else 0)"
  unfolding pmm_find_free_def if_not_P[OF assms]
  by (rule pmm_find_loop_spec[OF refl]) (use pmm_pages_bounds[OF assms] in auto)

lemma free_run_pos:
  assumes "frame_state s 0 \<noteq> PMM_UNUSED" "free_run s q n" "0 < n"
  shows "0 < q"
proof (rule ccontr)
  assume "\<not> 0 < q"
  with assms(2,3) have "frame_state s (of_nat (0 + 0)) = PMM_UNUSED" unfolding free_run_def by blast
  with assms(1) show False by simp
qed

text \<open>What a successful allocation did.\<close>

lemma pmm_alloc_success:
  assumes "pmm_alloc len flags s = (p, s')" and "p \<noteq> 0"
  obtains q where "len \<noteq> 0" "free_run s q (unat (pmm_pages len))"
    "p = pmm_get_address (of_nat q) 0" "s' = pmm_use p len flags s"
proof -
  have len: "len \<noteq> 0" using assms by (auto simp: pmm_alloc_def pmm_find_free_def Let_def)
  let ?n = "unat (pmm_pages len)"
  have ex: "\<exists>q. free_run s q ?n"
    using assms by (auto simp: pmm_alloc_def Let_def pmm_find_free_spec[OF len] split: if_splits)
  then have run: "free_run s (LEAST q. free_run s q ?n) ?n" by (rule LeastI_ex)
  show ?thesis
    by (rule that[OF len run])
       (use assms ex in \<open>auto simp: pmm_alloc_def Let_def pmm_find_free_spec[OF len] split: if_splits\<close>)
qed

text \<open>
  C6: \<open>pmm_alloc\<close> is a first-fit allocator. For a nonzero length it takes the lowest run of
  enough consecutive unused page frames, returns its address and gives exactly the frames of
  that run the requested owner; when there is no such run it returns 0 and changes nothing.
\<close>

theorem pmm_alloc_first_fit:
  assumes "len \<noteq> 0" and "frame_state s 0 \<noteq> PMM_UNUSED"
  defines "n \<equiv> unat (pmm_pages len)"
  shows "if \<exists>q. free_run s q n
    then \<exists>q s'. pmm_alloc len flags s = (pmm_get_address (of_nat q) 0, s') \<and>
           pmm_get_address (of_nat q) 0 \<noteq> 0 \<and>
           free_run s q n \<and> (\<forall>q'. free_run s q' n \<longrightarrow> q \<le> q') \<and>
           (\<forall>x<1048576. frame_state s' x =
              (if q \<le> unat x \<and> unat x < q + n then flags else frame_state s x))
    else pmm_alloc len flags s = (0, s)"
proof (cases "\<exists>q. free_run s q n")
  case True
  define q where "q = (LEAST q. free_run s q n)"
  have run: "free_run s q n" unfolding q_def using True by (rule LeastI_ex)
  have least: "\<forall>q'. free_run s q' n \<longrightarrow> q \<le> q'" unfolding q_def by (auto intro: Least_le)
  have le: "q + n \<le> PAGE_NUMBER" using run by (simp add: free_run_def)
  have n: "0 < n" using pmm_pages_bounds[OF assms(1)] by (simp add: n_def)
  have q: "0 < q" "q < 1048576" using free_run_pos[OF assms(2) run n] run n
    by (simp_all add: free_run_def)
  have uq: "unat (of_nat q :: u32) = q" using q by (simp add: unat_of_nat_small)
  have ne: "pmm_get_address (of_nat q) 0 \<noteq> 0"
    using q uq by (subst get_address_eq_0_iff) (auto simp: word_less_nat_alt word_unat_eq_iff)
  have "pmm_alloc len flags s =
      (pmm_get_address (of_nat q) 0, pmm_use (pmm_get_address (of_nat q) 0) len flags s)"
    using ne True by (simp add: pmm_alloc_def pmm_find_free_spec[OF assms(1)] n_def q_def Let_def)
  moreover have "\<forall>x<1048576. frame_state (pmm_use (pmm_get_address (of_nat q) 0) len flags s) x =
      (if q \<le> unat x \<and> unat x < q + n then flags else frame_state s x)"
    using le by (simp add: n_def frame_state_use_run[OF assms(1)])
  ultimately show ?thesis unfolding if_P[OF True] using ne run least by blast
next
  case False
  then show ?thesis by (simp add: pmm_alloc_def pmm_find_free_spec[OF assms(1)] n_def)
qed

definition example_pmm :: pmm where
  "example_pmm = \<lparr>bitmap = (\<lambda>_. 0x55555555)(0 := 0x55555511), highest_kernel_page = 0\<rparr>"

lemma example_pmm_frame_0: "frame_state example_pmm 0 \<noteq> PMM_UNUSED"
  by (simp add: example_pmm_def frame_state_def pmm_bitmap_get_def pmm_flags_of_def)

theorem pmm_alloc_first_fit_witness:
  "(1::u32) \<noteq> 0 \<and> frame_state example_pmm 0 \<noteq> PMM_UNUSED \<and>
   (if \<exists>q. free_run example_pmm q (unat (pmm_pages 1)) then True
    else pmm_alloc 1 PMM_USER example_pmm = (0, example_pmm))"
  using pmm_alloc_first_fit[of 1 example_pmm PMM_USER] example_pmm_frame_0 by (simp split: if_splits)

text \<open>
  C33: Freeing what \<open>pmm_alloc\<close> returned restores the owner of every page frame: allocation
  followed by a free of the same length is the identity on the frame map.
\<close>

theorem pmm_alloc_free_roundtrip:
  assumes "pmm_alloc len flags s = (p, s')" and "p \<noteq> 0" and "x < 1048576"
  shows "frame_state (pmm_free p len s') x = frame_state s x"
proof -
  let ?n = "unat (pmm_pages len)"
  obtain q where len: "len \<noteq> 0" and run: "free_run s q ?n" and p: "p = pmm_get_address (of_nat q) 0"
    and s': "s' = pmm_use p len flags s" using assms(1,2) by (rule pmm_alloc_success)
  have b: "q + ?n \<le> PAGE_NUMBER" using run by (simp add: free_run_def)
  have "frame_state s x = PMM_UNUSED" if "q \<le> unat x" "unat x < q + ?n"
  proof -
    have "frame_state s (of_nat (q + (unat x - q))) = PMM_UNUSED"
      using run that unfolding free_run_def by (metis le_add_diff_inverse nat_add_left_cancel_less)
    then show ?thesis using that by simp
  qed
  then show ?thesis
    unfolding pmm_free_def if_not_P[OF len] s' p
    by (auto simp: frame_state_use_run[OF len b assms(3)])
qed

lemma pmm_alloc_frame_0_free:
  assumes "frame_state s 0 = PMM_UNUSED" and "len \<le> PAGE_SIZE"
  shows "fst (pmm_alloc len flags s) = 0"
proof (rule ccontr)
  assume "fst (pmm_alloc len flags s) \<noteq> 0"
  then have len: "len \<noteq> 0" by (auto simp: pmm_alloc_def pmm_find_free_def)
  then have "0 < unat len" "unat len \<le> 4096"
    using assms(2) by (simp_all add: word_le_nat_alt unat_gt_0)
  then have n: "unat (pmm_pages len) = 1" unfolding unat_pmm_pages by linarith
  have run: "free_run s 0 (unat (pmm_pages len))" using assms(1) by (simp add: free_run_def n)
  then have "(LEAST q. free_run s q (unat (pmm_pages len))) = 0" by (intro Least_eq_0)
  with run have "fst (pmm_alloc len flags s) = 0"
    by (auto simp: pmm_alloc_def pmm_find_free_spec[OF len] get_address_eq_0_iff)
  with \<open>fst (pmm_alloc len flags s) \<noteq> 0\<close> show False ..
qed

text \<open>
  Once page frame 0 is unused, every request of at most one page fails although a free
  frame exists: the search finds frame 0, whose address is the error value 0.
\<close>

theorem pmm_alloc_fails_on_free_frame_0:
  assumes "frame_state s 0 = PMM_UNUSED" and "0 < len" and "len \<le> PAGE_SIZE"
  shows "free_run s 0 (unat (pmm_pages len)) \<and> pmm_alloc len flags s = (0, s)"
proof -
  have len: "len \<noteq> 0" using assms(2) by auto
  have "0 < unat len" "unat len \<le> 4096" using assms(2,3) by (simp_all add: word_less_nat_alt word_le_nat_alt)
  then have n: "unat (pmm_pages len) = 1" unfolding unat_pmm_pages by linarith
  have run: "free_run s 0 (unat (pmm_pages len))" using assms(1) by (simp add: free_run_def n)
  then have "(LEAST q. free_run s q (unat (pmm_pages len))) = 0" by (intro Least_eq_0)
  with run show ?thesis
    by (auto simp: pmm_alloc_def pmm_find_free_spec[OF len] get_address_eq_0_iff)
qed

theorem pmm_alloc_fails_on_free_frame_0_witness:
  "free_run (example_pmm\<lparr>bitmap := \<lambda>_. 0\<rparr>) 0 (unat (pmm_pages 4096)) \<and>
   pmm_alloc 4096 PMM_USER (example_pmm\<lparr>bitmap := \<lambda>_. 0\<rparr>) = (0, example_pmm\<lparr>bitmap := \<lambda>_. 0\<rparr>)"
  by (rule pmm_alloc_fails_on_free_frame_0)
     (simp_all add: frame_state_def pmm_bitmap_get_def pmm_flags_of_def)

lemma example_pmm_alloc:
  "pmm_alloc 4096 PMM_USER example_pmm = (0x1000, pmm_use 0x1000 4096 PMM_USER example_pmm)"
proof -
  have "frame_state example_pmm 1 = PMM_UNUSED"
    by (simp add: example_pmm_def frame_state_def pmm_bitmap_get_def pmm_flags_of_def)
  then have run: "free_run example_pmm 1 1" by (simp add: free_run_def)
  have "\<not> free_run example_pmm 0 1" using example_pmm_frame_0 by (simp add: free_run_def)
  moreover have n: "unat (pmm_pages 4096) = 1" by (simp add: unat_pmm_pages)
  ultimately have "(LEAST q. free_run example_pmm q (unat (pmm_pages 4096))) = 1"
    "\<exists>q. free_run example_pmm q (unat (pmm_pages 4096))"
    using run unfolding n by (intro Least_equality, simp, metis One_nat_def Suc_leI gr0I, blast)
  then have "pmm_find_free example_pmm 4096 = 0x1000"
    by (simp add: pmm_find_free_spec pmm_get_address_def)
  then show ?thesis by (simp add: pmm_alloc_def Let_def)
qed

theorem pmm_alloc_free_roundtrip_witness:
  "frame_state (pmm_free 0x1000 4096 (pmm_use 0x1000 4096 PMM_USER example_pmm)) 1 = frame_state example_pmm 1"
  by (rule pmm_alloc_free_roundtrip[OF example_pmm_alloc]) simp_all

end
