(* ===== verification/MMU.thy ===== *)
theory MMU
  imports PMM
begin

unbundle bit_operations_syntax

text \<open>
  The machine the kernel manipulates and \<^verbatim>\<open>mem/mmu.c\<close>. Physical memory is a function from
  page frames to 1024 double words; \<open>mmu_translate\<close> is the processor's two-level walk, which
  every \<open>load\<close> and \<open>store\<close> of the kernel goes through once paging is enabled. The kernel runs
  in ring 0 with \<^verbatim>\<open>CR0.WP\<close> clear, so only the present bits of the two entries are checked.
  A page fault ends in \<^verbatim>\<open>panic\<close>, so a faulting access is \<open>None\<close>. The inline assembly is
  modelled by its effect on the control registers; the TLB itself is not modelled, only the
  invalidations the code issues (\<open>tlb_log\<close>).
\<close>

datatype tlb_event = Flush_all | Invlpg ptr

record mm = pmm +
  pmem :: "20 word \<Rightarrow> 10 word \<Rightarrow> u32"
  cr3 :: ptr
  cr0_pg :: bool
  eflags_if :: bool
  tlb_log :: "tlb_event list"
  page_directory :: ptr
  old_directory :: ptr
  old_interrupts :: bool
  domain_check_enabled :: bool

subsection \<open>Page directory and page table entries\<close>

text \<open>
  The packed bit fields of \<^verbatim>\<open>page_directory_entry_t\<close> and \<^verbatim>\<open>page_table_entry_t\<close> as accessors
  of the double word: \<^verbatim>\<open>pr\<close> is bit 0, \<^verbatim>\<open>rw\<close> bit 1, \<^verbatim>\<open>user\<close> bit 2 and \<^verbatim>\<open>pt\<close> or \<^verbatim>\<open>page\<close> the
  20 most significant bits.
\<close>

definition entry_pr :: "u32 \<Rightarrow> bool" where "entry_pr e = bit e 0"
definition entry_rw :: "u32 \<Rightarrow> bool" where "entry_rw e = bit e 1"
definition entry_user :: "u32 \<Rightarrow> bool" where "entry_user e = bit e 2"
definition entry_page :: "u32 \<Rightarrow> u32" where "entry_page e = drop_bit 12 e"

definition set_flag :: "nat \<Rightarrow> bool \<Rightarrow> u32 \<Rightarrow> u32" where
  "set_flag n b e = (if b then e OR pow2 n else e AND NOT (pow2 n))"

definition set_page :: "u32 \<Rightarrow> u32 \<Rightarrow> u32" where
  "set_page p e = (e AND 0xFFF) OR push_bit 12 p"

definition entry_frame :: "u32 \<Rightarrow> 20 word" where "entry_frame e = ucast (drop_bit 12 e)"

subsection \<open>Address translation\<close>

definition phys_frame :: "ptr \<Rightarrow> 20 word" where "phys_frame a = ucast (drop_bit 12 a)"
definition phys_slot :: "ptr \<Rightarrow> 10 word" where "phys_slot a = ucast (drop_bit 2 a)"
definition dir_index :: "ptr \<Rightarrow> 10 word" where "dir_index va = ucast (drop_bit 22 va)"
definition tab_index :: "ptr \<Rightarrow> 10 word" where "tab_index va = ucast (drop_bit 12 va)"

definition mmu_translate :: "'a mm_scheme \<Rightarrow> ptr \<Rightarrow> ptr option" where
  "mmu_translate s va =
     (if \<not> cr0_pg s then Some va
      else let pde = pmem s (phys_frame (cr3 s)) (dir_index va)
           in if \<not> entry_pr pde then None
              else let pte = pmem s (entry_frame pde) (tab_index va)
                   in if \<not> entry_pr pte then None
                      else Some (push_bit 12 (ucast (entry_frame pte)) OR (va AND 0xFFF)))"

definition poke :: "20 word \<Rightarrow> 10 word \<Rightarrow> u32 \<Rightarrow> 'a mm_scheme \<Rightarrow> 'a mm_scheme" where
  "poke f i v s = s\<lparr>pmem := (pmem s)(f := (pmem s f)(i := v))\<rparr>"

definition load :: "'a mm_scheme \<Rightarrow> ptr \<Rightarrow> u32 option" where
  "load s va = map_option (\<lambda>pa. pmem s (phys_frame pa) (phys_slot pa)) (mmu_translate s va)"

definition store :: "ptr \<Rightarrow> u32 \<Rightarrow> 'a mm_scheme \<Rightarrow> 'a mm_scheme option" where
  "store va v s = map_option (\<lambda>pa. poke (phys_frame pa) (phys_slot pa) v s) (mmu_translate s va)"

text \<open>\<open>memset_dwords\<close> and \<open>memcpy_dwords\<close> are the memory routines on aligned double words.\<close>

primrec memset_dwords :: "nat \<Rightarrow> ptr \<Rightarrow> u32 \<Rightarrow> 'a mm_scheme \<Rightarrow> 'a mm_scheme option" where
  "memset_dwords 0 va v s = Some s"
| "memset_dwords (Suc n) va v s = do { s \<leftarrow> store va v s; memset_dwords n (va + 4) v s }"

primrec memcpy_dwords :: "nat \<Rightarrow> ptr \<Rightarrow> ptr \<Rightarrow> 'a mm_scheme \<Rightarrow> 'a mm_scheme option" where
  "memcpy_dwords 0 dst src s = Some s"
| "memcpy_dwords (Suc n) dst src s =
     do { v \<leftarrow> load s src; s \<leftarrow> store dst v s; memcpy_dwords n (dst + 4) (src + 4) s }"

subsection \<open>mmu.c\<close>

definition mmu_load_page_directory :: "ptr \<Rightarrow> 'a mm_scheme \<Rightarrow> 'a mm_scheme" where
  "mmu_load_page_directory dir s = s\<lparr>cr3 := dir, tlb_log := tlb_log s @ [Flush_all]\<rparr>"

definition mmu_enable_paging :: "ptr \<Rightarrow> 'a mm_scheme \<Rightarrow> 'a mm_scheme" where
  "mmu_enable_paging dir s =
     (if dir \<noteq> 0 then (mmu_load_page_directory dir s)\<lparr>cr0_pg := True\<rparr> else s\<lparr>cr0_pg := False\<rparr>)"

definition mmu_get_paging :: "'a mm_scheme \<Rightarrow> bool" where "mmu_get_paging s = cr0_pg s"

definition mmu_flush_tlb :: "ptr \<Rightarrow> 'a mm_scheme \<Rightarrow> 'a mm_scheme" where
  "mmu_flush_tlb va s = s\<lparr>tlb_log := tlb_log s @ [Invlpg va]\<rparr>"

text \<open>The text the page fault handler prints before it panics.\<close>

definition mmu_fault_text :: "u32 \<Rightarrow> string list" where
  "mmu_fault_text error =
     [if bit error 0 then ''protection violation'' else ''non-present page'',
      if bit error 1 then ''writing'' else ''reading'',
      if bit error 2 then ''in user space'' else ''in the kernel'',
      if bit error 3 then '', reserved write'' else '''',
      if bit error 4 then '', instruction fetch'' else '''']"

subsection \<open>The interrupt flag (isr.c)\<close>

definition isr_get_interrupts :: "'a mm_scheme \<Rightarrow> bool" where
  "isr_get_interrupts s = eflags_if s"

definition isr_enable_interrupts :: "bool \<Rightarrow> 'a mm_scheme \<Rightarrow> bool \<times> 'a mm_scheme" where
  "isr_enable_interrupts enable s =
     (let old = isr_get_interrupts s
      in (old, if enable \<and> \<not> old then s\<lparr>eflags_if := True\<rparr>
               else if \<not> enable \<and> old then s\<lparr>eflags_if := False\<rparr> else s))"

lemma isr_enable_interrupts_eq [simp]:
  "isr_enable_interrupts b s = (eflags_if s, s\<lparr>eflags_if := b\<rparr>)"
  by (cases s) (simp add: isr_enable_interrupts_def isr_get_interrupts_def Let_def)

end
