(* ===== verification/VMM.thy ===== *)
theory VMM
  imports MMU
begin

unbundle bit_operations_syntax

text \<open>
  \<^verbatim>\<open>mem/vmm.c\<close>: the operations of the virtual memory manager, each over the machine state of
  \<open>MMU\<close>. The page directory and the page tables are reached through the pointers the code
  uses: physical ones while paging is off, \<open>VMM_PAGEDIR\<close> and \<open>VMM_PAGETAB\<close> afterwards. An
  access that faults makes the operation \<open>None\<close> (the kernel panics). Console output and logging
  are left out.
\<close>

definition ENTRIES :: nat where "ENTRIES = 1024"
definition VMM_PAGEDIR :: ptr where "VMM_PAGEDIR = 0xFFFFF000"
definition VMM_PAGETAB :: "u32 \<Rightarrow> ptr" where "VMM_PAGETAB i = 0xFFC00000 + i * PAGE_SIZE"

definition VMM_KERNEL :: u32 where [simp]: "VMM_KERNEL = 0"
definition VMM_USER :: u32 where [simp]: "VMM_USER = 1"
definition VMM_WRITABLE :: u32 where [simp]: "VMM_WRITABLE = 4"

text \<open>The bit fields of \<^verbatim>\<open>vmm_virtual_address_t\<close>.\<close>

definition va_page_offset :: "ptr \<Rightarrow> u32" where "va_page_offset va = va AND 0xFFF"
definition va_page :: "ptr \<Rightarrow> u32" where "va_page va = drop_bit 12 va AND 0x3FF"
definition va_page_table :: "ptr \<Rightarrow> u32" where "va_page_table va = drop_bit 22 va"

subsection \<open>Domains\<close>

datatype vmm_domain = kernel_domain | user_domain

fun domain_start :: "vmm_domain \<Rightarrow> ptr" where
  "domain_start kernel_domain = 0x400000"
| "domain_start user_domain = 0x40000000"

fun domain_end :: "vmm_domain \<Rightarrow> ptr" where
  "domain_end kernel_domain = 0x3FFFFFFF"
| "domain_end user_domain = 0xFFFFFFFF - of_nat ENTRIES * PAGE_SIZE"

definition vmm_get_domain :: "u32 \<Rightarrow> vmm_domain" where
  "vmm_get_domain flags = (if flags AND VMM_USER \<noteq> 0 then user_domain else kernel_domain)"

definition vmm_is_in_domain :: "ptr \<Rightarrow> vmm_domain \<Rightarrow> bool" where
  "vmm_is_in_domain vaddr domain \<longleftrightarrow> domain_start domain \<le> vaddr \<and> vaddr \<le> domain_end domain"

definition vmm_get_domain_from_address :: "ptr \<Rightarrow> vmm_domain option" where
  "vmm_get_domain_from_address vaddr =
     (if vmm_is_in_domain vaddr kernel_domain then Some kernel_domain
      else if vmm_is_in_domain vaddr user_domain then Some user_domain else None)"

definition vmm_domain_check :: "'a mm_scheme \<Rightarrow> ptr \<Rightarrow> u32 \<Rightarrow> bool" where
  "vmm_domain_check s vaddr flags =
     (if domain_check_enabled s \<and> vmm_get_domain_from_address vaddr \<noteq> Some (vmm_get_domain flags)
      then False else True)"

definition vmm_get_pmm_flags :: "u32 \<Rightarrow> pmm_flags" where
  "vmm_get_pmm_flags flags = (if flags AND VMM_USER \<noteq> 0 then PMM_USER else PMM_KERNEL)"

definition vmm_enable_domain_check :: "bool \<Rightarrow> 'a mm_scheme \<Rightarrow> 'a mm_scheme" where
  "vmm_enable_domain_check enable s = s\<lparr>domain_check_enabled := enable\<rparr>"

subsection \<open>Page tables\<close>

definition dir_entry_ptr :: "'a mm_scheme \<Rightarrow> u32 \<Rightarrow> ptr" where
  "dir_entry_ptr s i = page_directory s + 4 * i"

definition vmm_get_page_table :: "'a mm_scheme \<Rightarrow> ptr \<Rightarrow> ptr \<Rightarrow> ptr option" where
  "vmm_get_page_table s dir_entry vaddr =
     (if page_directory s = VMM_PAGEDIR then Some (VMM_PAGETAB (va_page_table vaddr))
      else do { e \<leftarrow> load s dir_entry; Some (pmm_get_address (entry_page e) 0) })"

definition vmm_get_page_table_entry :: "'a mm_scheme \<Rightarrow> ptr \<Rightarrow> ptr \<Rightarrow> ptr option" where
  "vmm_get_page_table_entry s dir_entry vaddr =
     do { tab \<leftarrow> vmm_get_page_table s dir_entry vaddr; Some (tab + 4 * va_page vaddr) }"

definition vmm_destroy_page_table :: "u32 \<Rightarrow> 'a mm_scheme \<Rightarrow> 'a mm_scheme option" where
  "vmm_destroy_page_table page_table s =
     do { e \<leftarrow> load s (dir_entry_ptr s page_table);
          let s = pmm_free (pmm_get_address (entry_page e) 0) PAGE_SIZE s;
          store (dir_entry_ptr s page_table) 0 s }"

subsection \<open>Mapping and unmapping a page\<close>

definition vmm_new_page_table :: "ptr \<Rightarrow> ptr \<Rightarrow> 'a mm_scheme \<Rightarrow> 'a mm_scheme option" where
  "vmm_new_page_table dir_entry vaddr s =
     do { e \<leftarrow> load s dir_entry;
          s \<leftarrow> store dir_entry (set_flag 0 True (set_flag 1 True (set_flag 2 True e))) s;
          let (p, s) = pmm_alloc PAGE_SIZE PMM_KERNEL s;
          e \<leftarrow> load s dir_entry;
          s \<leftarrow> store dir_entry (set_page (pmm_get_page p 0) e) s;
          tab \<leftarrow> vmm_get_page_table s dir_entry vaddr;
          memset_dwords ENTRIES tab 0 s }"

definition new_table_entry :: "ptr \<Rightarrow> u32 \<Rightarrow> u32 \<Rightarrow> u32" where
  "new_table_entry paddr flags e =
     set_page (pmm_get_page paddr 0)
       (set_flag 2 (flags AND VMM_USER \<noteq> 0)
         (set_flag 1 (flags AND VMM_WRITABLE \<noteq> 0)
           (set_flag 0 True e)))"

definition vmm_map :: "ptr \<Rightarrow> ptr \<Rightarrow> u32 \<Rightarrow> 'a mm_scheme \<Rightarrow> (bool \<times> 'a mm_scheme) option" where
  "vmm_map vaddr paddr flags s =
     (if \<not> vmm_domain_check s vaddr flags then Some (False, s)
      else do {
        let dir_entry = dir_entry_ptr s (va_page_table vaddr);
        e \<leftarrow> load s dir_entry;
        s \<leftarrow> (if \<not> entry_pr e then vmm_new_page_table dir_entry vaddr s else Some s);
        tab_entry \<leftarrow> vmm_get_page_table_entry s dir_entry vaddr;
        te \<leftarrow> load s tab_entry;
        if entry_pr te then Some (False, s)
        else do {
          s \<leftarrow> store tab_entry (new_table_entry paddr flags te) s;
          Some (True, if page_directory s = VMM_PAGEDIR then mmu_flush_tlb vaddr s else s) } })"

function vmm_first_present :: "'a mm_scheme \<Rightarrow> ptr \<Rightarrow> nat \<Rightarrow> nat option" where
  "vmm_first_present s tab i =
     (if i < ENTRIES then
        do { e \<leftarrow> load s (tab + 4 * of_nat i);
             if entry_pr e then Some i else vmm_first_present s tab (Suc i) }
      else Some i)"
  by pat_completeness auto
termination
  by (relation "measure (\<lambda>(s, tab, i). ENTRIES - i)") auto

declare vmm_first_present.simps [simp del]

definition vmm_unmap :: "ptr \<Rightarrow> 'a mm_scheme \<Rightarrow> 'a mm_scheme option" where
  "vmm_unmap vaddr s =
     do { let dir_entry = dir_entry_ptr s (va_page_table vaddr);
          e \<leftarrow> load s dir_entry;
          if \<not> entry_pr e then Some s
          else do {
            tab \<leftarrow> vmm_get_page_table s dir_entry vaddr;
            let tab_entry = tab + 4 * va_page vaddr;
            te \<leftarrow> load s tab_entry;
            if \<not> entry_pr te then Some s
            else do {
              s \<leftarrow> store tab_entry 0 s;
              i \<leftarrow> vmm_first_present s tab 0;
              s \<leftarrow> (if i = ENTRIES - 1 then vmm_destroy_page_table (va_page_table vaddr) s else Some s);
              Some (if page_directory s = VMM_PAGEDIR then mmu_flush_tlb vaddr s else s) } } }"

subsection \<open>Ranges\<close>

primrec vmm_map_loop :: "nat \<Rightarrow> u32 \<Rightarrow> u32 \<Rightarrow> u32 \<Rightarrow> 'a mm_scheme \<Rightarrow> 'a mm_scheme option" where
  "vmm_map_loop 0 virtual_page physical_page flags s = Some s"
| "vmm_map_loop (Suc n) virtual_page physical_page flags s =
     do { (_, s) \<leftarrow> vmm_map (pmm_get_address virtual_page 0) (pmm_get_address physical_page 0) flags s;
          vmm_map_loop n (virtual_page + 1) (physical_page + 1) flags s }"

primrec vmm_unmap_loop :: "nat \<Rightarrow> u32 \<Rightarrow> 'a mm_scheme \<Rightarrow> 'a mm_scheme option" where
  "vmm_unmap_loop 0 virtual_page s = Some s"
| "vmm_unmap_loop (Suc n) virtual_page s =
     do { s \<leftarrow> vmm_unmap (pmm_get_address virtual_page 0) s; vmm_unmap_loop n (virtual_page + 1) s }"

definition vmm_map_range_detailed ::
  "ptr \<Rightarrow> ptr \<Rightarrow> u32 \<Rightarrow> u32 \<Rightarrow> bool \<Rightarrow> 'a mm_scheme \<Rightarrow> 'a mm_scheme option" where
  "vmm_map_range_detailed vaddr paddr len flags do_map s =
     (if do_map \<and> \<not> vmm_domain_check s vaddr flags then Some s
      else let virtual_page = pmm_get_page vaddr 0;
               physical_page = pmm_get_page paddr 0;
               pages = pmm_get_page vaddr (len - 1) - virtual_page + 1
           in if do_map then vmm_map_loop (unat pages) virtual_page physical_page flags s
              else vmm_unmap_loop (unat pages) virtual_page s)"

definition vmm_map_range :: "ptr \<Rightarrow> ptr \<Rightarrow> u32 \<Rightarrow> u32 \<Rightarrow> 'a mm_scheme \<Rightarrow> 'a mm_scheme option" where
  "vmm_map_range vaddr paddr len flags s =
     (if len = 0 then Some s else vmm_map_range_detailed vaddr paddr len flags True s)"

definition vmm_unmap_range :: "ptr \<Rightarrow> u32 \<Rightarrow> 'a mm_scheme \<Rightarrow> 'a mm_scheme option" where
  "vmm_unmap_range vaddr len s =
     (if len = 0 then Some s else vmm_map_range_detailed vaddr 0 len 0 False s)"

definition vmm_get_physical_address :: "'a mm_scheme \<Rightarrow> ptr \<Rightarrow> ptr option" where
  "vmm_get_physical_address s vaddr =
     (if \<not> mmu_get_paging s then Some vaddr
      else do {
        let dir_entry = dir_entry_ptr s (va_page_table vaddr);
        e \<leftarrow> load s dir_entry;
        if \<not> entry_pr e then Some 0
        else do {
          tab_entry \<leftarrow> vmm_get_page_table_entry s dir_entry vaddr;
          te \<leftarrow> load s tab_entry;
          if \<not> entry_pr te then Some 0
          else Some (pmm_get_address (entry_page te) (va_page_offset vaddr)) } })"

function vmm_find_loop :: "'a mm_scheme \<Rightarrow> u32 \<Rightarrow> nat \<Rightarrow> nat \<Rightarrow> u32 \<Rightarrow> ptr option" where
  "vmm_find_loop s pages end_page i free_pages =
     (if i \<le> end_page then
        do { p \<leftarrow> vmm_get_physical_address s (pmm_get_address (of_nat i) 0);
             let free_pages' = (if p = 0 then free_pages + 1 else 0);
             if pages \<le> free_pages' then Some (pmm_get_address (of_nat i - free_pages' + 1) 0)
             else vmm_find_loop s pages end_page (Suc i) free_pages' }
      else Some 0)"
  by pat_completeness auto
termination
  by (relation "measure (\<lambda>(s, pages, end_page, i, free_pages). Suc end_page - i)") auto

declare vmm_find_loop.simps [simp del]

definition vmm_find_free :: "'a mm_scheme \<Rightarrow> u32 \<Rightarrow> vmm_domain \<Rightarrow> ptr option" where
  "vmm_find_free s len domain =
     (if len = 0 then Some 0
      else vmm_find_loop s (pmm_pages len) (unat (pmm_get_page (domain_end domain) 0))
             (unat (pmm_get_page (domain_start domain) 0)) 0)"

subsection \<open>Mapping physical memory\<close>

definition vmm_map_physical_memory ::
  "ptr \<Rightarrow> u32 \<Rightarrow> u32 \<Rightarrow> 'a mm_scheme \<Rightarrow> (ptr \<times> 'a mm_scheme) option" where
  "vmm_map_physical_memory paddr len flags s =
     (if \<not> mmu_get_paging s then Some (paddr, s)
      else do {
        vaddr \<leftarrow> vmm_find_free s len (vmm_get_domain flags);
        if vaddr = 0 then Some (0, s)
        else do { s \<leftarrow> vmm_map_range vaddr paddr len flags s; Some (vaddr, s) } })"

definition vmm_unmap_physical_memory :: "ptr \<Rightarrow> u32 \<Rightarrow> 'a mm_scheme \<Rightarrow> 'a mm_scheme option" where
  "vmm_unmap_physical_memory vaddr len s =
     (if mmu_get_paging s then vmm_unmap_range vaddr len s else Some s)"

definition vmm_use :: "ptr \<Rightarrow> ptr \<Rightarrow> u32 \<Rightarrow> u32 \<Rightarrow> 'a mm_scheme \<Rightarrow> 'a mm_scheme option" where
  "vmm_use vaddr paddr len flags s =
     (if len = 0 \<or> \<not> vmm_domain_check s vaddr flags then Some s
      else vmm_map_range vaddr paddr len flags (pmm_use paddr len (vmm_get_pmm_flags flags) s))"

definition vmm_use_physical_memory ::
  "ptr \<Rightarrow> u32 \<Rightarrow> u32 \<Rightarrow> 'a mm_scheme \<Rightarrow> (ptr \<times> 'a mm_scheme) option" where
  "vmm_use_physical_memory paddr len flags s =
     do { vaddr \<leftarrow> vmm_find_free s len (vmm_get_domain flags);
          if vaddr = 0 then Some (0, s)
          else do { s \<leftarrow> vmm_use vaddr paddr len flags s; Some (vaddr, s) } }"

definition vmm_use_virtual_memory ::
  "ptr \<Rightarrow> u32 \<Rightarrow> u32 \<Rightarrow> 'a mm_scheme \<Rightarrow> (ptr \<times> 'a mm_scheme) option" where
  "vmm_use_virtual_memory vaddr len flags s =
     (if \<not> vmm_domain_check s vaddr flags then Some (0, s)
      else do {
        let (paddr, s) = pmm_alloc len (vmm_get_pmm_flags flags) s;
        if paddr = 0 then Some (0, s)
        else do { s \<leftarrow> vmm_map_range vaddr paddr len flags s; Some (paddr, s) } })"

definition vmm_alloc :: "u32 \<Rightarrow> u32 \<Rightarrow> 'a mm_scheme \<Rightarrow> (ptr \<times> 'a mm_scheme) option" where
  "vmm_alloc len flags s =
     do { let (paddr, s) = pmm_alloc len (vmm_get_pmm_flags flags) s;
          vaddr \<leftarrow> vmm_find_free s len (vmm_get_domain flags);
          if paddr = 0 \<or> vaddr = 0 then Some (0, s)
          else do { s \<leftarrow> vmm_map_range vaddr paddr len flags s; Some (vaddr, s) } }"

definition vmm_free :: "ptr \<Rightarrow> u32 \<Rightarrow> 'a mm_scheme \<Rightarrow> 'a mm_scheme option" where
  "vmm_free vaddr len s =
     (if len = 0 then Some s
      else do { paddr \<leftarrow> vmm_get_physical_address s vaddr;
                s \<leftarrow> vmm_unmap_range vaddr len s;
                Some (pmm_free paddr len s) })"

subsection \<open>Page directories\<close>

definition vmm_create_page_directory :: "'a mm_scheme \<Rightarrow> (ptr \<times> 'a mm_scheme) option" where
  "vmm_create_page_directory s =
     do { let (dir_phys, s) = pmm_alloc PAGE_SIZE PMM_KERNEL s;
          (dir, s) \<leftarrow> vmm_map_physical_memory dir_phys PAGE_SIZE VMM_KERNEL s;
          s \<leftarrow> memset_dwords ENTRIES dir 0 s;
          s \<leftarrow> store (dir + 4 * of_nat (ENTRIES - 1))
                 (set_flag 0 True (set_page (pmm_get_page dir_phys 0) 0)) s;
          s \<leftarrow> vmm_unmap_physical_memory dir PAGE_SIZE s;
          Some (dir_phys, s) }"

primrec vmm_destroy_loop :: "nat \<Rightarrow> u32 \<Rightarrow> 'a mm_scheme \<Rightarrow> 'a mm_scheme option" where
  "vmm_destroy_loop 0 i s = Some s"
| "vmm_destroy_loop (Suc n) i s =
     do { e \<leftarrow> load s (dir_entry_ptr s i);
          s \<leftarrow> (if entry_pr e then vmm_destroy_page_table i s else Some s);
          vmm_destroy_loop n (i + 1) s }"

definition vmm_destroy_page_directory :: "ptr \<Rightarrow> 'a mm_scheme \<Rightarrow> 'a mm_scheme option" where
  "vmm_destroy_page_directory dir_phys s =
     do { let old = page_directory s;
          (dir, s) \<leftarrow> vmm_map_physical_memory dir_phys PAGE_SIZE VMM_KERNEL s;
          let s = s\<lparr>page_directory := dir\<rparr>;
          let first = va_page_table (domain_start user_domain);
          let last = va_page_table (domain_end user_domain);
          s \<leftarrow> vmm_destroy_page_table 0 s;
          s \<leftarrow> vmm_destroy_loop (Suc (unat last) - unat first) first s;
          s \<leftarrow> vmm_destroy_page_table (of_nat (ENTRIES - 1)) s;
          vmm_unmap_physical_memory dir PAGE_SIZE (s\<lparr>page_directory := old\<rparr>) }"

definition vmm_refresh_page_directory :: "ptr \<Rightarrow> 'a mm_scheme \<Rightarrow> 'a mm_scheme option" where
  "vmm_refresh_page_directory dir_phys s =
     do { (dir, s) \<leftarrow> vmm_map_physical_memory dir_phys PAGE_SIZE VMM_KERNEL s;
          let first = va_page_table (domain_start kernel_domain);
          let last = va_page_table (domain_end kernel_domain);
          s \<leftarrow> memcpy_dwords (unat (last - first + 1)) (dir + first * 4) (page_directory s + first * 4) s;
          vmm_unmap_physical_memory dir PAGE_SIZE s }"

definition vmm_load_page_directory :: "ptr \<Rightarrow> 'a mm_scheme \<Rightarrow> (ptr \<times> 'a mm_scheme) option" where
  "vmm_load_page_directory new_directory s =
     (if new_directory \<noteq> VMM_PAGEDIR then do {
        old \<leftarrow> vmm_get_physical_address s (page_directory s);
        s \<leftarrow> (if mmu_get_paging s then do {
                 s \<leftarrow> vmm_refresh_page_directory new_directory s;
                 Some (mmu_load_page_directory new_directory s) }
               else Some (mmu_enable_paging new_directory s));
        Some (old, s\<lparr>page_directory := VMM_PAGEDIR\<rparr>) }
      else Some (0, s))"

definition vmm_modify_page_directory :: "ptr \<Rightarrow> 'a mm_scheme \<Rightarrow> 'a mm_scheme option" where
  "vmm_modify_page_directory new_directory s =
     (if old_directory s \<noteq> 0 then Some s
      else do {
        let (old_intr, s) = isr_enable_interrupts False s;
        (old, s) \<leftarrow> vmm_load_page_directory new_directory (s\<lparr>old_interrupts := old_intr\<rparr>);
        Some (s\<lparr>old_directory := old\<rparr>) })"

definition vmm_modified_page_directory :: "'a mm_scheme \<Rightarrow> 'a mm_scheme option" where
  "vmm_modified_page_directory s =
     (if old_directory s = 0 then Some s
      else do {
        (_, s) \<leftarrow> vmm_load_page_directory (old_directory s) s;
        let s = s\<lparr>old_directory := 0\<rparr>;
        Some (snd (isr_enable_interrupts (old_interrupts s) s)) })"

end
