(* ===== verification/VMM_Refine.thy ===== *)
theory VMM_Refine
  imports VMM
begin

unbundle bit_operations_syntax

text \<open>
  What the pointers of \<open>VMM\<close> denote, and the abstract address space that mapping and unmapping
  implement. A directory frame \<open>d\<close> is viewed through \<open>dir_view\<close>; \<open>lookup\<close> is the page map it
  describes; \<open>vmm_ok\<close> is the invariant that keeps the tables of a directory apart.
\<close>

subsection \<open>Index arithmetic\<close>

lemma unat_lt_2_32: "unat (a::u32) < 4294967296"
  using unat_bound[of a] by simp

lemma unat_dir_index: "unat (dir_index va) = unat va div 4194304"
  using unat_lt_2_32[of va]
  by (simp add: dir_index_def unsigned_ucast_eq drop_bit_eq_div unat_div take_bit_eq_mod)

lemma unat_tab_index: "unat (tab_index va) = unat va div 4096 mod 1024"
  by (simp add: tab_index_def unsigned_ucast_eq drop_bit_eq_div unat_div take_bit_eq_mod)

lemma unat_phys_frame: "unat (phys_frame a) = unat a div 4096"
  using unat_lt_2_32[of a]
  by (simp add: phys_frame_def unsigned_ucast_eq drop_bit_eq_div unat_div take_bit_eq_mod)

lemma unat_phys_slot: "unat (phys_slot a) = unat a div 4 mod 1024"
  by (simp add: phys_slot_def unsigned_ucast_eq drop_bit_eq_div unat_div take_bit_eq_mod)

lemma unat_va_page_table: "unat (va_page_table va) = unat va div 4194304"
  by (simp add: va_page_table_def drop_bit_eq_div unat_div)

lemma and_mask_10: "x AND 0x3FF = take_bit 10 (x :: u32)"
  by (simp add: take_bit_eq_mask mask_eq_exp_minus_1)

lemma and_mask_12: "x AND 0xFFF = take_bit 12 (x :: u32)"
  by (simp add: take_bit_eq_mask mask_eq_exp_minus_1)

lemma va_page_eq: "va_page va = ucast (tab_index va)"
  unfolding va_page_def tab_index_def and_mask_10 by (auto intro!: bit_word_eqI simp: bit_simps)

lemma va_page_table_eq: "va_page_table va = ucast (dir_index va)"
  using unat_lt_2_32[of va]
  by (simp add: word_unat_eq_iff unat_va_page_table unsigned_ucast_eq unat_dir_index take_bit_eq_mod)

lemma phys_split:
  "phys_frame (push_bit 12 (ucast f) OR (va AND 0xFFF)) = f"
  "phys_slot (push_bit 12 (ucast f) OR (va AND 0xFFF)) = phys_slot va"
  unfolding phys_frame_def phys_slot_def and_mask_12 by (auto intro!: bit_word_eqI simp: bit_simps)

lemma ucast_page_less: "ucast (f :: 20 word) < (1048576 :: u32)"
proof -
  have "unat f < 1048576" using unat_bound[of f] by simp
  then show ?thesis by (simp add: word_less_nat_alt unsigned_ucast_eq take_bit_eq_mod)
qed

lemma unat_ucast_frame: "unat (ucast (f :: 20 word) :: u32) = unat f"
  using unat_bound[of f] by (simp add: unsigned_ucast_eq take_bit_eq_mod)

lemma unat_ucast_slot: "unat (ucast (i :: 10 word) :: u32) = unat i"
  using unat_bound[of i] by (simp add: unsigned_ucast_eq take_bit_eq_mod)

text \<open>A dword of a page given by its address.\<close>

lemma unat_page_dword:
  assumes "unat (a :: u32) mod 4096 = 0"
  shows "unat (a + 4 * ucast (i :: 10 word)) = unat a + 4 * unat i"
proof -
  have i: "unat i < 1024" using unat_bound[of i] by simp
  have "unat a \<le> 4294963200"
  proof -
    have "unat a = 4096 * (unat a div 4096)" using assms mult_div_mod_eq[of 4096 "unat a"] by linarith
    moreover have "unat a div 4096 < 1048576" using unat_lt_2_32[of a] by simp
    ultimately show ?thesis by linarith
  qed
  moreover have "unat (4 * ucast i :: u32) = 4 * unat i"
    using i by (simp add: unat_mult_small unat_ucast_slot)
  ultimately show ?thesis using i by (simp add: unat_add_small)
qed

lemma page_dword:
  assumes "unat (a :: u32) mod 4096 = 0"
  shows "phys_frame (a + 4 * ucast (i :: 10 word)) = phys_frame a"
    and "phys_slot (a + 4 * ucast i) = i"
    and "dir_index (a + 4 * ucast i) = dir_index a"
    and "tab_index (a + 4 * ucast i) = tab_index a"
proof -
  have i: "unat i < 1024" using unat_bound[of i] by simp
  define q where "q = unat a div 4096"
  have a: "unat a = 4096 * q" using assms mult_div_mod_eq[of 4096 "unat a"] by (simp add: q_def)
  note u = unat_page_dword[OF assms, of i]
  have q: "(4096 * q + 4 * unat i) div 4096 = q" using i by (intro div_nat_eqI) auto
  have q4: "(4096 * q + 4 * unat i) div 4194304 = q div 1024"
    using div_mult2_eq[of "4096 * q + 4 * unat i" 4096 1024] q by simp
  show "phys_frame (a + 4 * ucast i) = phys_frame a"
    using q a by (simp add: word_unat_eq_iff unat_phys_frame u)
  have "(4096 * q + 4 * unat i) div 4 = 1024 * q + unat i" by simp
  then show "phys_slot (a + 4 * ucast i) = i"
    using i a by (simp add: word_unat_eq_iff unat_phys_slot u)
  have "4096 * q div 4194304 = q div 1024" using div_mult2_eq[of "4096 * q" 4096 1024] by simp
  then show "dir_index (a + 4 * ucast i) = dir_index a"
    using q4 a by (simp add: word_unat_eq_iff unat_dir_index u)
  show "tab_index (a + 4 * ucast i) = tab_index a"
    using q a by (simp add: word_unat_eq_iff unat_tab_index u)
qed

subsection \<open>Accessing a directory and its tables\<close>

definition dir_view :: "'a mm_scheme \<Rightarrow> 20 word \<Rightarrow> bool" where
  "dir_view s d \<longleftrightarrow>
     (if cr0_pg s
      then page_directory s = VMM_PAGEDIR \<and> phys_frame (cr3 s) = d \<and>
           entry_pr (pmem s d 1023) \<and> entry_frame (pmem s d 1023) = d
      else page_directory s = push_bit 12 (ucast d) \<and> page_directory s \<noteq> VMM_PAGEDIR)"

lemma access_unpaged:
  assumes "\<not> cr0_pg s"
  shows "load s va = Some (pmem s (phys_frame va) (phys_slot va))"
    and "store va v s = Some (poke (phys_frame va) (phys_slot va) v s)"
  using assms by (simp_all add: load_def store_def mmu_translate_def)

lemma access_paged:
  assumes "cr0_pg s" "phys_frame (cr3 s) = d" "entry_pr (pmem s d (dir_index va))"
    and "entry_pr (pmem s (entry_frame (pmem s d (dir_index va))) (tab_index va))"
  defines "f \<equiv> entry_frame (pmem s (entry_frame (pmem s d (dir_index va))) (tab_index va))"
  shows "load s va = Some (pmem s f (phys_slot va))"
    and "store va v s = Some (poke f (phys_slot va) v s)"
  using assms by (simp_all add: load_def store_def mmu_translate_def Let_def phys_split f_def)

lemma phys_frame_of_frame: "phys_frame (push_bit 12 (ucast f)) = f"
  by (auto intro!: bit_word_eqI simp: phys_frame_def bit_simps)

lemma unat_frame_address: "unat (push_bit 12 (ucast (f :: 20 word)) :: u32) = 4096 * unat f"
proof -
  have "push_bit 12 (ucast f) = (ucast f * 4096 :: u32)" by (simp add: push_bit_eq_mult)
  then show ?thesis using unat_bound[of f] by (simp add: unat_mult_small unat_ucast_frame)
qed

lemma word10_max: "unat (1023 :: 10 word) = 1023" by simp

lemma PAGEDIR_index:
  "unat VMM_PAGEDIR mod 4096 = 0" "dir_index VMM_PAGEDIR = 1023" "tab_index VMM_PAGEDIR = 1023"
  by (simp_all add: word_unat_eq_iff unat_dir_index unat_tab_index VMM_PAGEDIR_def)

lemma dir_entry_access:
  assumes "dir_view s d"
  shows "load s (dir_entry_ptr s (ucast i)) = Some (pmem s d i)"
    and "store (dir_entry_ptr s (ucast i)) v s = Some (poke d i v s)"
proof -
  have "load s (dir_entry_ptr s (ucast i)) = Some (pmem s d i) \<and>
        store (dir_entry_ptr s (ucast i)) v s = Some (poke d i v s)"
  proof (cases "cr0_pg s")
    case True
    with assms have p: "page_directory s = VMM_PAGEDIR" and d: "phys_frame (cr3 s) = d"
      "entry_pr (pmem s d 1023)" "entry_frame (pmem s d 1023) = d" by (simp_all add: dir_view_def)
    note ix = page_dword[OF PAGEDIR_index(1), of i, unfolded PAGEDIR_index(2,3)]
    show ?thesis
      unfolding dir_entry_ptr_def p
      using access_paged[OF True d(1), of "VMM_PAGEDIR + 4 * ucast i"] d(2,3)
      by (simp add: ix)
  next
    case False
    with assms have p: "page_directory s = push_bit 12 (ucast d)" by (simp add: dir_view_def)
    have al: "unat (push_bit 12 (ucast d) :: u32) mod 4096 = 0" by (simp add: unat_frame_address)
    show ?thesis
      unfolding dir_entry_ptr_def p
      using access_unpaged[OF False] by (simp add: page_dword[OF al] phys_frame_of_frame)
  qed
  then show "load s (dir_entry_ptr s (ucast i)) = Some (pmem s d i)"
    and "store (dir_entry_ptr s (ucast i)) v s = Some (poke d i v s)" by simp_all
qed

text \<open>The pointer to the page table of an address, and what it reaches.\<close>

definition table_ptr :: "'a mm_scheme \<Rightarrow> 20 word \<Rightarrow> ptr \<Rightarrow> ptr" where
  "table_ptr s d va =
     (if cr0_pg s then VMM_PAGETAB (va_page_table va)
      else pmm_get_address (entry_page (pmem s d (dir_index va))) 0)"

lemma get_page_table:
  assumes "dir_view s d"
  shows "vmm_get_page_table s (dir_entry_ptr s (va_page_table va)) va = Some (table_ptr s d va)"
  using assms dir_entry_access(1)[OF assms, of "dir_index va"]
  by (auto simp: vmm_get_page_table_def table_ptr_def dir_view_def va_page_table_eq split: if_splits)

lemma PAGETAB_index:
  "unat (VMM_PAGETAB (ucast i)) mod 4096 = 0"
  "dir_index (VMM_PAGETAB (ucast i)) = 1023" "tab_index (VMM_PAGETAB (ucast i)) = (i :: 10 word)"
proof -
  have i: "unat i < 1024" using unat_bound[of i] by simp
  then have m: "unat (ucast i * 4096 :: u32) = unat i * 4096"
    by (simp add: unat_mult_small unat_ucast_slot)
  have u: "unat (VMM_PAGETAB (ucast i)) = 4290772992 + unat i * 4096"
    using i m by (simp add: unat_add_small VMM_PAGETAB_def)
  have q: "(4290772992 + unat i * 4096) div 4096 = 1047552 + unat i" by simp
  have "(4290772992 + unat i * 4096) div 4194304 = 1023"
    using i by (intro div_nat_eqI) auto
  moreover have "(1047552 + unat i) mod 1024 = unat i"
    using i mod_mult_self3[of 1023 1024 "unat i"] by simp
  moreover have "(4290772992 + unat i * 4096) mod 4096 = 0" by simp
  ultimately show "unat (VMM_PAGETAB (ucast i)) mod 4096 = 0"
    "dir_index (VMM_PAGETAB (ucast i)) = 1023" "tab_index (VMM_PAGETAB (ucast i)) = i"
    using q by (simp_all only: u word_unat_eq_iff unat_dir_index unat_tab_index word10_max)
qed

lemma entry_address_frame:
  "unat (pmm_get_address (entry_page e) 0) mod 4096 = 0"
  "phys_frame (pmm_get_address (entry_page e) 0) = entry_frame e"
proof -
  have "pmm_get_address (entry_page e) 0 = push_bit 12 (ucast (entry_frame e))"
    by (auto intro!: bit_word_eqI simp: pmm_get_address_def entry_page_def entry_frame_def bit_simps)
  then show "unat (pmm_get_address (entry_page e) 0) mod 4096 = 0"
    "phys_frame (pmm_get_address (entry_page e) 0) = entry_frame e"
    by (simp_all add: unat_frame_address phys_frame_of_frame)
qed

lemma table_access:
  assumes "dir_view s d" "entry_pr (pmem s d (dir_index va))"
  defines "f \<equiv> entry_frame (pmem s d (dir_index va))"
  shows "load s (table_ptr s d va + 4 * ucast j) = Some (pmem s f j)"
    and "store (table_ptr s d va + 4 * ucast j) v s = Some (poke f j v s)"
proof -
  have "load s (table_ptr s d va + 4 * ucast j) = Some (pmem s f j) \<and>
        store (table_ptr s d va + 4 * ucast j) v s = Some (poke f j v s)"
  proof (cases "cr0_pg s")
    case True
    with assms have d: "phys_frame (cr3 s) = d" "entry_pr (pmem s d 1023)"
      "entry_frame (pmem s d 1023) = d" by (simp_all add: dir_view_def)
    have t: "table_ptr s d va = VMM_PAGETAB (ucast (dir_index va))"
      using True by (simp add: table_ptr_def va_page_table_eq)
    note ix = page_dword[OF PAGETAB_index(1)[of "dir_index va"], of j, unfolded PAGETAB_index(2,3)]
    show ?thesis
      unfolding t
      using access_paged[OF True d(1), of "VMM_PAGETAB (ucast (dir_index va)) + 4 * ucast j"]
        d(2,3) assms(2) f_def
      by (simp add: ix)
  next
    case False
    then show ?thesis
      using access_unpaged[OF False]
      by (simp add: table_ptr_def page_dword[OF entry_address_frame(1)] entry_address_frame(2) f_def)
  qed
  then show "load s (table_ptr s d va + 4 * ucast j) = Some (pmem s f j)"
    and "store (table_ptr s d va + 4 * ucast j) v s = Some (poke f j v s)" by simp_all
qed

subsection \<open>The frame allocator inside the machine state\<close>

lemma pmm_use_more [simp]: "pmm.more (pmm_use p len flags s) = pmm.more s"
proof -
  have "pmm.more (fold (\<lambda>i. pmm_bitmap_set (of_nat i) v) is s) = pmm.more s" for v "is"
    by (induction "is" arbitrary: s) (simp_all add: pmm_bitmap_set_def Let_def)
  then show ?thesis by (simp add: pmm_use_def Let_def del: upt_Suc)
qed

lemma bitmap_fold_cong:
  "bitmap s = bitmap t \<Longrightarrow>
   bitmap (fold (\<lambda>i. pmm_bitmap_set (of_nat i) v) is s) =
   bitmap (fold (\<lambda>i. pmm_bitmap_set (of_nat i) v) is t)"
  by (induction "is" arbitrary: s t) (simp_all add: pmm_bitmap_set_def Let_def)

lemma highest_fold [simp]:
  "highest_kernel_page (fold (\<lambda>i. pmm_bitmap_set (of_nat i) v) is s) = highest_kernel_page s"
  by (induction "is" arbitrary: s) (simp_all add: pmm_bitmap_set_def Let_def)

lemma pmm_use_base_cong:
  assumes "bitmap s = bitmap t" "highest_kernel_page s = highest_kernel_page t"
  shows "bitmap (pmm_use p len flags s) = bitmap (pmm_use p len flags t)"
    and "highest_kernel_page (pmm_use p len flags s) = highest_kernel_page (pmm_use p len flags t)"
  using assms(2) bitmap_fold_cong[OF assms(1)]
  by (simp_all add: pmm_use_def Let_def assms(1) del: upt_Suc)

lemma pmm_use_fields [simp]:
  "pmem (pmm_use p len flags s) = pmem s" "cr3 (pmm_use p len flags s) = cr3 s"
  "cr0_pg (pmm_use p len flags s) = cr0_pg s" "eflags_if (pmm_use p len flags s) = eflags_if s"
  "tlb_log (pmm_use p len flags s) = tlb_log s"
  "page_directory (pmm_use p len flags s) = page_directory s"
  "old_directory (pmm_use p len flags s) = old_directory s"
  "old_interrupts (pmm_use p len flags s) = old_interrupts s"
  "domain_check_enabled (pmm_use p len flags s) = domain_check_enabled s"
  "mm.more (pmm_use p len flags s) = mm.more s"
  using pmm_use_more[of p len flags s]
  by (cases s; cases "pmm_use p len flags s"; simp)+

lemma pmm_use_pmem: "pmm_use p len flags (s\<lparr>pmem := m\<rparr>) = (pmm_use p len flags s)\<lparr>pmem := m\<rparr>"
  using pmm_use_base_cong[of "s\<lparr>pmem := m\<rparr>" s p len flags]
  by (intro mm.equality) simp_all

lemma pmm_bitmap_get_pmem [simp]: "pmm_bitmap_get (s\<lparr>pmem := m\<rparr>) i = pmm_bitmap_get s i"
  by (simp add: pmm_bitmap_get_def)

lemma pmm_find_loop_cong:
  assumes "bitmap s = bitmap t"
  shows "pmm_find_loop s pages i f = pmm_find_loop t pages i f"
  using assms
proof (induction s pages i f rule: pmm_find_loop.induct)
  case (1 s pages i f)
  have "pmm_bitmap_get s j = pmm_bitmap_get t j" for j using "1.prems" by (simp add: pmm_bitmap_get_def)
  with 1 show ?case
    by (simp add: pmm_find_loop.simps[of s pages i f] pmm_find_loop.simps[of t pages i f] Let_def)
qed

lemma pmm_alloc_pmem:
  "pmm_alloc len flags (s\<lparr>pmem := m\<rparr>) =
   (fst (pmm_alloc len flags s), (snd (pmm_alloc len flags s))\<lparr>pmem := m\<rparr>)"
  using pmm_find_loop_cong[of "s\<lparr>pmem := m\<rparr>" s]
  by (simp add: pmm_alloc_def pmm_find_free_def Let_def pmm_use_pmem)

lemma pmm_alloc_fields [simp]:
  "pmem (snd (pmm_alloc len flags s)) = pmem s" "cr3 (snd (pmm_alloc len flags s)) = cr3 s"
  "cr0_pg (snd (pmm_alloc len flags s)) = cr0_pg s"
  "eflags_if (snd (pmm_alloc len flags s)) = eflags_if s"
  "tlb_log (snd (pmm_alloc len flags s)) = tlb_log s"
  "page_directory (snd (pmm_alloc len flags s)) = page_directory s"
  "old_directory (snd (pmm_alloc len flags s)) = old_directory s"
  "old_interrupts (snd (pmm_alloc len flags s)) = old_interrupts s"
  "domain_check_enabled (snd (pmm_alloc len flags s)) = domain_check_enabled s"
  by (simp_all add: pmm_alloc_def Let_def)

text \<open>One page: what a successful allocation changes.\<close>

definition frame_used :: "'a pmm_scheme \<Rightarrow> 20 word \<Rightarrow> bool" where
  "frame_used s f \<longleftrightarrow> frame_state s (ucast f) \<noteq> PMM_UNUSED"

lemma ucast_phys_frame: "ucast (phys_frame p) = pmm_get_page p 0"
  by (simp add: word_unat_eq_iff unat_ucast_frame unat_phys_frame unat_get_page)

lemma pmm_alloc_page:
  assumes "pmm_alloc PAGE_SIZE flags s = (p, s')" "p \<noteq> 0" "flags \<noteq> PMM_UNUSED"
  shows "\<not> frame_used s (phys_frame p)"
    and "frame_used s' g \<longleftrightarrow> frame_used s g \<or> g = phys_frame p"
    and "unat p mod 4096 = 0"
    and "frame_state s' x = (if x = ucast (phys_frame p) then flags else frame_state s x) \<or> \<not> x < 1048576"
proof -
  have len: "PAGE_SIZE \<noteq> 0" by simp
  have n: "unat (pmm_pages PAGE_SIZE) = 1" by (simp add: unat_pmm_pages)
  obtain q where run: "free_run s q 1" and p: "p = pmm_get_address (of_nat q) 0"
    and s': "s' = pmm_use p PAGE_SIZE flags s"
    using pmm_alloc_success[OF assms(1,2)] unfolding n by metis
  from run have q: "q < 1048576" "frame_state s (of_nat q) = PMM_UNUSED" by (auto simp: free_run_def)
  have uq: "unat (of_nat q :: u32) = q" using q by (simp add: unat_of_nat_small)
  then have qw: "(of_nat q :: u32) < 1048576" using q by (simp add: word_less_nat_alt)
  have pf: "ucast (phys_frame p) = (of_nat q :: u32)"
    unfolding ucast_phys_frame p using qw by simp
  show "\<not> frame_used s (phys_frame p)" using q(2) by (simp add: frame_used_def pf)
  have fs: "frame_state s' x = (if x = of_nat q then flags else frame_state s x)"
    if "x < 1048576" for x
    unfolding s' p using frame_state_use_run[OF len, of q x flags s] that q(1) n uq
    by (auto simp: word_unat_eq_iff simp del: PAGE_SIZE_def)
  then show "frame_state s' x = (if x = ucast (phys_frame p) then flags else frame_state s x) \<or> \<not> x < 1048576"
    using pf by auto
  have "ucast g = (ucast (phys_frame p) :: u32) \<longleftrightarrow> g = phys_frame p"
    by (auto simp: word_unat_eq_iff unat_ucast_frame)
  then show "frame_used s' g \<longleftrightarrow> frame_used s g \<or> g = phys_frame p"
    using fs[OF ucast_page_less, of g] assms(3) pf by (auto simp: frame_used_def)
  show "unat p mod 4096 = 0" unfolding p using unat_get_address[OF qw, of 0] by simp
qed

subsection \<open>Filling a page\<close>

lemma poke_fields [simp]:
  "pmem (poke f i v s) = (pmem s)(f := (pmem s f)(i := v))" "cr3 (poke f i v s) = cr3 s"
  "cr0_pg (poke f i v s) = cr0_pg s" "page_directory (poke f i v s) = page_directory s"
  "eflags_if (poke f i v s) = eflags_if s" "old_directory (poke f i v s) = old_directory s"
  "old_interrupts (poke f i v s) = old_interrupts s" "tlb_log (poke f i v s) = tlb_log s"
  "domain_check_enabled (poke f i v s) = domain_check_enabled s"
  "frame_used (poke f i v s) = frame_used s" "frame_state (poke f i v s) = frame_state s"
  "bitmap (poke f i v s) = bitmap s"
  by (simp_all add: poke_def frame_used_def frame_state_def fun_eq_iff)

text \<open>A pointer that writes to frame \<open>f\<close> in every state of a class closed under such writes.\<close>

lemma memset_window:
  assumes "\<And>j s v. Q s \<Longrightarrow> store (a + 4 * ucast (j :: 10 word)) v s = Some (poke f j v s)"
    and "\<And>j s v. Q s \<Longrightarrow> Q (poke f j v s)"
    and "Q s" and "k + n \<le> 1024"
  shows "memset_dwords n (a + 4 * of_nat k) v s =
    Some (s\<lparr>pmem := (pmem s)(f := \<lambda>j. if k \<le> unat j \<and> unat j < k + n then v else pmem s f j)\<rparr>)"
  using assms(3,4)
proof (induction n arbitrary: k s)
  case 0
  have "(\<lambda>j. if k \<le> unat j \<and> unat j < k then v else pmem s f j) = pmem s f" by (rule ext) auto
  then show ?case by simp
next
  case (Suc n)
  have k: "k < 1024" using Suc.prems(2) by simp
  then have uk: "unat (of_nat k :: 10 word) = k" by (simp add: unat_of_nat_small)
  then have ck: "(ucast (of_nat k :: 10 word) :: u32) = of_nat k"
    using k by (simp add: word_unat_eq_iff unat_ucast_slot unat_of_nat_small)
  let ?s = "poke f (of_nat k) v s"
  have st: "store (a + 4 * of_nat k) v s = Some ?s"
    using assms(1)[OF Suc.prems(1), of "of_nat k"] ck by simp
  have eq: "a + 4 * of_nat k + 4 = a + 4 * of_nat (Suc k)" by (simp add: algebra_simps)
  have "memset_dwords n (a + 4 * of_nat (Suc k)) v ?s =
    Some (?s\<lparr>pmem := (pmem ?s)(f := \<lambda>j. if Suc k \<le> unat j \<and> unat j < Suc k + n then v else pmem ?s f j)\<rparr>)"
    using Suc.prems by (intro Suc.IH assms(2)) simp_all
  also have "\<dots> = Some (s\<lparr>pmem := (pmem s)(f := \<lambda>j. if k \<le> unat j \<and> unat j < k + Suc n then v else pmem s f j)\<rparr>)"
  proof -
    have "(\<lambda>j. if Suc k \<le> unat j \<and> unat j < Suc k + n then v else pmem ?s f j) =
          (\<lambda>j. if k \<le> unat j \<and> unat j < k + Suc n then v else pmem s f j)"
      using uk by (intro ext) (auto simp: word_unat_eq_iff[of _ "of_nat k"])
    then show ?thesis by (simp only: poke_fields(1)) (simp add: poke_def)
  qed
  finally show ?case by (simp only: memset_dwords.simps st Option.bind.simps eq)
qed

lemma memset_page_window:
  assumes "\<And>j s v. Q s \<Longrightarrow> store (a + 4 * ucast (j :: 10 word)) v s = Some (poke f j v s)"
    and "\<And>j s v. Q s \<Longrightarrow> Q (poke f j v s)" and "Q s"
  shows "memset_dwords ENTRIES a v s = Some (s\<lparr>pmem := (pmem s)(f := \<lambda>_. v)\<rparr>)"
proof -
  have "unat (j :: 10 word) < 1024" for j using unat_bound[of j] by simp
  then show ?thesis using memset_window[OF assms, of 0 1024 v] by (simp add: ENTRIES_def)
qed

subsection \<open>The invariant and the page map of a directory\<close>

definition vmm_ok :: "'a mm_scheme \<Rightarrow> 20 word \<Rightarrow> bool" where
  "vmm_ok s d \<longleftrightarrow> dir_view s d \<and> frame_used s d \<and> frame_used s 0 \<and>
     (\<forall>i. i \<noteq> 1023 \<longrightarrow> entry_pr (pmem s d i) \<longrightarrow>
        entry_frame (pmem s d i) \<noteq> d \<and> entry_frame (pmem s d i) \<noteq> 0 \<and>
        frame_used s (entry_frame (pmem s d i))) \<and>
     (\<forall>i j. i \<noteq> 1023 \<longrightarrow> j \<noteq> 1023 \<longrightarrow> i \<noteq> j \<longrightarrow> entry_pr (pmem s d i) \<longrightarrow> entry_pr (pmem s d j) \<longrightarrow>
        entry_frame (pmem s d i) \<noteq> entry_frame (pmem s d j))"

definition lookup :: "'a mm_scheme \<Rightarrow> 20 word \<Rightarrow> 10 word \<Rightarrow> 10 word \<Rightarrow> u32 option" where
  "lookup s d i j =
     (let pde = pmem s d i in
      if \<not> entry_pr pde then None
      else let pte = pmem s (entry_frame pde) j in if entry_pr pte then Some pte else None)"

lemma entry_pr_set_page [simp]: "entry_pr (set_page p e) = entry_pr e"
  by (simp add: entry_pr_def set_page_def bit_simps)

lemma entry_pr_set_flag [simp]:
  "entry_pr (set_flag n b e) = (if n = 0 then b else entry_pr e)"
  by (simp add: entry_pr_def set_flag_def bit_or_pow2 bit_and_not_pow2)

lemma entry_frame_set_page: "entry_frame (set_page (pmm_get_page p 0) e) = phys_frame p"
proof -
  have "ucast (drop_bit 12 ((e AND 0xFFF) OR push_bit 12 (pmm_get_page p 0))) = phys_frame p"
    unfolding and_mask_12
    by (auto intro!: bit_word_eqI simp: pmm_get_page_def phys_frame_def bit_simps)
  then show ?thesis by (simp add: entry_frame_def set_page_def)
qed

lemma entry_bits_set_page:
  "n < 12 \<Longrightarrow> bit (set_page p e) n = bit e n"
  unfolding set_page_def and_mask_12 by (auto simp: bit_simps)

lemma new_table_entry:
  "entry_pr (new_table_entry p flags e)"
  "entry_frame (new_table_entry p flags e) = phys_frame p"
  "entry_rw (new_table_entry p flags e) \<longleftrightarrow> flags AND VMM_WRITABLE \<noteq> 0"
  "entry_user (new_table_entry p flags e) \<longleftrightarrow> flags AND VMM_USER \<noteq> 0"
  unfolding new_table_entry_def entry_rw_def entry_user_def entry_pr_def
  by (simp_all add: entry_frame_set_page entry_bits_set_page set_flag_def bit_or_pow2 bit_and_not_pow2
      del: VMM_WRITABLE_def VMM_USER_def)

lemma vmm_okD:
  assumes "vmm_ok s d"
  shows "dir_view s d" "frame_used s d" "frame_used s 0"
    and "i \<noteq> 1023 \<Longrightarrow> entry_pr (pmem s d i) \<Longrightarrow> entry_frame (pmem s d i) \<noteq> d"
    and "i \<noteq> 1023 \<Longrightarrow> entry_pr (pmem s d i) \<Longrightarrow> frame_used s (entry_frame (pmem s d i))"
    and "i \<noteq> 1023 \<Longrightarrow> j \<noteq> 1023 \<Longrightarrow> entry_pr (pmem s d i) \<Longrightarrow> entry_pr (pmem s d j) \<Longrightarrow>
         entry_frame (pmem s d i) = entry_frame (pmem s d j) \<longleftrightarrow> i = j"
    and "i \<noteq> 1023 \<Longrightarrow> entry_pr (pmem s d i) \<Longrightarrow> entry_frame (pmem s d i) \<noteq> 0"
  using assms unfolding vmm_ok_def by blast+

lemma dir_view_cong:
  assumes "dir_view s d" "pmem t d 1023 = pmem s d 1023" "cr3 t = cr3 s" "cr0_pg t = cr0_pg s"
    "page_directory t = page_directory s"
  shows "dir_view t d"
  using assms by (auto simp: dir_view_def split: if_splits)

lemma dir_view_poke:
  "dir_view s d \<Longrightarrow> f \<noteq> d \<or> i \<noteq> 1023 \<Longrightarrow> dir_view (poke f i v s) d"
  by (erule dir_view_cong) auto

lemma vmm_ok_poke_table:
  assumes "vmm_ok s d" "f \<noteq> d"
  shows "vmm_ok (poke f j v s) d"
  using assms dir_view_poke[of s d f j v] unfolding vmm_ok_def by simp

lemma lookup_poke_table:
  assumes "vmm_ok s d" "i \<noteq> 1023" "entry_pr (pmem s d i)" "f = entry_frame (pmem s d i)" "i' \<noteq> 1023"
  shows "lookup (poke f j v s) d i' j' =
    (if i' = i \<and> j' = j then if entry_pr v then Some v else None else lookup s d i' j')"
proof -
  have fd: "f \<noteq> d" using vmm_okD(4)[OF assms(1-3)] assms(4) by simp
  have "entry_pr (pmem s d i') \<Longrightarrow> entry_frame (pmem s d i') = f \<longleftrightarrow> i' = i"
    using vmm_okD(6)[OF assms(1,5,2) _ assms(3)] assms(4) by simp
  then show ?thesis using fd assms(3,4) by (cases "i' = i") (simp_all add: lookup_def Let_def)
qed

lemma lookup_absent: "\<not> entry_pr (pmem s d i) \<Longrightarrow> lookup s d i j = None"
  by (simp add: lookup_def)

lemma lookup_present:
  "entry_pr (pmem s d i) \<Longrightarrow>
   lookup s d i j = (if entry_pr (pmem s (entry_frame (pmem s d i)) j)
                     then Some (pmem s (entry_frame (pmem s d i)) j) else None)"
  by (simp add: lookup_def)

text \<open>Creating the page table of an address that has none.\<close>

lemma new_page_table:
  assumes ok: "vmm_ok s d" and i: "dir_index va \<noteq> 1023" and absent: "\<not> entry_pr (pmem s d (dir_index va))"
    and alloc: "pmm_alloc PAGE_SIZE PMM_KERNEL s = (p, s1)" and fd: "phys_frame p \<noteq> d"
  obtains e where "entry_pr e" "entry_frame e = phys_frame p"
    and "vmm_new_page_table (dir_entry_ptr s (va_page_table va)) va s =
      Some (s1\<lparr>pmem := (pmem s)(d := (pmem s d)(dir_index va := e), phys_frame p := \<lambda>_. 0)\<rparr>)"
proof -
  let ?i = "dir_index va" and ?f = "phys_frame p" and ?de = "dir_entry_ptr s (va_page_table va)"
  note okD = vmm_okD[OF ok]
  define e1 where "e1 = set_flag 0 True (set_flag 1 True (set_flag 2 True (pmem s d ?i)))"
  define e where "e = set_page (pmm_get_page p 0) e1"
  have pr: "entry_pr e1" "entry_pr e" by (simp_all add: e_def e1_def)
  have fr: "entry_frame e = ?f" by (simp add: e_def entry_frame_set_page)
  have s1: "snd (pmm_alloc PAGE_SIZE PMM_KERNEL s) = s1" "fst (pmm_alloc PAGE_SIZE PMM_KERNEL s) = p"
    using alloc by simp_all
  have pm1: "pmem s1 = pmem s" by (rule pmm_alloc_fields(1)[of PAGE_SIZE PMM_KERNEL s, unfolded s1])
  let ?a = "poke d ?i e1 s"
  have dva: "dir_view ?a d" using okD(1) i by (simp add: dir_view_poke)
  let ?b = "s1\<lparr>pmem := pmem ?a\<rparr>"
  have al: "pmm_alloc PAGE_SIZE PMM_KERNEL ?a = (p, ?b)"
    using pmm_alloc_pmem[of PAGE_SIZE PMM_KERNEL "pmem ?a" s] s1 by (simp add: poke_def)
  have fields: "cr3 s1 = cr3 s" "cr0_pg s1 = cr0_pg s" "page_directory s1 = page_directory s"
    by (rule pmm_alloc_fields(2,3,6)[of PAGE_SIZE PMM_KERNEL s, unfolded s1])+
  have dvb: "dir_view ?b d" using dva by (rule dir_view_cong) (simp_all add: fields)
  have ptr: "?de = dir_entry_ptr ?a (ucast ?i)" "?de = dir_entry_ptr ?b (ucast ?i)"
    by (simp_all add: dir_entry_ptr_def va_page_table_eq fields)
  let ?c = "poke d ?i e ?b"
  have dvc: "dir_view ?c d" using dvb i by (simp add: dir_view_poke)
  have ptrc: "?de = dir_entry_ptr ?c (va_page_table va)"
    by (simp add: dir_entry_ptr_def fields)
  have entc: "entry_pr (pmem ?c d ?i)" "entry_frame (pmem ?c d ?i) = ?f" using pr fr by simp_all
  let ?Q = "\<lambda>t. dir_view t d \<and> pmem t d = pmem ?c d \<and> cr0_pg t = cr0_pg ?c \<and> page_directory t = page_directory ?c"
  let ?tab = "table_ptr ?c d va"
  have same_tab: "?Q t \<Longrightarrow> table_ptr t d va = ?tab" for t by (simp add: table_ptr_def)
  have mem: "memset_dwords ENTRIES ?tab 0 ?c = Some (?c\<lparr>pmem := (pmem ?c)(?f := \<lambda>_. 0)\<rparr>)"
  proof (rule memset_page_window[where Q = ?Q])
    fix j and t :: "'a mm_scheme" and v assume Q: "?Q t"
    then have "entry_pr (pmem t d ?i)" "entry_frame (pmem t d ?i) = ?f" using entc by simp_all
    with Q show "store (?tab + 4 * ucast j) v t = Some (poke ?f j v t)"
      using table_access(2)[of t d va j v] same_tab[of t] by simp
    show "?Q (poke ?f j v t)" using Q fd by (simp add: dir_view_poke)
  qed (use dvc in simp)
  have start: "load s ?de = Some (pmem s d ?i)" "store ?de e1 s = Some ?a"
    using dir_entry_access[OF okD(1), of ?i] by (simp_all add: va_page_table_eq)
  have mid: "load ?b ?de = Some e1" "store ?de e ?b = Some ?c"
    using dir_entry_access[OF dvb, of ?i] ptr by simp_all
  have tab: "vmm_get_page_table ?c ?de va = Some ?tab"
    using get_page_table[OF dvc, of va] ptrc by simp
  have "vmm_new_page_table ?de va s = Some (?c\<lparr>pmem := (pmem ?c)(?f := \<lambda>_. 0)\<rparr>)"
    by (simp only: vmm_new_page_table_def start Option.bind.simps Let_def e1_def[symmetric] al
        prod.case mid e_def[symmetric] tab mem)
  also have "?c\<lparr>pmem := (pmem ?c)(?f := \<lambda>_. 0)\<rparr> =
      s1\<lparr>pmem := (pmem s)(d := (pmem s d)(?i := e), ?f := \<lambda>_. 0)\<rparr>"
    by (simp add: poke_def)
  finally show ?thesis using that pr(2) fr by blast
qed

subsection \<open>Mapping a page\<close>

definition ctrl :: "'a mm_scheme \<Rightarrow> ptr \<times> bool \<times> ptr \<times> bool \<times> ptr \<times> bool \<times> bool" where
  "ctrl s = (cr3 s, cr0_pg s, page_directory s, eflags_if s, old_directory s, old_interrupts s,
     domain_check_enabled s)"

definition is_table :: "'a mm_scheme \<Rightarrow> 20 word \<Rightarrow> 20 word \<Rightarrow> bool" where
  "is_table s d g \<longleftrightarrow> (\<exists>k. k \<noteq> 1023 \<and> entry_pr (pmem s d k) \<and> entry_frame (pmem s d k) = g)"

text \<open>
  \<open>extends s d t\<close>: \<open>t\<close> is \<open>s\<close> with more page frames in use and more tables below directory
  \<open>d\<close>; every frame that was in use and is neither the directory nor a table keeps its content.
\<close>

definition extends :: "'a mm_scheme \<Rightarrow> 20 word \<Rightarrow> 'a mm_scheme \<Rightarrow> bool" where
  "extends s d t \<longleftrightarrow> vmm_ok t d \<and> ctrl t = ctrl s \<and>
     (\<forall>g. frame_used s g \<longrightarrow> frame_used t g) \<and>
     (\<forall>g. is_table t d g \<longrightarrow> is_table s d g \<or> \<not> frame_used s g) \<and>
     (\<forall>g. frame_used s g \<longrightarrow> g \<noteq> d \<longrightarrow> \<not> is_table s d g \<longrightarrow> pmem t g = pmem s g)"

lemma extends_refl: "vmm_ok s d \<Longrightarrow> extends s d s"
  by (simp add: extends_def)

lemma extends_trans: "extends s d t \<Longrightarrow> extends t d u \<Longrightarrow> extends s d u"
  unfolding extends_def by (metis (no_types, lifting))

lemma extendsD:
  assumes "extends s d t"
  shows "vmm_ok t d" "ctrl t = ctrl s" "frame_used s g \<Longrightarrow> frame_used t g"
    "cr0_pg t = cr0_pg s" "page_directory t = page_directory s" "eflags_if t = eflags_if s"
    "old_directory t = old_directory s" "domain_check_enabled t = domain_check_enabled s"
    "cr3 t = cr3 s" "old_interrupts t = old_interrupts s"
    "frame_used s g \<Longrightarrow> g \<noteq> d \<Longrightarrow> \<not> is_table s d g \<Longrightarrow> pmem t g = pmem s g"
  using assms by (simp_all add: extends_def ctrl_def)

lemma extends_poke_table:
  assumes "vmm_ok s d" "is_table s d f"
  shows "extends s d (poke f j v s)"
proof -
  have fd: "f \<noteq> d" using assms by (auto simp: is_table_def vmm_ok_def)
  then show ?thesis
    using vmm_ok_poke_table[OF assms(1) fd] assms(2) by (auto simp: extends_def ctrl_def is_table_def)
qed

lemma frame_used_flush [simp]: "frame_used (s\<lparr>tlb_log := l\<rparr>) g = frame_used s g"
  by (simp add: frame_used_def frame_state_def pmm_bitmap_get_def)

lemma vmm_ok_flush: "vmm_ok s d \<Longrightarrow> vmm_ok (s\<lparr>tlb_log := l\<rparr>) d"
  using dir_view_cong[of s d "s\<lparr>tlb_log := l\<rparr>"] by (simp add: vmm_ok_def)

lemma extends_flush: "vmm_ok s d \<Longrightarrow> extends s d (s\<lparr>tlb_log := l\<rparr>)"
  using vmm_ok_flush[of s d l] by (simp add: extends_def ctrl_def is_table_def)

lemma new_table_state:
  assumes ok: "vmm_ok s d" and i: "i \<noteq> 1023" and absent: "\<not> entry_pr (pmem s d i)"
    and alloc: "pmm_alloc PAGE_SIZE PMM_KERNEL s = (p, s1)" and p: "p \<noteq> 0"
    and e: "entry_pr e" "entry_frame e = phys_frame p"
  defines "t \<equiv> s1\<lparr>pmem := (pmem s)(d := (pmem s d)(i := e), phys_frame p := \<lambda>_. 0)\<rparr>"
  shows "extends s d t" and "entry_pr (pmem t d i)"
    and "i' \<noteq> 1023 \<Longrightarrow> lookup t d i' j = lookup s d i' j"
proof -
  let ?f = "phys_frame p"
  note okD = vmm_okD[OF ok]
  have fresh: "\<not> frame_used s ?f" and used: "\<And>g. frame_used s1 g \<longleftrightarrow> frame_used s g \<or> g = ?f"
    using pmm_alloc_page[OF alloc p] by simp_all
  have fd: "?f \<noteq> d" "?f \<noteq> 0" using fresh okD(2,3) by auto
  have ut: "frame_used t g \<longleftrightarrow> frame_used s g \<or> g = ?f" for g
    using used[of g] by (simp add: t_def frame_used_def frame_state_def)
  have pd: "pmem t d = (pmem s d)(i := e)" and pf: "pmem t ?f = (\<lambda>_. 0)"
    and po: "g \<noteq> d \<Longrightarrow> g \<noteq> ?f \<Longrightarrow> pmem t g = pmem s g" for g
    using fd(1) by (simp_all add: t_def)
  have ctrl: "ctrl t = ctrl s"
    using pmm_alloc_fields[of PAGE_SIZE PMM_KERNEL s] unfolding alloc snd_conv
    by (simp add: t_def ctrl_def)
  have dv: "dir_view t d"
    using okD(1) by (rule dir_view_cong) (use ctrl i pd in \<open>simp_all add: ctrl_def\<close>)
  have old: "k \<noteq> 1023 \<Longrightarrow> entry_pr (pmem s d k) \<Longrightarrow> entry_frame (pmem s d k) \<noteq> ?f" for k
    using okD(5)[of k] fresh by auto
  have "vmm_ok t d"
    unfolding vmm_ok_def ut pd using dv okD old old[symmetric] fd fd(1)[symmetric] e by auto
  then show "extends s d t"
    using ctrl ut pd po fresh e unfolding extends_def is_table_def
    by (auto split: if_splits)
  show "entry_pr (pmem t d i)" using pd e by simp
  show "lookup t d i' j = lookup s d i' j" if "i' \<noteq> 1023"
  proof (cases "i' = i")
    case True
    then show ?thesis using absent pd pf e by (simp add: lookup_def Let_def entry_pr_def)
  next
    case False
    then show ?thesis using that pd po okD(4)[of i'] old[of i'] by (simp add: lookup_def Let_def)
  qed
qed

subsection \<open>A concrete address space\<close>

text \<open>
  Paging is on and the directory is frame 1; directory entry \<open>i\<close> points to frame \<open>i + 2\<close>. The only
  mapped pages are 5 and 1023 of the table of directory entry 1. Frames 1600 to 1615 are unused.
\<close>

definition example_mm :: mm where
  "example_mm = \<lparr>bitmap = (\<lambda>_. - 1)(100 := 0), highest_kernel_page = 0,
     pmem = (\<lambda>f i. if f = 1 then (if i = 1023 then 0x1003 else push_bit 12 (ucast i + 2) OR 3)
                    else if f = 3 \<and> (i = 5 \<or> i = 1023) then 0x700003 else 0),
     cr3 = 0x1000, cr0_pg = True, eflags_if = False, tlb_log = [], page_directory = VMM_PAGEDIR,
     old_directory = 0, old_interrupts = False, domain_check_enabled = False\<rparr>"

lemma example_table_entry:
  "entry_pr (push_bit 12 (ucast (i :: 10 word) + 2) OR 3)"
  "entry_frame (push_bit 12 (ucast (i :: 10 word) + 2) OR 3) = ucast i + 2"
proof -
  let ?x = "ucast i + 2 :: u32"
  show "entry_pr (push_bit 12 ?x OR 3)" by (simp add: entry_pr_def bit_simps)
  have i: "unat i < 1024" using unat_bound[of i] by simp
  have "\<not> bit (3 :: u32) (12 + n)" for n using bit_TYPE_MASK[of "12 + n"] by simp
  then have "entry_frame (push_bit 12 ?x OR 3) = ucast ?x"
    unfolding entry_frame_def by (intro bit_word_eqI) (simp add: bit_simps)
  also have "\<dots> = ucast i + 2"
  proof -
    have "unat ?x = unat i + 2" using i by (simp add: unat_add_small unat_ucast_slot)
    moreover have "unat (ucast i :: 20 word) = unat i" using i by (simp add: unsigned_ucast_eq take_bit_eq_mod)
    ultimately have "unat (ucast ?x :: 20 word) = unat (ucast i + 2 :: 20 word)"
      using i by (simp add: unat_add_small unsigned_ucast_eq take_bit_eq_mod)
    then show ?thesis by (simp only: word_unat_eq_iff)
  qed
  finally show "entry_frame (push_bit 12 ?x OR 3) = ucast i + 2" .
qed

lemma ucast_10_20_inject: "(ucast (i :: 10 word) + 2 :: 20 word) = ucast j + 2 \<longleftrightarrow> i = j"
proof -
  have "unat i < 1024" "unat j < 1024" using unat_bound[of i] unat_bound[of j] by simp_all
  then have "(ucast i :: 20 word) = ucast j \<longleftrightarrow> i = j"
    by (simp add: word_unat_eq_iff unsigned_ucast_eq take_bit_eq_mod)
  then show ?thesis by simp
qed

lemma example_frame_bounds: "(ucast (i :: 10 word) + 2 :: 20 word) \<noteq> 1" "(ucast i + 2 :: 20 word) \<noteq> 0"
  "unat (ucast i + 2 :: 20 word) < 1026"
proof -
  have i: "unat i < 1024" using unat_bound[of i] by simp
  then have "unat (ucast i :: 20 word) = unat i" by (simp add: unsigned_ucast_eq take_bit_eq_mod)
  then have u: "unat (ucast i + 2 :: 20 word) = unat i + 2" using i by (simp add: unat_add_small)
  show "unat (ucast i + 2 :: 20 word) < 1026" using u i by simp
  have "unat (1 :: 20 word) = 1" "unat (0 :: 20 word) = 0" by simp_all
  then show "(ucast i + 2 :: 20 word) \<noteq> 1" "(ucast i + 2 :: 20 word) \<noteq> 0" using u by force+
qed

lemma example_frame_used: "unat g < 1600 \<Longrightarrow> frame_used example_mm g"
proof -
  assume g: "unat g < 1600"
  have "bitmap example_mm (ucast g * 2 div 32) = - 1"
  proof -
    have "unat (ucast g * 2 :: u32) = unat g * 2" using g by (simp add: unat_mult_small unat_ucast_frame)
    then have "unat (ucast g * 2 div 32 :: u32) \<noteq> 100" using g by (simp add: unat_div)
    then have "(ucast g * 2 div 32 :: u32) \<noteq> 100" by force
    then show ?thesis by (simp add: example_mm_def)
  qed
  then have "bit (pmm_bitmap_get example_mm (ucast g)) 0 \<longleftrightarrow> bit (- 1 :: u32) (unat ((ucast g * 2 :: u32) mod 32))"
    using pmm_bitmap_get_bit[OF ucast_page_less, of example_mm g 0] by (simp add: bitmap_bit_def)
  then have "pmm_bitmap_get example_mm (ucast g) \<noteq> 0" using mod32_less[of "ucast g * 2"] by auto
  then show "frame_used example_mm g" by (simp add: frame_used_def pmm_bitmap_get_0_iff)
qed

lemma example_mm_ok: "vmm_ok example_mm 1"
proof -
  have pm: "pmem example_mm 1 i = (if i = 1023 then 0x1003 else push_bit 12 (ucast i + 2) OR 3)" for i
    by (simp add: example_mm_def)
  have "entry_pr 0x1003" "entry_frame 0x1003 = 1" by (simp_all add: entry_pr_def entry_frame_def)
  then have "dir_view example_mm 1"
    unfolding dir_view_def pm by (simp add: example_mm_def phys_frame_def)
  moreover have "frame_used example_mm (ucast (i :: 10 word) + 2)" for i
    using example_frame_used[of "ucast i + 2"] example_frame_bounds(3)[of i] by linarith
  moreover have "frame_used example_mm 1" "frame_used example_mm 0" by (simp_all add: example_frame_used)
  ultimately show ?thesis
    unfolding vmm_ok_def pm
    using example_frame_bounds(1,2) ucast_10_20_inject by (auto simp: example_table_entry)
qed

lemma example_mm_lookup:
  "lookup example_mm 1 1 j = (if j = 5 \<or> j = 1023 then Some 0x700003 else None)"
  "lookup example_mm 1 2 j = None"
  using example_table_entry[of 1] example_table_entry[of 2]
  by (auto simp: lookup_def Let_def example_mm_def entry_pr_def)

lemma example_va: "dir_index 0x405000 = 1" "tab_index 0x405000 = 5" "dir_index 0x800000 = 2" "tab_index 0x800000 = 0"
  by (simp_all add: dir_index_def tab_index_def)

text \<open>The same directory without any table, and with every frame in use.\<close>

definition full_mm :: mm where
  "full_mm = example_mm\<lparr>bitmap := \<lambda>_. - 1, pmem := \<lambda>f i. if f = 1 \<and> i = 1023 then 0x1003 else 0\<rparr>"

lemma full_mm_used: "x < 1048576 \<Longrightarrow> frame_state full_mm x \<noteq> PMM_UNUSED"
  using pmm_bitmap_get_bit[of x full_mm 0] mod32_less[of "x * 2"]
  by (auto simp: bitmap_bit_def full_mm_def simp flip: pmm_bitmap_get_0_iff)

lemma full_mm_no_run: "0 < n \<Longrightarrow> \<not> free_run full_mm q n"
proof
  assume "0 < n" and run: "free_run full_mm q n"
  then have "frame_state full_mm (of_nat (q + 0)) = PMM_UNUSED" "q < 1048576" by (auto simp: free_run_def)
  moreover from this(2) have "(of_nat q :: u32) < 1048576" by (simp add: word_less_nat_alt unat_of_nat_small)
  ultimately show False using full_mm_used[of "of_nat q"] by simp
qed

lemma full_mm_alloc: "pmm_alloc len flags full_mm = (0, full_mm)"
  using full_mm_no_run[of "unat (pmm_pages len)"] pmm_pages_bounds[of len] pmm_find_free_spec[of len full_mm]
  by (cases "len = 0") (simp_all add: pmm_alloc_def pmm_find_free_def)

lemma full_mm_ok: "vmm_ok full_mm 1"
proof -
  have "entry_pr 0x1003" "entry_frame 0x1003 = 1" "\<not> entry_pr 0" by (simp_all add: entry_pr_def entry_frame_def)
  then show ?thesis
    unfolding vmm_ok_def dir_view_def frame_used_def using full_mm_used[of 0] full_mm_used[of 1]
    by (simp add: full_mm_def example_mm_def phys_frame_def frame_state_def)
qed

end
