(* ===== verification/VMM_Map.thy ===== *)
theory VMM_Map
  imports VMM_Refine
begin

unbundle bit_operations_syntax

text \<open>
  What \<^verbatim>\<open>vmm_map\<close>, \<^verbatim>\<open>vmm_unmap\<close>, \<^verbatim>\<open>vmm_get_physical_address\<close> and \<^verbatim>\<open>vmm_find_free\<close> do to the
  address space \<open>lookup\<close> of a directory that satisfies \<open>vmm_ok\<close>.
\<close>

subsection \<open>vmm_map\<close>

lemma not_entry_pr_0 [simp]: "\<not> entry_pr 0"
  by (simp add: entry_pr_def)

definition maps_to :: "u32 \<Rightarrow> ptr \<Rightarrow> u32 \<Rightarrow> bool" where
  "maps_to e pa flags \<longleftrightarrow> entry_pr e \<and> entry_frame e = phys_frame pa \<and>
     (entry_rw e \<longleftrightarrow> flags AND VMM_WRITABLE \<noteq> 0) \<and> (entry_user e \<longleftrightarrow> flags AND VMM_USER \<noteq> 0)"

lemma maps_to_new_table_entry: "maps_to (new_table_entry pa flags e) pa flags"
  unfolding maps_to_def using new_table_entry[of pa flags e] by blast

lemma paged_directory: "dir_view s d \<Longrightarrow> page_directory s = VMM_PAGEDIR \<longleftrightarrow> cr0_pg s"
  by (cases "cr0_pg s") (auto simp: dir_view_def)

lemma lookup_cong: "pmem t = pmem s \<Longrightarrow> lookup t = lookup s"
  unfolding lookup_def by (intro ext) (simp cong: if_cong)

lemma get_page_table_entry:
  assumes "dir_view s d"
  shows "vmm_get_page_table_entry s (dir_entry_ptr s (va_page_table va)) va =
    Some (table_ptr s d va + 4 * ucast (tab_index va))"
  by (simp add: vmm_get_page_table_entry_def get_page_table[OF assms] va_page_eq)

text \<open>The second half of \<^verbatim>\<open>vmm_map\<close>, once the page table exists.\<close>

definition set_table_entry :: "20 word \<Rightarrow> ptr \<Rightarrow> ptr \<Rightarrow> u32 \<Rightarrow> 'a mm_scheme \<Rightarrow> bool \<times> 'a mm_scheme" where
  "set_table_entry d va pa flags s =
     (let f = entry_frame (pmem s d (dir_index va));
          te = pmem s f (tab_index va);
          s' = poke f (tab_index va) (new_table_entry pa flags te) s
      in if entry_pr te then (False, s)
         else (True, if cr0_pg s then mmu_flush_tlb va s' else s'))"

lemma vmm_map_eq:
  assumes ok: "vmm_ok s d" and dc: "vmm_domain_check s va flags"
    and new: "if entry_pr (pmem s d (dir_index va)) then s' = s
              else vmm_new_page_table (dir_entry_ptr s (va_page_table va)) va s = Some s'"
    and s': "dir_view s' d" "page_directory s' = page_directory s" "entry_pr (pmem s' d (dir_index va))"
  shows "vmm_map va pa flags s = Some (set_table_entry d va pa flags s')"
proof -
  let ?de = "dir_entry_ptr s (va_page_table va)"
  have de: "?de = dir_entry_ptr s' (va_page_table va)" by (simp add: dir_entry_ptr_def s'(2))
  have l1: "load s ?de = Some (pmem s d (dir_index va))"
    using dir_entry_access(1)[OF vmm_okD(1)[OF ok], of "dir_index va"] by (simp add: va_page_table_eq)
  have n: "(if \<not> entry_pr (pmem s d (dir_index va)) then vmm_new_page_table ?de va s else Some s) = Some s'"
    using new by (simp split: if_splits)
  have te: "vmm_get_page_table_entry s' ?de va = Some (table_ptr s' d va + 4 * ucast (tab_index va))"
    unfolding de by (rule get_page_table_entry[OF s'(1)])
  note acc = table_access[OF s'(1,3), of "tab_index va"]
  show ?thesis
    unfolding vmm_map_def
    by (simp only: dc not_True_eq_False if_False Let_def l1 n te acc Option.bind.simps)
       (simp add: set_table_entry_def Let_def paged_directory[OF s'(1)])
qed

lemma set_table_entry_spec:
  assumes ok: "vmm_ok s d" and i: "dir_index va \<noteq> 1023" and pr: "entry_pr (pmem s d (dir_index va))"
    and st: "set_table_entry d va pa flags s = (r, t)"
  shows "r \<longleftrightarrow> lookup s d (dir_index va) (tab_index va) = None"
    and "\<not> r \<Longrightarrow> t = s" and "extends s d t"
    and "r \<Longrightarrow> tlb_log t = tlb_log s @ (if cr0_pg s then [Invlpg va] else [])"
    and "r \<Longrightarrow> \<exists>e. maps_to e pa flags \<and> (\<forall>i' j'. i' \<noteq> 1023 \<longrightarrow> lookup t d i' j' =
           (if i' = dir_index va \<and> j' = tab_index va then Some e else lookup s d i' j'))"
proof -
  let ?f = "entry_frame (pmem s d (dir_index va))"
  let ?te = "pmem s ?f (tab_index va)"
  let ?e = "new_table_entry pa flags ?te"
  let ?p = "poke ?f (tab_index va) ?e s"
  have tab: "is_table s d ?f" using i pr by (auto simp: is_table_def)
  have ex: "extends s d ?p" by (rule extends_poke_table[OF ok tab])
  have fl: "extends s d (mmu_flush_tlb va ?p)"
    using extends_trans[OF ex extends_flush[OF extendsD(1)[OF ex]]] by (simp add: mmu_flush_tlb_def)
  have lk: "lookup (mmu_flush_tlb va ?p) = lookup ?p"
    by (rule lookup_cong) (simp add: mmu_flush_tlb_def)
  note st' = st[unfolded set_table_entry_def Let_def]
  show r: "r \<longleftrightarrow> lookup s d (dir_index va) (tab_index va) = None"
    using st' pr by (simp add: lookup_present split: if_splits)
  show "\<not> r \<Longrightarrow> t = s" using st' by (auto split: if_splits)
  show "extends s d t" using st' ex fl extends_refl[OF ok] by (auto split: if_splits)
  show "r \<Longrightarrow> tlb_log t = tlb_log s @ (if cr0_pg s then [Invlpg va] else [])"
    using st' by (auto simp: mmu_flush_tlb_def split: if_splits)
  assume r
  then have "lookup t = lookup ?p" using st' lk by (auto split: if_splits)
  then show "\<exists>e. maps_to e pa flags \<and> (\<forall>i' j'. i' \<noteq> 1023 \<longrightarrow> lookup t d i' j' =
           (if i' = dir_index va \<and> j' = tab_index va then Some e else lookup s d i' j'))"
    using maps_to_new_table_entry[of pa flags ?te] lookup_poke_table[OF ok i pr refl]
    by (intro exI[of _ ?e]) (simp add: maps_to_def)
qed

lemma set_table_entry_keeps:
  assumes ok: "vmm_ok s d" and i: "dir_index va \<noteq> 1023" and pr: "entry_pr (pmem s d (dir_index va))"
    and st: "set_table_entry d va pa flags s = (r, t)"
  shows "pmem t d = pmem s d" "frame_used t = frame_used s"
  using st vmm_okD(4)[OF ok i pr]
  by (auto simp: set_table_entry_def Let_def mmu_flush_tlb_def fun_eq_iff split: if_splits)

text \<open>What mapping an address costs: a frame if its page table is missing, which then exists.\<close>

definition takes_frame :: "'a mm_scheme \<Rightarrow> 20 word \<Rightarrow> ptr \<Rightarrow> 'a mm_scheme \<Rightarrow> bool" where
  "takes_frame s d va t \<longleftrightarrow>
     (\<exists>g. \<forall>f. frame_used t f \<longleftrightarrow> frame_used s f \<or> \<not> entry_pr (pmem s d (dir_index va)) \<and> f = g) \<and>
     entry_pr (pmem t d (dir_index va)) \<and> (\<forall>i. i \<noteq> dir_index va \<longrightarrow> pmem t d i = pmem s d i)"

lemma vmm_map_spec:
  assumes ok: "vmm_ok s d" and i: "dir_index va \<noteq> 1023"
    and mem: "entry_pr (pmem s d (dir_index va)) \<or> fst (pmm_alloc PAGE_SIZE PMM_KERNEL s) \<noteq> 0"
  shows "\<exists>r t. vmm_map va pa flags s = Some (r, t) \<and>
    (r \<longleftrightarrow> vmm_domain_check s va flags \<and> lookup s d (dir_index va) (tab_index va) = None) \<and>
    (if r then extends s d t \<and> tlb_log t = tlb_log s @ (if cr0_pg s then [Invlpg va] else []) \<and>
        (\<exists>e. maps_to e pa flags \<and> (\<forall>i' j'. i' \<noteq> 1023 \<longrightarrow> lookup t d i' j' =
           (if i' = dir_index va \<and> j' = tab_index va then Some e else lookup s d i' j'))) \<and> takes_frame s d va t
     else t = s)"
proof (cases "vmm_domain_check s va flags")
  case False
  then show ?thesis by (intro exI[of _ False] exI[of _ s]) (simp add: vmm_map_def)
next
  case dc: True
  note okD = vmm_okD[OF ok]
  show ?thesis
  proof (cases "entry_pr (pmem s d (dir_index va))")
    case True
    have eq: "vmm_map va pa flags s = Some (set_table_entry d va pa flags s)"
      by (rule vmm_map_eq[OF ok dc]) (simp_all add: True okD(1))
    obtain r t where st: "set_table_entry d va pa flags s = (r, t)" by force
    note sp = set_table_entry_spec[OF ok i True st]
    have "takes_frame s d va t" using set_table_entry_keeps[OF ok i True st] True by (auto simp: takes_frame_def)
    then show ?thesis
      unfolding eq st using sp(1-5) dc by (intro exI[of _ r] exI[of _ t]) auto
  next
    case False
    obtain p s1 where al: "pmm_alloc PAGE_SIZE PMM_KERNEL s = (p, s1)" by force
    then have p: "p \<noteq> 0" using mem False by simp
    have fd: "phys_frame p \<noteq> d" using pmm_alloc_page(1)[OF al p] okD(2) by auto
    obtain e where e: "entry_pr e" "entry_frame e = phys_frame p"
      and n: "vmm_new_page_table (dir_entry_ptr s (va_page_table va)) va s =
        Some (s1\<lparr>pmem := (pmem s)(d := (pmem s d)(dir_index va := e), phys_frame p := \<lambda>_. 0)\<rparr>)"
      by (rule new_page_table[OF ok i False al fd])
    let ?u = "s1\<lparr>pmem := (pmem s)(d := (pmem s d)(dir_index va := e), phys_frame p := \<lambda>_. 0)\<rparr>"
    note u = new_table_state[OF ok i False al p e]
    note uD = extendsD[OF u(1)]
    have eq: "vmm_map va pa flags s = Some (set_table_entry d va pa flags ?u)"
      by (rule vmm_map_eq[OF ok dc]) (use False n vmm_okD(1)[OF uD(1)] uD(5) u(2) in auto)
    obtain r t where st: "set_table_entry d va pa flags ?u = (r, t)" by force
    note sp = set_table_entry_spec[OF uD(1) i u(2) st]
    have lk: "lookup ?u d i' j' = lookup s d i' j'" if "i' \<noteq> 1023" for i' j'
      using u(3)[OF that] .
    have none: "lookup s d (dir_index va) (tab_index va) = None" by (rule lookup_absent[OF False])
    have r: r using sp(1) lk[OF i] none by simp
    have log: "tlb_log ?u = tlb_log s"
      using pmm_alloc_fields(5)[of PAGE_SIZE PMM_KERNEL s, unfolded al snd_conv] by simp
    obtain m where "maps_to m pa flags" "\<And>i' j'. i' \<noteq> 1023 \<Longrightarrow> lookup t d i' j' =
        (if i' = dir_index va \<and> j' = tab_index va then Some m else lookup s d i' j')"
      using sp(5)[OF r] lk by auto
    then have "\<exists>m. maps_to m pa flags \<and> (\<forall>i' j'. i' \<noteq> 1023 \<longrightarrow> lookup t d i' j' =
        (if i' = dir_index va \<and> j' = tab_index va then Some m else lookup s d i' j'))" by blast
    moreover have "tlb_log t = tlb_log s @ (if cr0_pg s then [Invlpg va] else [])"
      using sp(4)[OF r] log uD(4) by simp
    moreover have "extends s d t" by (rule extends_trans[OF u(1) sp(3)])
    moreover have "takes_frame s d va t"
    proof -
      have "pmem ?u d = (pmem s d)(dir_index va := e)" using fd by simp
      moreover have "frame_used ?u f \<longleftrightarrow> frame_used s f \<or> f = phys_frame p" for f
        using pmm_alloc_page(2)[OF al p, of f] by (simp add: frame_used_def frame_state_def)
      ultimately show ?thesis
        using set_table_entry_keeps[OF uD(1) i u(2) st] False e(1) by (auto simp: takes_frame_def intro!: exI[of _ "phys_frame p"])
    qed
    ultimately show ?thesis
      unfolding eq st using r dc none by (intro exI[of _ r] exI[of _ t]) simp
  qed
qed

text \<open>
  C1: Mapping a page refines a partial update of the address space. If the address is in the
  requested domain and not mapped, afterwards it is mapped to the given frame with exactly the
  requested writable and user rights, every other page outside the last 4 MiB keeps its mapping, and
  the entry is invalidated when paging is on; otherwise the call returns false and changes
  nothing. The directory invariant is kept, and no frame in use except the directory and its tables changes.
\<close>

theorem vmm_map_refines:
  assumes ok: "vmm_ok s d" and i: "dir_index va \<noteq> 1023"
    and mem: "entry_pr (pmem s d (dir_index va)) \<or> fst (pmm_alloc PAGE_SIZE PMM_KERNEL s) \<noteq> 0"
  shows "\<exists>r t. vmm_map va pa flags s = Some (r, t) \<and>
    (r \<longleftrightarrow> vmm_domain_check s va flags \<and> lookup s d (dir_index va) (tab_index va) = None) \<and>
    (if r then extends s d t \<and> tlb_log t = tlb_log s @ (if cr0_pg s then [Invlpg va] else []) \<and>
        (\<exists>e. maps_to e pa flags \<and> (\<forall>i' j'. i' \<noteq> 1023 \<longrightarrow> lookup t d i' j' =
           (if i' = dir_index va \<and> j' = tab_index va then Some e else lookup s d i' j')))
     else t = s)"
  using vmm_map_spec[OF ok i mem, of pa flags]
  by (elim exE conjE) (rule exI, rule exI, intro conjI, assumption, assumption, simp only: split: if_splits, blast+)

theorem vmm_map_refines_witness:
  "\<exists>t. vmm_map 0x800000 0x9000 0 example_mm = Some (True, t) \<and> vmm_ok t 1 \<and>
     (\<exists>e. lookup t 1 2 0 = Some e \<and> maps_to e 0x9000 0)"
proof -
  have "entry_pr (pmem example_mm 1 (dir_index 0x800000))"
    using example_table_entry(1)[of 2] by (simp add: example_va example_mm_def)
  moreover have "vmm_domain_check example_mm 0x800000 0" by (simp add: vmm_domain_check_def example_mm_def)
  ultimately show ?thesis
    using vmm_map_refines[OF example_mm_ok, of "0x800000" "0x9000" 0] extendsD(1)[of example_mm 1]
    by (auto simp: example_va example_mm_lookup)
qed

text \<open>
  C37: Out of memory while a page table has to be created. \<^verbatim>\<open>vmm_map\<close> does not look at the result
  of \<^verbatim>\<open>pmm_alloc\<close>: the failure value 0 becomes the frame of the new table, so page frame 0 (the
  real-mode interrupt vectors and BIOS data) is overwritten with zeros except for the new
  entry, and the call reports success.
\<close>

theorem vmm_map_out_of_memory:
  assumes ok: "vmm_ok s d" and i: "dir_index va \<noteq> 1023" and absent: "\<not> entry_pr (pmem s d (dir_index va))"
    and dc: "vmm_domain_check s va flags" and full: "fst (pmm_alloc PAGE_SIZE PMM_KERNEL s) = 0" and d: "d \<noteq> 0"
  shows "\<exists>t. vmm_map va pa flags s = Some (True, t) \<and> entry_pr (pmem t d (dir_index va)) \<and>
    entry_frame (pmem t d (dir_index va)) = 0 \<and> (\<forall>j. j \<noteq> tab_index va \<longrightarrow> pmem t 0 j = 0)"
proof -
  obtain s1 where al: "pmm_alloc PAGE_SIZE PMM_KERNEL s = (0, s1)"
    using full by (metis prod.collapse)
  have s1: "s1 = s" using al by (auto simp: pmm_alloc_def Let_def split: if_splits)
  have f0: "phys_frame 0 = 0" by (simp add: phys_frame_def)
  obtain e where e: "entry_pr e" "entry_frame e = 0"
    and n: "vmm_new_page_table (dir_entry_ptr s (va_page_table va)) va s =
      Some (s\<lparr>pmem := (pmem s)(d := (pmem s d)(dir_index va := e), 0 := \<lambda>_. 0)\<rparr>)"
    using new_page_table[OF ok i absent al] d unfolding f0 s1 by metis
  let ?u = "s\<lparr>pmem := (pmem s)(d := (pmem s d)(dir_index va := e), 0 := \<lambda>_. 0)\<rparr>"
  have pd: "pmem ?u d = (pmem s d)(dir_index va := e)" using d by simp
  have dv: "dir_view ?u d" by (rule dir_view_cong[OF vmm_okD(1)[OF ok]]) (use d i in simp_all)
  have "vmm_map va pa flags s = Some (set_table_entry d va pa flags ?u)"
    by (rule vmm_map_eq[OF ok dc]) (use absent n dv pd e in auto)
  then show ?thesis
    using pd e d by (simp add: set_table_entry_def Let_def mmu_flush_tlb_def)
qed

theorem vmm_map_out_of_memory_witness:
  "\<exists>t. vmm_map 0x405000 0x9000 0 full_mm = Some (True, t) \<and> entry_frame (pmem t 1 1) = 0 \<and>
     (\<forall>j. j \<noteq> 5 \<longrightarrow> pmem t 0 j = 0)"
proof -
  have "\<not> entry_pr (pmem full_mm 1 (dir_index 0x405000))"
    by (simp add: example_va full_mm_def)
  moreover have "vmm_domain_check full_mm 0x405000 0"
    by (simp add: vmm_domain_check_def full_mm_def example_mm_def)
  ultimately show ?thesis
    using vmm_map_out_of_memory[OF full_mm_ok, of "0x405000" 0 "0x9000"] full_mm_alloc
    by (auto simp: example_va)
qed

subsection \<open>vmm_unmap\<close>

lemma first_present_spec:
  assumes acc: "\<And>j. load s (tab + 4 * ucast (j :: 10 word)) = Some (c j)" and "k \<le> ENTRIES"
  shows "\<exists>i. vmm_first_present s tab k = Some i \<and> k \<le> i \<and> i \<le> ENTRIES \<and>
    (\<forall>j. k \<le> unat j \<longrightarrow> unat j < i \<longrightarrow> \<not> entry_pr (c j)) \<and>
    (i < ENTRIES \<longrightarrow> entry_pr (c (of_nat i)))"
  using assms(2)
proof (induction "ENTRIES - k" arbitrary: k)
  case 0
  then have "k = ENTRIES" by simp
  then show ?case by (simp add: vmm_first_present.simps[of s tab ENTRIES])
next
  case (Suc n)
  then have k: "k < ENTRIES" by simp
  then have uk: "unat (of_nat k :: 10 word) = k" by (simp add: unat_of_nat_small ENTRIES_def)
  then have "(ucast (of_nat k :: 10 word) :: u32) = of_nat k"
    using k by (simp add: word_unat_eq_iff unat_ucast_slot unat_of_nat_small ENTRIES_def)
  then have ld: "load s (tab + 4 * of_nat k) = Some (c (of_nat k))" using acc[of "of_nat k"] by simp
  show ?case
  proof (cases "entry_pr (c (of_nat k))")
    case True
    then show ?thesis using k ld by (auto simp: vmm_first_present.simps[of s tab k])
  next
    case False
    then have st: "vmm_first_present s tab k = vmm_first_present s tab (Suc k)"
      using k ld by (simp add: vmm_first_present.simps[of s tab k])
    have first: "\<not> entry_pr (c j)" if "unat j = k" for j
    proof -
      have "j = of_nat k" using that uk by (simp add: word_unat_eq_iff)
      with False show ?thesis by simp
    qed
    have "n = ENTRIES - Suc k" "Suc k \<le> ENTRIES" using Suc.hyps(2) k by simp_all
    from Suc.hyps(1)[OF this] obtain i where
      i: "vmm_first_present s tab (Suc k) = Some i" "Suc k \<le> i" "i \<le> ENTRIES"
      "\<And>j. Suc k \<le> unat j \<Longrightarrow> unat j < i \<Longrightarrow> \<not> entry_pr (c j)"
      "i < ENTRIES \<longrightarrow> entry_pr (c (of_nat i))" by blast
    have "\<not> entry_pr (c j)" if "k \<le> unat j" "unat j < i" for j
      using first[of j] i(4)[of j] that by (cases "unat j = k") simp_all
    then show ?thesis unfolding st using i(1,3,5) Suc_leD[OF i(2)] by blast
  qed
qed

lemma first_present_last:
  assumes acc: "\<And>j. load s (tab + 4 * ucast (j :: 10 word)) = Some (c j)"
  obtains i where "vmm_first_present s tab 0 = Some i"
    and "i = ENTRIES - 1 \<longleftrightarrow> entry_pr (c 1023) \<and> (\<forall>j. j \<noteq> 1023 \<longrightarrow> \<not> entry_pr (c j))"
proof -
  obtain i where i: "vmm_first_present s tab 0 = Some i" "i \<le> ENTRIES"
    "\<And>j. unat j < i \<Longrightarrow> \<not> entry_pr (c j)" "i < ENTRIES \<Longrightarrow> entry_pr (c (of_nat i))"
    using first_present_spec[OF acc, of 0] by auto
  have le: "unat j < 1023 \<longleftrightarrow> j \<noteq> 1023" for j :: "10 word"
    using unat_bound[of j] by (auto simp: word_unat_eq_iff)
  have "i = ENTRIES - 1 \<longleftrightarrow> entry_pr (c 1023) \<and> (\<forall>j. j \<noteq> 1023 \<longrightarrow> \<not> entry_pr (c j))"
  proof
    assume "i = ENTRIES - 1"
    then show "entry_pr (c 1023) \<and> (\<forall>j. j \<noteq> 1023 \<longrightarrow> \<not> entry_pr (c j))"
      using i(3,4) le by (auto simp: ENTRIES_def)
  next
    assume a: "entry_pr (c 1023) \<and> (\<forall>j. j \<noteq> 1023 \<longrightarrow> \<not> entry_pr (c j))"
    then have "\<not> unat (1023 :: 10 word) < i" using i(3) by blast
    then have "i \<le> 1023" by simp
    moreover have "\<not> i < 1023"
    proof
      assume "i < 1023"
      then have "of_nat i \<noteq> (1023 :: 10 word)" and "i < ENTRIES"
        by (simp_all add: word_unat_eq_iff unat_of_nat_small ENTRIES_def)
      then show False using a i(4) by blast
    qed
    ultimately show "i = ENTRIES - 1" by (simp add: ENTRIES_def)
  qed
  with i(1) show ?thesis by (rule that)
qed

lemma entry_address: "pmm_get_address (entry_page e) 0 = pmm_get_address (of_nat (unat (entry_frame e))) 0"
proof -
  have "entry_page e = ucast (entry_frame e)"
  proof (rule bit_word_eqI)
    fix n
    show "bit (entry_page e) n = bit (ucast (entry_frame e) :: u32) n"
      using bit_imp_le_length[of e "12 + n"] by (auto simp: entry_page_def entry_frame_def bit_simps)
  qed
  also have "\<dots> = of_nat (unat (entry_frame e))"
    using unat_bound[of "entry_frame e"] by (simp add: word_unat_eq_iff unat_ucast_frame unat_of_nat_small)
  finally show ?thesis by simp
qed

lemma frame_used_free_page:
  "frame_used (pmm_free (pmm_get_address (entry_page e) 0) PAGE_SIZE s) g \<longleftrightarrow>
   frame_used s g \<and> g \<noteq> entry_frame e"
proof -
  have n: "unat (pmm_pages PAGE_SIZE) = 1" by (simp add: unat_pmm_pages)
  have b: "unat (entry_frame e) < 1048576" using unat_bound[of "entry_frame e"] by simp
  show ?thesis
    using frame_state_use_run[of PAGE_SIZE "unat (entry_frame e)" "ucast g" PMM_UNUSED s] b ucast_page_less[of g]
    by (auto simp: pmm_free_def frame_used_def n unat_ucast_frame entry_address word_unat_eq_iff[of g]
        simp del: PAGE_SIZE_def) (simp_all add: PAGE_SIZE_def)
qed

lemma pmm_free_fields [simp]:
  "pmem (pmm_free p len s) = pmem s" "ctrl (pmm_free p len s) = ctrl s"
  "tlb_log (pmm_free p len s) = tlb_log s" "page_directory (pmm_free p len s) = page_directory s"
  "cr0_pg (pmm_free p len s) = cr0_pg s" "cr3 (pmm_free p len s) = cr3 s"
  by (simp_all add: pmm_free_def ctrl_def)

lemma destroy_page_table:
  assumes "dir_view s d"
  shows "vmm_destroy_page_table (ucast i) s =
    Some (poke d i 0 (pmm_free (pmm_get_address (entry_page (pmem s d i)) 0) PAGE_SIZE s))"
proof -
  let ?t = "pmm_free (pmm_get_address (entry_page (pmem s d i)) 0) PAGE_SIZE s"
  have dv: "dir_view ?t d" using assms by (rule dir_view_cong) simp_all
  have "store (dir_entry_ptr ?t (ucast i)) 0 ?t = Some (poke d i 0 ?t)"
    by (rule dir_entry_access(2)[OF dv])
  then show ?thesis
    by (simp only: vmm_destroy_page_table_def dir_entry_access(1)[OF assms] Option.bind.simps Let_def)
qed

text \<open>
  The table of the page is taken away when, after the entry is cleared, entry 1023 is the first
  present one: the code compares the index with \<open>ENTRIES - 1\<close>.
\<close>

definition drops_table :: "'a mm_scheme \<Rightarrow> 20 word \<Rightarrow> ptr \<Rightarrow> bool" where
  "drops_table s d va \<longleftrightarrow> tab_index va \<noteq> 1023 \<and> lookup s d (dir_index va) 1023 \<noteq> None \<and>
     (\<forall>j. j \<noteq> 1023 \<longrightarrow> j \<noteq> tab_index va \<longrightarrow> lookup s d (dir_index va) j = None)"

definition unmapped :: "'a mm_scheme \<Rightarrow> 20 word \<Rightarrow> ptr \<Rightarrow> 'a mm_scheme" where
  "unmapped s d va =
     (let f = entry_frame (pmem s d (dir_index va));
          s1 = poke f (tab_index va) 0 s;
          s2 = (if drops_table s d va
                then poke d (dir_index va) 0
                       (pmm_free (pmm_get_address (entry_page (pmem s d (dir_index va))) 0) PAGE_SIZE s1)
                else s1)
      in if cr0_pg s then mmu_flush_tlb va s2 else s2)"

lemma lookup_NoneD: "entry_pr (pmem s d i) \<Longrightarrow>
   lookup s d i j = None \<longleftrightarrow> \<not> entry_pr (pmem s (entry_frame (pmem s d i)) j)"
  by (simp add: lookup_present)

lemma vmm_unmap_absent:
  assumes "vmm_ok s d" "lookup s d (dir_index va) (tab_index va) = None"
  shows "vmm_unmap va s = Some s"
proof -
  note dv = vmm_okD(1)[OF assms(1)]
  have l1: "load s (dir_entry_ptr s (va_page_table va)) = Some (pmem s d (dir_index va))"
    using dir_entry_access(1)[OF dv, of "dir_index va"] by (simp add: va_page_table_eq)
  show ?thesis
  proof (cases "entry_pr (pmem s d (dir_index va))")
    case True
    have "load s (table_ptr s d va + 4 * va_page va) =
        Some (pmem s (entry_frame (pmem s d (dir_index va))) (tab_index va))"
      using table_access(1)[OF dv True, of "tab_index va"] by (simp add: va_page_eq)
    then show ?thesis
      using True l1 get_page_table[OF dv, of va] assms(2) by (simp add: vmm_unmap_def Let_def lookup_NoneD)
  qed (use l1 in \<open>simp add: vmm_unmap_def Let_def\<close>)
qed

lemma vmm_unmap_present:
  assumes ok: "vmm_ok s d" and i: "dir_index va \<noteq> 1023"
    and pres: "lookup s d (dir_index va) (tab_index va) \<noteq> None"
  shows "vmm_unmap va s = Some (unmapped s d va)"
proof -
  let ?i = "dir_index va" and ?j = "tab_index va"
  let ?f = "entry_frame (pmem s d ?i)" and ?de = "dir_entry_ptr s (va_page_table va)"
  let ?s1 = "poke ?f ?j 0 s"
  note dv = vmm_okD(1)[OF ok]
  have pr: "entry_pr (pmem s d ?i)" using pres by (rule contrapos_np) (rule lookup_absent)
  have te: "entry_pr (pmem s ?f ?j)" using pres pr by (simp add: lookup_NoneD)
  have fd: "?f \<noteq> d" by (rule vmm_okD(4)[OF ok i pr])
  have dv1: "dir_view ?s1 d" by (rule dir_view_poke[OF dv]) (simp add: fd)
  have l1: "load s ?de = Some (pmem s d ?i)"
    using dir_entry_access(1)[OF dv, of ?i] by (simp add: va_page_table_eq)
  have acc: "load s (table_ptr s d va + 4 * ucast ?j) = Some (pmem s ?f ?j)"
    "store (table_ptr s d va + 4 * ucast ?j) 0 s = Some ?s1"
    by (rule table_access[OF dv pr])+
  have tp: "table_ptr ?s1 d va = table_ptr s d va" using fd by (simp add: table_ptr_def)
  have d1: "pmem ?s1 d = pmem s d" using fd by simp
  have acc1: "load ?s1 (table_ptr s d va + 4 * ucast j) = Some (pmem ?s1 ?f j)" for j
    using table_access(1)[OF dv1, of va j] pr unfolding d1 tp by simp
  obtain k where k: "vmm_first_present ?s1 (table_ptr s d va) 0 = Some k"
    "k = ENTRIES - 1 \<longleftrightarrow> entry_pr (pmem ?s1 ?f 1023) \<and> (\<forall>j. j \<noteq> 1023 \<longrightarrow> \<not> entry_pr (pmem ?s1 ?f j))"
    by (rule first_present_last[of ?s1 "table_ptr s d va" "pmem ?s1 ?f", OF acc1])
  have drop: "k = ENTRIES - 1 \<longleftrightarrow> drops_table s d va"
    using te unfolding k(2) drops_table_def lookup_NoneD[OF pr] by (auto simp: fun_upd_apply split: if_splits)
  have dest: "vmm_destroy_page_table (va_page_table va) ?s1 =
      Some (poke d ?i 0 (pmm_free (pmm_get_address (entry_page (pmem s d ?i)) 0) PAGE_SIZE ?s1))"
    using destroy_page_table[OF dv1, of ?i] d1 by (simp only: va_page_table_eq)
  have pd: "page_directory t = VMM_PAGEDIR \<longleftrightarrow> cr0_pg s" if "page_directory t = page_directory s"
    for t :: "'a mm_scheme" using paged_directory[OF dv] that by simp
  show ?thesis
    by (simp only: vmm_unmap_def Let_def l1 pr te get_page_table[OF dv] va_page_eq acc k(1) drop dest
        not_True_eq_False if_False Option.bind.simps)
       (simp add: unmapped_def Let_def dest pd)
qed

lemma unmapped_spec:
  assumes ok: "vmm_ok s d" and i: "dir_index va \<noteq> 1023"
    and pres: "lookup s d (dir_index va) (tab_index va) \<noteq> None"
  shows "vmm_ok (unmapped s d va) d"
    and "tlb_log (unmapped s d va) = tlb_log s @ (if cr0_pg s then [Invlpg va] else [])"
    and "i' \<noteq> 1023 \<Longrightarrow> lookup (unmapped s d va) d i' j' =
      (if i' = dir_index va \<and> (j' = tab_index va \<or> drops_table s d va) then None else lookup s d i' j')"
    and "frame_used (unmapped s d va) g \<longleftrightarrow>
      frame_used s g \<and> \<not> (drops_table s d va \<and> g = entry_frame (pmem s d (dir_index va)))"
proof -
  let ?i = "dir_index va" and ?j = "tab_index va"
  let ?f = "entry_frame (pmem s d ?i)"
  let ?s1 = "poke ?f ?j 0 s"
  let ?e = "pmm_get_address (entry_page (pmem s d ?i)) 0"
  let ?s2 = "poke d ?i 0 (pmm_free ?e PAGE_SIZE ?s1)"
  have pr: "entry_pr (pmem s d ?i)" using pres by (rule contrapos_np) (rule lookup_absent)
  note okD = vmm_okD[OF ok]
  have fd: "?f \<noteq> d" "?f \<noteq> 0" by (rule okD(4,7)[OF i pr])+
  have ok1: "vmm_ok ?s1 d" by (rule vmm_ok_poke_table[OF ok fd(1)])
  note lk1 = lookup_poke_table[OF ok i pr refl]
  have u2: "frame_used ?s2 g \<longleftrightarrow> frame_used s g \<and> g \<noteq> ?f" for g
    using frame_used_free_page[of "pmem s d ?i" ?s1 g] by (simp add: frame_used_def)
  have "dir_view ?s2 d" by (rule dir_view_cong[OF okD(1)]) (use fd i in simp_all)
  moreover have "pmem ?s2 d = (pmem s d)(?i := 0)" using fd by (auto simp: fun_eq_iff)
  ultimately have ok2: "vmm_ok ?s2 d"
    unfolding vmm_ok_def u2 using okD(2-7) fd fd(1)[symmetric] fd(2)[symmetric] okD(6)[OF _ i _ pr]
    by (auto simp: fun_upd_apply split: if_splits)
  have lk2: "lookup ?s2 d i' j' = (if i' = ?i then None else lookup s d i' j')" if i': "i' \<noteq> 1023" for i' j'
  proof (cases "i' = ?i \<or> \<not> entry_pr (pmem s d i')")
    case False
    then have "entry_frame (pmem s d i') \<noteq> ?f" "entry_frame (pmem s d i') \<noteq> d"
      using okD(6)[OF i' i _ pr] okD(4)[OF i'] by auto
    with False fd show ?thesis by (simp add: lookup_def Let_def)
  qed (use fd in \<open>auto simp: lookup_def Let_def\<close>)
  let ?t2 = "if drops_table s d va then ?s2 else ?s1"
  let ?t = "if cr0_pg s then mmu_flush_tlb va ?t2 else ?t2"
  have t: "unmapped s d va = ?t" by (simp add: unmapped_def Let_def)
  have pm: "pmem ?t = pmem ?t2" by (simp add: mmu_flush_tlb_def)
  have "vmm_ok ?t2 d" using ok1 ok2 by simp
  then show "vmm_ok (unmapped s d va) d" using vmm_ok_flush[of ?t2 d] by (simp add: t mmu_flush_tlb_def)
  show "tlb_log (unmapped s d va) = tlb_log s @ (if cr0_pg s then [Invlpg va] else [])"
    by (simp add: t mmu_flush_tlb_def)
  show "lookup (unmapped s d va) d i' j' =
      (if i' = ?i \<and> (j' = ?j \<or> drops_table s d va) then None else lookup s d i' j')" if "i' \<noteq> 1023"
    unfolding t lookup_cong[OF pm] using lk1[OF that] lk2[OF that] by auto
  show "frame_used (unmapped s d va) g \<longleftrightarrow> frame_used s g \<and> \<not> (drops_table s d va \<and> g = ?f)"
    using u2[of g] by (simp add: t mmu_flush_tlb_def)
qed


lemma example_drops_table: "drops_table example_mm 1 0x405000"
  by (simp add: drops_table_def example_va example_mm_lookup)


text \<open>
  The test that decides whether a page table is released is off by one. When the pages of a
  table are unmapped down to at most entry 1023, unmapping the last other page keeps the table if it is
  now empty, and frees it if page 1023 is still mapped, which unmaps that page as well.
\<close>

theorem vmm_unmap_releases_used_table:
  assumes ok: "vmm_ok s d" and i: "dir_index va \<noteq> 1023" and j: "tab_index va \<noteq> 1023"
    and pres: "lookup s d (dir_index va) (tab_index va) \<noteq> None"
    and last: "\<forall>j. j \<noteq> tab_index va \<longrightarrow> j \<noteq> 1023 \<longrightarrow> lookup s d (dir_index va) j = None"
  shows "\<exists>t. vmm_unmap va s = Some t \<and> lookup t d (dir_index va) 1023 = None \<and>
    (frame_used t (entry_frame (pmem s d (dir_index va))) \<longleftrightarrow> lookup s d (dir_index va) 1023 = None)"
proof -
  have pr: "entry_pr (pmem s d (dir_index va))" using pres by (rule contrapos_np) (rule lookup_absent)
  have drop: "drops_table s d va \<longleftrightarrow> lookup s d (dir_index va) 1023 \<noteq> None"
    using j last by (auto simp: drops_table_def)
  show ?thesis
    unfolding vmm_unmap_present[OF ok i pres]
    using unmapped_spec(3)[OF ok i pres i, of 1023] unmapped_spec(4)[OF ok i pres] drop
      vmm_okD(5)[OF ok i pr] by auto
qed

theorem vmm_unmap_releases_used_table_witness:
  "\<exists>t. vmm_unmap 0x405000 example_mm = Some t \<and> lookup t 1 1 1023 = None \<and>
     lookup example_mm 1 1 1023 = Some 0x700003"
  using vmm_unmap_releases_used_table[OF example_mm_ok, of "0x405000"]
  by (auto simp: example_va example_mm_lookup)

text \<open>
  Tearing down a page directory frees the table of entry 0 without a look at its present
  bit. In a directory that has no such table this releases page frame 0, and from then on
  every request of at most one page to the frame allocator returns the failure value 0.
\<close>

theorem vmm_destroy_page_table_frees_frame_0:
  assumes dv: "dir_view s d" and absent: "pmem s d 0 = 0"
  shows "\<exists>t. vmm_destroy_page_table 0 s = Some t \<and> frame_state t 0 = PMM_UNUSED \<and>
    (\<forall>len flags. len \<le> PAGE_SIZE \<longrightarrow> fst (pmm_alloc len flags t) = 0)"
proof -
  let ?t = "poke d 0 0 (pmm_free (pmm_get_address (entry_page 0) 0) PAGE_SIZE s)"
  have eq: "vmm_destroy_page_table 0 s = Some ?t"
    using destroy_page_table[OF dv, of 0] absent by simp
  have "\<not> frame_used ?t 0"
    using frame_used_free_page[of 0 s 0] by (simp add: entry_frame_def del: PAGE_SIZE_def)
  then have free: "frame_state ?t 0 = PMM_UNUSED" by (simp add: frame_used_def)
  have "fst (pmm_alloc len flags ?t) = 0" if "len \<le> PAGE_SIZE" for len flags
    by (rule pmm_alloc_frame_0_free[OF free that])
  then show ?thesis using eq free by blast
qed

theorem vmm_destroy_page_table_frees_frame_0_witness:
  "\<exists>t. vmm_destroy_page_table 0 full_mm = Some t \<and> frame_state t 0 = PMM_UNUSED \<and>
     fst (pmm_alloc 1 PMM_USER t) = 0"
  using vmm_destroy_page_table_frees_frame_0[OF vmm_okD(1)[OF full_mm_ok]]
  by (auto simp: full_mm_def word_le_nat_alt)

end
