(* ===== verification/VMM_Alloc.thy ===== *)
theory VMM_Alloc
  imports VMM_Map
begin

unbundle bit_operations_syntax

text \<open>
  Searching the address space and allocating virtual memory: \<open>vmm_get_physical_address\<close> reads the
  page map, \<open>vmm_find_free\<close> returns a run of unmapped pages inside its domain, and \<open>vmm_alloc\<close> maps
  such a run to frames that were unused.
\<close>

subsection \<open>Pages of the address space\<close>

abbreviation page_addr :: "nat \<Rightarrow> ptr" where
  "page_addr q \<equiv> pmm_get_address (of_nat q) 0"

definition page_map :: "'a mm_scheme \<Rightarrow> 20 word \<Rightarrow> nat \<Rightarrow> u32 option" where
  "page_map s d q = lookup s d (of_nat (q div 1024)) (of_nat (q mod 1024))"

lemma unat_page_addr: "q < 1048576 \<Longrightarrow> unat (page_addr q) = q * 4096"
  by (subst unat_get_address) (simp_all add: word_less_nat_alt unat_of_nat_small)

lemma page_addr_index:
  assumes "q < 1048576"
  shows "dir_index (page_addr q) = of_nat (q div 1024)" "tab_index (page_addr q) = of_nat (q mod 1024)"
    "va_page_offset (page_addr q) = 0"
proof -
  have d: "q div 1024 < 1024" "q mod 1024 < 1024" using assms by simp_all
  have "q * 4096 div 4194304 = q div 1024" using div_mult2_eq[of "q * 4096" 4096 1024] by simp
  then show "dir_index (page_addr q) = of_nat (q div 1024)"
    using assms d by (simp add: word_unat_eq_iff unat_dir_index unat_page_addr unat_of_nat_small)
  show "tab_index (page_addr q) = of_nat (q mod 1024)"
    using assms d by (simp add: word_unat_eq_iff unat_tab_index unat_page_addr unat_of_nat_small)
  show "va_page_offset (page_addr q) = 0"
    unfolding va_page_offset_def and_mask_12 pmm_get_address_def
    by (auto intro!: bit_word_eqI simp: bit_simps)
qed

lemma lookup_page_addr:
  "q < 1048576 \<Longrightarrow> lookup s d (dir_index (page_addr q)) (tab_index (page_addr q)) = page_map s d q"
  by (simp add: page_map_def page_addr_index)

lemma dir_index_of_nat_eq:
  assumes "q < 1048576" "r < 1048576"
  shows "(of_nat (q div 1024) :: 10 word) = of_nat (r div 1024) \<and>
         (of_nat (q mod 1024) :: 10 word) = of_nat (r mod 1024) \<longleftrightarrow> q = r"
proof -
  have "q div 1024 < 1024" "r div 1024 < 1024" using assms by simp_all
  then have "(of_nat (q div 1024) :: 10 word) = of_nat (r div 1024) \<longleftrightarrow> q div 1024 = r div 1024"
    "(of_nat (q mod 1024) :: 10 word) = of_nat (r mod 1024) \<longleftrightarrow> q mod 1024 = r mod 1024"
    by (simp_all add: word_unat_eq_iff unat_of_nat_small)
  then show ?thesis using div_mult_mod_eq[of q 1024] div_mult_mod_eq[of r 1024] by metis
qed

lemma dir_index_low: "q < 1047552 \<Longrightarrow> dir_index (page_addr q) \<noteq> 1023"
proof -
  assume "q < 1047552"
  moreover then have "q div 1024 < 1023" by (simp add: div_less_iff_less_mult)
  ultimately show ?thesis by (simp add: page_addr_index word_unat_eq_iff unat_of_nat_small)
qed

subsection \<open>vmm_get_physical_address\<close>

lemma address_join:
  "pmm_get_address (entry_page e) (va AND 0xFFF) = push_bit 12 (ucast (entry_frame e)) OR (va AND 0xFFF)"
proof -
  have "push_bit 12 (ucast (entry_frame e)) = (push_bit 12 (entry_page e) :: u32)"
    by (auto intro!: bit_word_eqI simp: entry_frame_def entry_page_def bit_simps)
  then show ?thesis
    unfolding pmm_get_address_def and_mask_12 PAGE_SHIFT_def
    by (simp add: disjunctive_add_eq_or bit_eq_iff bit_simps)
qed

lemma get_physical_address_lookup:
  assumes ok: "vmm_ok s d" and pg: "cr0_pg s"
  shows "vmm_get_physical_address s va = Some (case lookup s d (dir_index va) (tab_index va) of
    None \<Rightarrow> 0 | Some e \<Rightarrow> pmm_get_address (entry_page e) (va_page_offset va))"
proof -
  note dv = vmm_okD(1)[OF ok]
  have l1: "load s (dir_entry_ptr s (va_page_table va)) = Some (pmem s d (dir_index va))"
    using dir_entry_access(1)[OF dv, of "dir_index va"] by (simp add: va_page_table_eq)
  show ?thesis
  proof (cases "entry_pr (pmem s d (dir_index va))")
    case True
    note l2 = table_access(1)[OF dv True, of "tab_index va"]
    show ?thesis
      using l1 l2 True pg get_page_table_entry[OF dv, of va]
      by (simp add: vmm_get_physical_address_def mmu_get_paging_def Let_def lookup_present)
  qed (use l1 pg in \<open>simp add: vmm_get_physical_address_def mmu_get_paging_def Let_def lookup_absent\<close>)
qed

text \<open>
  C32: With paging on, \<open>vmm_get_physical_address\<close> agrees with the processor: it returns the physical
  address that the two-level walk yields, and 0 when the walk faults.
\<close>

theorem vmm_get_physical_address_is_translation:
  assumes ok: "vmm_ok s d" and pg: "cr0_pg s"
  shows "vmm_get_physical_address s va = Some (case mmu_translate s va of Some pa \<Rightarrow> pa | None \<Rightarrow> 0)"
proof -
  have cr: "phys_frame (cr3 s) = d" using vmm_okD(1)[OF ok] pg by (simp add: dir_view_def)
  have "mmu_translate s va = map_option (\<lambda>e. pmm_get_address (entry_page e) (va_page_offset va))
      (lookup s d (dir_index va) (tab_index va))"
    using pg cr by (simp add: mmu_translate_def lookup_def Let_def va_page_offset_def address_join)
  then show ?thesis
    unfolding get_physical_address_lookup[OF ok pg] by (simp split: option.splits)
qed

theorem vmm_get_physical_address_is_translation_witness:
  "vmm_get_physical_address example_mm 0x405123 =
     Some (case mmu_translate example_mm 0x405123 of Some pa \<Rightarrow> pa | None \<Rightarrow> 0)"
  by (rule vmm_get_physical_address_is_translation[OF example_mm_ok]) (simp add: example_mm_def)

lemma get_physical_address_page:
  assumes "vmm_ok s d" "cr0_pg s" "q < 1048576"
  shows "vmm_get_physical_address s (page_addr q) = Some (case page_map s d q of
    None \<Rightarrow> 0 | Some e \<Rightarrow> pmm_get_address (entry_page e) 0)"
  unfolding get_physical_address_lookup[OF assms(1,2)] lookup_page_addr[OF assms(3)]
    page_addr_index(3)[OF assms(3)] ..

subsection \<open>vmm_find_free\<close>

lemma vmm_find_loop_sound:
  assumes "\<And>i. lo \<le> i \<Longrightarrow> i \<le> e \<Longrightarrow> vmm_get_physical_address s (page_addr i) = Some (g i)"
    and "unat pages = n" "unat f < n" "n \<le> 1048576" "lo + unat f \<le> i" "e < 1048576"
    and "\<And>k. i - unat f \<le> k \<Longrightarrow> k < i \<Longrightarrow> g k = 0"
  shows "\<exists>v. vmm_find_loop s pages e i f = Some v \<and>
    (v \<noteq> 0 \<longrightarrow> (\<exists>q. v = page_addr q \<and> lo \<le> q \<and> q + n \<le> Suc e \<and> (\<forall>k<n. g (q + k) = 0)))"
  using assms
proof (induction s pages e i f rule: vmm_find_loop.induct)
  case (1 s pages e i f)
  let ?f' = "if g i = 0 then f + 1 else 0"
  note unfold = vmm_find_loop.simps[of s pages e i f]
  show ?case
  proof (cases "i \<le> e")
    case False
    then show ?thesis by (simp add: unfold)
  next
    case i: True
    have phys: "vmm_get_physical_address s (page_addr i) = Some (g i)" using "1.prems"(1,5) i by simp
    have f1: "unat (f + 1) = Suc (unat f)" using "1.prems"(3,4) by (simp add: unat_add_small)
    have run: "g k = 0" if "Suc i - unat ?f' \<le> k" "k < Suc i" for k
      using that "1.prems"(7)[of k] f1 by (cases "k = i") (auto split: if_splits)
    show ?thesis
    proof (cases "pages \<le> ?f'")
      case True
      have f': "?f' = f + 1" "g i = 0" using True "1.prems"(2,3) by (auto simp: word_le_nat_alt split: if_splits)
      have n: "n = Suc (unat f)" using True f' f1 "1.prems"(2,3) by (simp add: word_le_nat_alt)
      have "of_nat i - (f + 1) + 1 = (of_nat (Suc i - n) :: u32)"
        using word_run_start[of "f + 1" i] f1 n "1.prems"(5) by simp
      then have "vmm_find_loop s pages e i f = Some (page_addr (Suc i - n))"
        using i phys True f' by (simp add: unfold)
      moreover have "g (Suc i - n + k) = 0" if "k < n" for k
        using run[of "Suc i - n + k"] that n f' f1 "1.prems"(5) by simp
      moreover have "lo \<le> Suc i - n" "Suc i - n + n \<le> Suc e" using n i "1.prems"(5) by simp_all
      ultimately show ?thesis by blast
    next
      case False
      have st: "vmm_find_loop s pages e i f = vmm_find_loop s pages e (Suc i) ?f'"
        using i phys False by (simp add: unfold)
      show ?thesis
        unfolding st
      proof (rule "1.IH"[OF i phys refl False])
        show "unat ?f' < n" using False "1.prems"(2,3) by (auto simp: word_le_nat_alt)
        show "lo + unat ?f' \<le> Suc i" using "1.prems"(5) f1 by simp
        show "g k = 0" if "Suc i - unat ?f' \<le> k" "k < Suc i" for k by (rule run[OF that])
      qed (fact "1.prems"(1,2,4,6))+
    qed
  qed
qed

definition domain_low :: "vmm_domain \<Rightarrow> nat" where
  "domain_low dm = unat (domain_start dm) div 4096"

definition domain_high :: "vmm_domain \<Rightarrow> nat" where
  "domain_high dm = Suc (unat (domain_end dm) div 4096)"

lemma domain_pages:
  "unat (pmm_get_page (domain_start dm) 0) = domain_low dm"
  "Suc (unat (pmm_get_page (domain_end dm) 0)) = domain_high dm"
  "0 < domain_low dm" "domain_high dm \<le> 1047552"
  by (cases dm; simp add: unat_get_page domain_low_def domain_high_def ENTRIES_def)+

lemma page_addr_domain:
  assumes "domain_low dm \<le> q" "q < domain_high dm"
  shows "vmm_get_domain_from_address (page_addr q) = Some dm"
proof -
  have q: "q < 1048576" using assms(2) domain_pages(4)[of dm] by simp
  show ?thesis
  proof (cases dm)
    case kernel_domain
    with assms have "1024 \<le> q" "q < 262144" by (simp_all add: domain_low_def domain_high_def)
    with kernel_domain q show ?thesis
      by (simp add: vmm_get_domain_from_address_def vmm_is_in_domain_def word_le_nat_alt unat_page_addr)
  next
    case user_domain
    with assms have "262144 \<le> q" "q < 1047552" by (simp_all add: domain_low_def domain_high_def ENTRIES_def)
    with user_domain q show ?thesis
      by (simp add: vmm_get_domain_from_address_def vmm_is_in_domain_def word_le_nat_alt unat_page_addr ENTRIES_def)
  qed
qed

definition page_free :: "'a mm_scheme \<Rightarrow> 20 word \<Rightarrow> nat \<Rightarrow> bool" where
  "page_free s d q \<longleftrightarrow> (case page_map s d q of None \<Rightarrow> True | Some e \<Rightarrow> entry_frame e = 0)"

lemma entry_address_eq_0: "pmm_get_address (entry_page e) 0 = 0 \<longleftrightarrow> entry_frame e = 0"
proof -
  let ?f = "unat (entry_frame e)"
  have f: "?f < 1048576" using unat_bound[of "entry_frame e"] by simp
  then have u: "unat (of_nat ?f :: u32) = ?f" by (subst unat_of_nat_small) simp_all
  then have "(of_nat ?f :: u32) < 1048576" using f by (simp only: word_less_nat_alt) simp
  then have "pmm_get_address (of_nat ?f) 0 = 0 \<longleftrightarrow> (of_nat ?f :: u32) = 0" by (rule get_address_eq_0_iff)
  also have "\<dots> \<longleftrightarrow> ?f = 0" unfolding word_unat_eq_iff u by simp
  finally show ?thesis unfolding entry_address by (simp add: word_unat_eq_iff[of "entry_frame e"])
qed

lemma vmm_find_free_run:
  assumes "vmm_ok s d" "cr0_pg s" "len \<noteq> 0"
  defines "n \<equiv> unat (pmm_pages len)"
  obtains v where "vmm_find_free s len dm = Some v"
    and "v \<noteq> 0 \<Longrightarrow> \<exists>q. v = page_addr q \<and> domain_low dm \<le> q \<and> q + n \<le> domain_high dm \<and>
           (\<forall>k<n. page_free s d (q + k))"
proof -
  let ?e = "unat (pmm_get_page (domain_end dm) 0)"
  let ?g = "\<lambda>i. case page_map s d i of None \<Rightarrow> 0 | Some e \<Rightarrow> pmm_get_address (entry_page e) 0"
  have e: "Suc ?e = domain_high dm" "?e < 1048576" using domain_pages[of dm] by linarith+
  have g: "?g i = 0 \<longleftrightarrow> page_free s d i" for i
    by (simp add: page_free_def entry_address_eq_0 split: option.splits)
  have "\<exists>v. vmm_find_loop s (pmm_pages len) ?e (domain_low dm) 0 = Some v \<and>
    (v \<noteq> 0 \<longrightarrow> (\<exists>q. v = page_addr q \<and> domain_low dm \<le> q \<and> q + n \<le> Suc ?e \<and> (\<forall>k<n. ?g (q + k) = 0)))"
  proof (rule vmm_find_loop_sound)
    show "vmm_get_physical_address s (page_addr i) = Some (?g i)" if "i \<le> ?e" for i
      using get_physical_address_page[OF assms(1,2), of i] that e(2) by simp
    show "unat (pmm_pages len) = n" by (simp add: n_def)
    show "unat (0 :: u32) < n" "n \<le> 1048576" using pmm_pages_bounds[OF assms(3)] by (simp_all add: n_def)
  qed (use e(2) in simp_all)
  then obtain v where v: "vmm_find_loop s (pmm_pages len) ?e (domain_low dm) 0 = Some v"
    "v \<noteq> 0 \<Longrightarrow> \<exists>q. v = page_addr q \<and> domain_low dm \<le> q \<and> q + n \<le> Suc ?e \<and> (\<forall>k<n. ?g (q + k) = 0)"
    by blast
  have "vmm_find_free s len dm = Some v"
    using v(1) assms(3) by (simp add: vmm_find_free_def domain_pages(1))
  then show ?thesis using v(2) that unfolding e(1) g by blast
qed

text \<open>
  \<open>vmm_find_free\<close> always returns; a nonzero result is the page-aligned start of a run of pages
  that lies inside the requested domain and none of which is mapped (or is mapped to frame 0,
  which the code cannot tell from unmapped).
\<close>

theorem vmm_find_free_sound:
  assumes "vmm_ok s d" "cr0_pg s" "len \<noteq> 0"
  shows "\<exists>v. vmm_find_free s len dm = Some v \<and>
    (v \<noteq> 0 \<longrightarrow> (\<exists>q. v = page_addr q \<and> domain_low dm \<le> q \<and>
       q + unat (pmm_pages len) \<le> domain_high dm \<and> (\<forall>k<unat (pmm_pages len). page_free s d (q + k))))"
  using vmm_find_free_run[OF assms, of dm] by metis

theorem vmm_find_free_sound_witness:
  "\<exists>v. vmm_find_free example_mm 4096 kernel_domain = Some v \<and>
    (v = 0 \<or> (\<exists>q. v = page_addr q \<and> domain_low kernel_domain \<le> q \<and> page_free example_mm 1 q))"
proof -
  have n: "unat (pmm_pages 4096) = 1" by (simp add: unat_pmm_pages)
  have "cr0_pg example_mm" "(4096 :: u32) \<noteq> 0" by (simp_all add: example_mm_def)
  then show ?thesis
    using vmm_find_free_sound[OF example_mm_ok, of 4096 kernel_domain] unfolding n by (metis add_0_right less_one)
qed

subsection \<open>Mapping a range below existing tables\<close>

definition has_table :: "'a mm_scheme \<Rightarrow> 20 word \<Rightarrow> nat \<Rightarrow> bool" where
  "has_table s d q \<longleftrightarrow> entry_pr (pmem s d (of_nat (q div 1024)))"

text \<open>\<open>same_tables\<close>: what mapping below existing tables leaves alone.\<close>

definition same_tables :: "'a mm_scheme \<Rightarrow> 20 word \<Rightarrow> 'a mm_scheme \<Rightarrow> bool" where
  "same_tables s d t \<longleftrightarrow> extends s d t \<and> pmem t d = pmem s d \<and> frame_state t = frame_state s"

lemma same_tables_refl: "vmm_ok s d \<Longrightarrow> same_tables s d s"
  by (simp add: same_tables_def extends_refl)

lemma same_tables_trans: "same_tables s d t \<Longrightarrow> same_tables t d u \<Longrightarrow> same_tables s d u"
  using extends_trans[of s d t u] by (simp add: same_tables_def)

lemma vmm_map_free_page:
  assumes ok: "vmm_ok s d" and q: "q < 1047552" and pr: "has_table s d q"
    and dc: "vmm_domain_check s (page_addr q) flags" and free: "page_map s d q = None"
  shows "\<exists>t. vmm_map (page_addr q) pa flags s = Some (True, t) \<and> same_tables s d t \<and>
    (\<exists>e. page_map t d q = Some e \<and> maps_to e pa flags) \<and>
    (\<forall>r<1047552. r \<noteq> q \<longrightarrow> page_map t d r = page_map s d r)"
proof -
  let ?va = "page_addr q"
  have q': "q < 1048576" using q by simp
  have i: "dir_index ?va \<noteq> 1023" by (rule dir_index_low[OF q])
  have pr': "entry_pr (pmem s d (dir_index ?va))" using pr q' by (simp add: has_table_def page_addr_index)
  have eq: "vmm_map ?va pa flags s = Some (set_table_entry d ?va pa flags s)"
    by (rule vmm_map_eq[OF ok dc]) (simp_all add: pr' vmm_okD(1)[OF ok])
  obtain r t where st: "set_table_entry d ?va pa flags s = (r, t)" by force
  note sp = set_table_entry_spec[OF ok i pr' st]
  have r: r using sp(1) free by (simp add: lookup_page_addr[OF q'])
  have "entry_frame (pmem s d (dir_index ?va)) \<noteq> d" by (rule vmm_okD(4)[OF ok i pr'])
  then have "pmem t d = pmem s d \<and> frame_state t = frame_state s"
    using st by (auto simp: set_table_entry_def Let_def mmu_flush_tlb_def frame_state_def pmm_bitmap_get_def
        poke_def split: if_splits)
  then have same: "same_tables s d t" using sp(3) by (simp add: same_tables_def)
  obtain m where m: "maps_to m pa flags" "\<And>i' j'. i' \<noteq> 1023 \<Longrightarrow> lookup t d i' j' =
      (if i' = dir_index ?va \<and> j' = tab_index ?va then Some m else lookup s d i' j')"
    using sp(5)[OF r] by blast
  have "page_map t d x = (if x = q then Some m else page_map s d x)" if x: "x < 1047552" for x
  proof -
    have x': "x < 1048576" using x by simp
    have "page_map t d x = lookup t d (dir_index (page_addr x)) (tab_index (page_addr x))"
      by (simp only: lookup_page_addr[OF x'])
    also have "\<dots> = (if x = q then Some m else lookup s d (dir_index (page_addr x)) (tab_index (page_addr x)))"
      using m(2)[OF dir_index_low[OF x]] dir_index_of_nat_eq[OF x' q']
      by (simp only: page_addr_index[OF x'] page_addr_index[OF q'])
    finally show ?thesis by (simp only: lookup_page_addr[OF x'])
  qed
  then show ?thesis unfolding eq st using r same m(1) q by auto
qed

lemma vmm_map_loop_spec:
  assumes "vmm_ok s d" "q + n \<le> 1047552"
    and "\<And>k. k < n \<Longrightarrow> has_table s d (q + k) \<and> page_map s d (q + k) = None \<and>
           vmm_domain_check s (page_addr (q + k)) flags"
  shows "\<exists>t. vmm_map_loop n (of_nat q) (of_nat f) flags s = Some t \<and> same_tables s d t \<and>
    (\<forall>k<n. \<exists>e. page_map t d (q + k) = Some e \<and> maps_to e (page_addr (f + k)) flags) \<and>
    (\<forall>r<1047552. r < q \<or> q + n \<le> r \<longrightarrow> page_map t d r = page_map s d r)"
  using assms
proof (induction n arbitrary: q f s)
  case 0
  then show ?case by (simp add: same_tables_refl)
next
  case (Suc n)
  from Suc.prems(2) Suc.prems(3)[of 0] have q: "q < 1047552" "has_table s d q" "page_map s d q = None"
    "vmm_domain_check s (page_addr q) flags" by simp_all
  obtain s1 e where s1: "vmm_map (page_addr q) (page_addr f) flags s = Some (True, s1)"
    "same_tables s d s1" "page_map s1 d q = Some e" "maps_to e (page_addr f) flags"
    "\<And>r. r < 1047552 \<Longrightarrow> r \<noteq> q \<Longrightarrow> page_map s1 d r = page_map s d r"
    using vmm_map_free_page[OF Suc.prems(1) q(1,2,4,3), of "page_addr f"] by auto
  have ok1: "vmm_ok s1 d" and dce: "domain_check_enabled s1 = domain_check_enabled s"
    and tab: "pmem s1 d = pmem s d"
    using s1(2) extendsD[of s d s1] by (simp_all add: same_tables_def)
  have "has_table s1 d (Suc q + k) \<and> page_map s1 d (Suc q + k) = None \<and>
      vmm_domain_check s1 (page_addr (Suc q + k)) flags" if "k < n" for k
    using Suc.prems(3)[of "Suc k"] s1(5)[of "Suc q + k"] that Suc.prems(2) dce tab
    by (simp add: has_table_def vmm_domain_check_def split: if_splits)
  with Suc.IH[OF ok1, of "Suc q" "Suc f"] Suc.prems(2) obtain t where
    t: "vmm_map_loop n (of_nat (Suc q)) (of_nat (Suc f)) flags s1 = Some t" "same_tables s1 d t"
      "\<And>k. k < n \<Longrightarrow> \<exists>e. page_map t d (Suc q + k) = Some e \<and> maps_to e (page_addr (Suc f + k)) flags"
      "\<And>r. r < 1047552 \<Longrightarrow> r < Suc q \<or> Suc q + n \<le> r \<Longrightarrow> page_map t d r = page_map s1 d r"
    by auto
  have "vmm_map_loop (Suc n) (of_nat q) (of_nat f) flags s = Some t"
    using s1(1) t(1) by (simp add: add.commute)
  moreover have "same_tables s d t" by (rule same_tables_trans[OF s1(2) t(2)])
  moreover have "\<exists>e. page_map t d (q + k) = Some e \<and> maps_to e (page_addr (f + k)) flags" if "k < Suc n" for k
    using t(3)[of "k - 1"] t(4)[of q] s1(3,4) q(1) that by (cases k) auto
  moreover have "page_map t d r = page_map s d r" if "r < 1047552" "r < q \<or> q + Suc n \<le> r" for r
    using t(4)[of r] s1(5)[of r] that by auto
  ultimately show ?case by blast
qed

subsection \<open>vmm_alloc\<close>

lemma frame_used_pmm_use:
  assumes "flags \<noteq> PMM_UNUSED" "frame_used s g"
  shows "frame_used (pmm_use p len flags s) g"
proof (cases "len = 0")
  case False
  then show ?thesis
    using assms ucast_page_less[of g] by (simp add: frame_used_def frame_state_pmm_use)
qed (use assms in \<open>simp add: pmm_use_def\<close>)

lemma vmm_ok_pmm_use:
  assumes "vmm_ok s d" "flags \<noteq> PMM_UNUSED"
  shows "vmm_ok (pmm_use p len flags s) d"
proof -
  have "dir_view (pmm_use p len flags s) d" by (rule dir_view_cong[OF vmm_okD(1)[OF assms(1)]]) simp_all
  then show ?thesis
    using assms(1) frame_used_pmm_use[OF assms(2)] unfolding vmm_ok_def pmm_use_fields by blast
qed

lemma page_map_cong:
  assumes "pmem t = pmem s"
  shows "page_map t = page_map s"
  using lookup_cong[OF assms] by (simp add: page_map_def fun_eq_iff)

lemma pmm_alloc_zero: "pmm_alloc len flags s = (p, s') \<Longrightarrow> p = 0 \<Longrightarrow> s' = s"
  by (auto simp: pmm_alloc_def Let_def split: if_splits)

lemma owner_used: "vmm_get_pmm_flags flags \<noteq> PMM_UNUSED"
  by (simp add: vmm_get_pmm_flags_def)

lemma vmm_map_range_pages:
  assumes "len \<noteq> 0" "q + unat (pmm_pages len) \<le> 1047552" "f + unat (pmm_pages len) \<le> 1048576"
    and "vmm_domain_check s (page_addr q) flags"
  shows "vmm_map_range (page_addr q) (page_addr f) len flags s =
    vmm_map_loop (unat (pmm_pages len)) (of_nat q) (of_nat f) flags s"
proof -
  let ?n = "unat (pmm_pages len)"
  note b = pmm_pages_bounds[OF assms(1)]
  have "of_nat (q + ?n - 1) - of_nat q + 1 = (of_nat ?n :: u32)"
    using b(1) by (simp add: of_nat_diff del: of_nat_unat)
  then have pages: "unat (of_nat (q + ?n - Suc 0) - of_nat q + 1 :: u32) = ?n" by simp
  note rq = range_pages[OF assms(1), of q] and rf = range_pages[OF assms(1), of f]
  show ?thesis
    using assms(2-4) rq rf
    unfolding vmm_map_range_def vmm_map_range_detailed_def if_not_P[OF assms(1)]
    by (simp add: Let_def pages)
qed

text \<open>
  A directory is ready for allocations in a domain if paging is on, the page tables of the domain are in
  place and none of its pages is mapped to frame 0.
\<close>

definition alloc_ready :: "vmm_domain \<Rightarrow> 'a mm_scheme \<Rightarrow> 20 word \<Rightarrow> bool" where
  "alloc_ready dm s d \<longleftrightarrow> vmm_ok s d \<and> cr0_pg s \<and>
     (\<forall>q. domain_low dm \<le> q \<longrightarrow> q < domain_high dm \<longrightarrow>
        has_table s d q \<and> (page_free s d q \<longrightarrow> page_map s d q = None))"

lemma alloc_ready_cong:
  fixes s :: "'a mm_scheme" and t :: "'b mm_scheme"
  assumes "bitmap t = bitmap s" "pmem t = pmem s" "cr3 t = cr3 s" "cr0_pg t = cr0_pg s"
    "page_directory t = page_directory s"
  shows "alloc_ready dm t d \<longleftrightarrow> alloc_ready dm s d"
  by (simp add: alloc_ready_def vmm_ok_def dir_view_def frame_used_def frame_state_def pmm_bitmap_get_def
      has_table_def page_free_def page_map_def lookup_cong[OF assms(2)] assms)

definition alloc_effect :: "u32 \<Rightarrow> u32 \<Rightarrow> 20 word \<Rightarrow> 'a mm_scheme \<Rightarrow> nat \<Rightarrow> nat \<Rightarrow> 'a mm_scheme \<Rightarrow> bool" where
  "alloc_effect len flags d s q f t \<longleftrightarrow>
     (let n = unat (pmm_pages len); dm = vmm_get_domain flags in
      domain_low dm \<le> q \<and> q + n \<le> domain_high dm \<and> 0 < f \<and> f + n \<le> 1048576 \<and>
      (\<forall>k<n. page_map s d (q + k) = None \<and> frame_state s (of_nat (f + k)) = PMM_UNUSED \<and>
             frame_state t (of_nat (f + k)) = vmm_get_pmm_flags flags \<and>
             (\<exists>e. page_map t d (q + k) = Some e \<and> maps_to e (page_addr (f + k)) flags)) \<and>
      (\<forall>r<1047552. r < q \<or> q + n \<le> r \<longrightarrow> page_map t d r = page_map s d r) \<and>
      (\<forall>x<1048576. unat x < f \<or> f + n \<le> unat x \<longrightarrow> frame_state t x = frame_state s x))"

lemma frame_state_0_used: "vmm_ok s d \<Longrightarrow> frame_state s 0 \<noteq> PMM_UNUSED"
  using vmm_okD(3)[of s d] by (simp add: frame_used_def)

lemma phys_frame_page_addr: "x < 1048576 \<Longrightarrow> unat (phys_frame (page_addr x)) = x"
  by (simp add: unat_phys_frame unat_page_addr)

lemma vmm_map_fresh_run:
  fixes len flags :: u32
  defines "n \<equiv> unat (pmm_pages len)" and "dm \<equiv> vmm_get_domain flags"
  assumes ready: "alloc_ready dm s d" and len: "len \<noteq> 0" and run: "free_run s f n"
    and s1: "s1 = pmm_use (page_addr f) len (vmm_get_pmm_flags flags) s"
    and q: "domain_low dm \<le> q" "q + n \<le> domain_high dm" "\<And>k. k < n \<Longrightarrow> page_free s d (q + k)"
  shows "\<exists>t. vmm_map_range (page_addr q) (page_addr f) len flags s1 = Some t \<and> alloc_ready dm t d \<and>
    alloc_effect len flags d s q f t"
proof -
  have ok: "vmm_ok s d" and pg: "cr0_pg s" using ready by (simp_all add: alloc_ready_def)
  have ok1: "vmm_ok s1 d" unfolding s1 by (rule vmm_ok_pmm_use[OF ok owner_used])
  have pm1: "page_map s1 = page_map s" by (rule page_map_cong) (simp add: s1)
  have n: "0 < n" using pmm_pages_bounds[OF len] by (simp add: n_def)
  have fn: "f + n \<le> PAGE_NUMBER" using run by (simp add: free_run_def)
  have f: "0 < f" by (rule free_run_pos[OF frame_state_0_used[OF ok] run n])
  have dc: "vmm_domain_check s1 (page_addr (q + k)) flags" if "k < n" for k
    using page_addr_domain[of dm "q + k"] q(1,2) that by (simp add: vmm_domain_check_def dm_def)
  have none: "has_table s1 d (q + k) \<and> page_map s1 d (q + k) = None" if "k < n" for k
    using ready q(1,2) q(3)[OF that] that unfolding alloc_ready_def pm1 by (simp add: has_table_def s1)
  have high: "q + n \<le> 1047552" using q(2) domain_pages(4)[of dm] by simp
  obtain t where t: "vmm_map_loop n (of_nat q) (of_nat f) flags s1 = Some t" "same_tables s1 d t"
    "\<And>k. k < n \<Longrightarrow> \<exists>e. page_map t d (q + k) = Some e \<and> maps_to e (page_addr (f + k)) flags"
    "\<And>r. r < 1047552 \<Longrightarrow> r < q \<or> q + n \<le> r \<Longrightarrow> page_map t d r = page_map s d r"
    using vmm_map_loop_spec[OF ok1 high, of flags f] none dc unfolding pm1 by blast
  have eq: "vmm_map_range (page_addr q) (page_addr f) len flags s1 = Some t"
    using t(1) vmm_map_range_pages[OF len, of q f s1 flags] high fn dc[of 0] n by (simp add: n_def)
  have okt: "vmm_ok t d" and pgt: "cr0_pg t" and tabt: "pmem t d = pmem s d"
    using t(2) pg extendsD[of s1 d t] by (simp_all add: same_tables_def s1)
  have fs: "frame_state t x = (if f \<le> unat x \<and> unat x < f + n then vmm_get_pmm_flags flags
      else frame_state s x)" if "x < 1048576" for x
    using t(2) frame_state_use_run[OF len, of f x "vmm_get_pmm_flags flags" s] fn that
    unfolding n_def by (simp add: same_tables_def s1)
  have ft: "frame_state s (of_nat (f + k)) = PMM_UNUSED \<and>
      frame_state t (of_nat (f + k)) = vmm_get_pmm_flags flags" if "k < n" for k
  proof -
    have u: "unat (of_nat (f + k) :: u32) = f + k" using fn that by (subst unat_of_nat_small) simp_all
    then have "(of_nat (f + k) :: u32) < 1048576"
      using fn that unfolding word_less_nat_alt u by simp
    then show ?thesis using fs u run that by (simp add: free_run_def)
  qed
  have tabs: "has_table t d r \<and> (page_free t d r \<longrightarrow> page_map t d r = None)"
    if r: "domain_low dm \<le> r" "r < domain_high dm" for r
  proof (cases "q \<le> r \<and> r < q + n")
    case True
    then have "r - q < n" "q + (r - q) = r" by auto
    then obtain e where e: "page_map t d r = Some e" "maps_to e (page_addr (f + (r - q))) flags"
      using t(3)[of "r - q"] by metis
    have "f + (r - q) < 1048576" using True fn by auto
    then have "unat (entry_frame e) = f + (r - q)"
      using e(2) phys_frame_page_addr unfolding maps_to_def by metis
    then have "entry_frame e \<noteq> 0" using f by auto
    then show ?thesis using e(1) ready r by (simp add: page_free_def has_table_def tabt alloc_ready_def)
  next
    case False
    then have "page_map t d r = page_map s d r" using t(4)[of r] r(2) domain_pages(4)[of dm] by auto
    then show ?thesis using ready r by (simp add: page_free_def has_table_def tabt alloc_ready_def)
  qed
  have "alloc_ready dm t d" using okt pgt tabs by (simp add: alloc_ready_def)
  moreover have "alloc_effect len flags d s q f t"
    unfolding alloc_effect_def Let_def n_def[symmetric] dm_def[symmetric]
    using q(1,2) f fn none[unfolded pm1] t(3,4) fs ft by auto
  ultimately show ?thesis using eq by blast
qed

lemma vmm_alloc_spec:
  fixes len flags :: u32
  defines "dm \<equiv> vmm_get_domain flags"
  assumes ready: "alloc_ready dm s d"
  obtains va t where "vmm_alloc len flags s = Some (va, t)" "alloc_ready dm t d"
    "va = 0 \<longrightarrow> page_map t = page_map s"
    "va \<noteq> 0 \<longrightarrow> (\<exists>q f. va = page_addr q \<and> alloc_effect len flags d s q f t)"
proof -
  let ?n = "unat (pmm_pages len)"
  have ok: "vmm_ok s d" and pg: "cr0_pg s" using ready by (simp_all add: alloc_ready_def)
  obtain p s1 where al: "pmm_alloc len (vmm_get_pmm_flags flags) s = (p, s1)" by force
  have s1: "s1 = s \<or> s1 = pmm_use p len (vmm_get_pmm_flags flags) s"
    using al by (auto simp: pmm_alloc_def Let_def split: if_splits)
  have ok1: "vmm_ok s1 d" using s1 ok vmm_ok_pmm_use[OF ok owner_used] by auto
  have f1: "pmem s1 = pmem s" "cr0_pg s1" using s1 pg by auto
  have pm1: "page_map s1 = page_map s" by (rule page_map_cong[OF f1(1)])
  have fr1: "page_free s1 = page_free s" by (intro ext) (simp add: page_free_def pm1)
  obtain v where v: "vmm_find_free s1 len dm = Some v"
    "len \<noteq> 0 \<Longrightarrow> v \<noteq> 0 \<Longrightarrow> \<exists>q. v = page_addr q \<and> domain_low dm \<le> q \<and> q + ?n \<le> domain_high dm \<and>
       (\<forall>k<?n. page_free s d (q + k))"
  proof (cases "len = 0")
    case True
    then show ?thesis using that[of 0] by (simp add: vmm_find_free_def)
  next
    case False
    then show ?thesis using vmm_find_free_run[OF ok1 f1(2) False, of dm] that unfolding fr1 by metis
  qed
  show ?thesis
  proof (cases "p = 0 \<or> v = 0")
    case True
    have "vmm_alloc len flags s = Some (0, s1)"
      using al v(1) True by (simp add: vmm_alloc_def dm_def)
    moreover have "alloc_ready dm s1 d"
      using ready ok1 f1 pm1 fr1 by (simp add: alloc_ready_def has_table_def)
    ultimately show ?thesis using that pm1 by blast
  next
    case False
    obtain f where len: "len \<noteq> 0" and run: "free_run s f ?n" and p: "p = page_addr f"
      and use: "s1 = pmm_use p len (vmm_get_pmm_flags flags) s"
      using pmm_alloc_success[OF al] False by metis
    obtain q where q: "v = page_addr q" "domain_low dm \<le> q" "q + ?n \<le> domain_high dm"
      "\<And>k. k < ?n \<Longrightarrow> page_free s d (q + k)" using v(2)[OF len] False by blast
    obtain t where t: "vmm_map_range (page_addr q) (page_addr f) len flags s1 = Some t"
      "alloc_ready dm t d" "alloc_effect len flags d s q f t"
      using vmm_map_fresh_run[OF ready[unfolded dm_def] len run use[unfolded p] q(2-4)[unfolded dm_def]]
      unfolding dm_def by blast
    have "vmm_alloc len flags s = Some (v, t)"
      using al v(1) t(1) False by (simp add: vmm_alloc_def dm_def q(1) p)
    then show ?thesis using that t(2,3) q(1) False by blast
  qed
qed


lemma example_mm_ready: "alloc_ready kernel_domain example_mm 1"
proof -
  have e: "entry_frame 0x700003 \<noteq> 0" by (simp add: entry_frame_def)
  have pr: "entry_pr (pmem example_mm 1 i)" for i
    using example_table_entry(1)[of i] by (auto simp: example_mm_def entry_pr_def)
  have "lookup example_mm 1 i j = Some v \<Longrightarrow> v = 0x700003" if "i \<noteq> 1023" for i j v
    using that example_table_entry[of i] example_frame_bounds(1)[of i]
    by (auto simp: lookup_def Let_def example_mm_def split: if_splits)
  moreover have "(of_nat (q div 1024) :: 10 word) \<noteq> 1023" if "q < 1047552" for q
    using dir_index_low[OF that] that by (simp add: page_addr_index)
  ultimately have "page_map example_mm 1 q = Some v \<Longrightarrow> v = 0x700003" if "q < 1047552" for q v
    using that unfolding page_map_def by blast
  then have "has_table example_mm 1 q \<and> (page_free example_mm 1 q \<longrightarrow> page_map example_mm 1 q = None)"
    if "q < 1047552" for q
    using that e pr by (auto simp: has_table_def page_free_def split: option.splits)
  then show ?thesis
    using example_mm_ok by (auto simp: alloc_ready_def domain_high_def example_mm_def)
qed


subsection \<open>vmm_alloc as a source of fresh objects\<close>

definition page_live :: "20 word \<Rightarrow> 'a mm_scheme \<Rightarrow> ptr \<Rightarrow> bool" where
  "page_live d s p \<longleftrightarrow> (\<exists>q<1047552. p = page_addr q \<and> page_map s d q \<noteq> None)"

lemma page_addr_inject: "q < 1048576 \<Longrightarrow> r < 1048576 \<Longrightarrow> page_addr q = page_addr r \<longleftrightarrow> q = r"
  using unat_page_addr[of q] unat_page_addr[of r] by (auto simp: word_unat_eq_iff)

definition vmm_alloc_node :: "'a mm_scheme \<Rightarrow> (ptr \<times> 'a mm_scheme) option" where
  "vmm_alloc_node = vmm_alloc 12 VMM_KERNEL"

lemma vmm_alloc_node_spec:
  assumes "alloc_ready kernel_domain s d"
  obtains p t where "vmm_alloc_node s = Some (p, t)" "alloc_ready kernel_domain t d"
    "p \<noteq> 0 \<Longrightarrow> \<not> page_live d s p"
    "\<And>x. page_live d t x \<longleftrightarrow> page_live d s x \<or> (p \<noteq> 0 \<and> x = p)"
proof -
  have dm: "vmm_get_domain VMM_KERNEL = kernel_domain" by (simp add: vmm_get_domain_def)
  have n: "unat (pmm_pages 12) = 1" by (simp add: unat_pmm_pages)
  obtain p t where t: "vmm_alloc 12 VMM_KERNEL s = Some (p, t)" "alloc_ready kernel_domain t d"
    "p = 0 \<longrightarrow> page_map t = page_map s"
    "p \<noteq> 0 \<longrightarrow> (\<exists>q f. p = page_addr q \<and> alloc_effect 12 VMM_KERNEL d s q f t)"
    by (rule vmm_alloc_spec[of VMM_KERNEL s d 12, unfolded dm, OF assms])
  show ?thesis
  proof (cases "p = 0")
    case True
    then show ?thesis using that[of p t] t(1-3) by (simp add: vmm_alloc_node_def page_live_def)
  next
    case False
    then obtain q f where q: "p = page_addr q" "alloc_effect 12 VMM_KERNEL d s q f t" using t(4) by blast
    note e = q(2)[unfolded alloc_effect_def Let_def n dm]
    have ql: "q < 1047552" using e domain_pages(4)[of kernel_domain] by linarith
    have pq: "page_map s d q = None" "page_map t d q \<noteq> None" using e by force+
    have other: "page_map t d r = page_map s d r" if "r < 1047552" "r \<noteq> q" for r
    proof -
      have "r < q \<or> q + 1 \<le> r" using that by linarith
      then show ?thesis using e that(1) by blast
    qed
    have inj: "page_addr q = page_addr r \<longleftrightarrow> q = r" if "r < 1047552" for r
      using page_addr_inject[of q r] ql that by simp
    have fresh: "\<not> page_live d s p"
      using pq(1) inj unfolding page_live_def q(1) by metis
    have "page_live d t x \<longleftrightarrow> page_live d s x \<or> x = p" for x
      unfolding page_live_def q(1) using pq ql other inj by metis
    then show ?thesis using that[of p t] t(1,2) fresh False by (simp add: vmm_alloc_node_def)
  qed
qed

interpretation vm_nodes: fresh_allocator
  vmm_alloc_node "page_live d" "\<lambda>s. alloc_ready kernel_domain s d" for d
proof
  fix s p t x
  assume ready: "alloc_ready kernel_domain s d"
  show "\<exists>p t. vmm_alloc_node s = Some (p, t)" using vmm_alloc_node_spec[OF ready] by metis
  assume eq: "vmm_alloc_node s = Some (p, t)"
  show "alloc_ready kernel_domain t d" using vmm_alloc_node_spec[OF ready] eq by fastforce
  show "page_live d t x \<longleftrightarrow> page_live d s x \<or> (p \<noteq> 0 \<and> x = p)"
    using vmm_alloc_node_spec[OF ready] eq by (metis option.inject prod.inject)
  show "p \<noteq> 0 \<Longrightarrow> \<not> page_live d s p"
    using vmm_alloc_node_spec[OF ready] eq by (metis option.inject prod.inject)
qed

end
