(* ===== verification/VMM_Frame.thy ===== *)
theory VMM_Frame
  imports VMM_Alloc
begin

text \<open>
  What no operation of the virtual memory manager touches: the state of the other components
  (the fields that extend \<open>mm\<close>), the interrupt flag and the saved directory. On top of it, the
  bracket \<open>vmm_modify_page_directory\<close> / \<open>vmm_modified_page_directory\<close>.
\<close>

definition keeps :: "'a mm_scheme \<Rightarrow> 'a mm_scheme \<Rightarrow> bool" where
  "keeps s t \<longleftrightarrow> mm.more t = mm.more s \<and> eflags_if t = eflags_if s \<and> old_directory t = old_directory s \<and>
     old_interrupts t = old_interrupts s \<and> domain_check_enabled t = domain_check_enabled s"

named_theorems keeps_intros

lemma keeps_refl [simp]: "keeps s s"
  by (simp add: keeps_def)

lemma keeps_trans [trans]: "keeps s t \<Longrightarrow> keeps t u \<Longrightarrow> keeps s u"
  by (simp add: keeps_def)

lemma keeps_updates [simp]:
  "keeps s (t\<lparr>pmem := m\<rparr>) \<longleftrightarrow> keeps s t" "keeps s (t\<lparr>cr3 := c\<rparr>) \<longleftrightarrow> keeps s t"
  "keeps s (t\<lparr>cr0_pg := b\<rparr>) \<longleftrightarrow> keeps s t" "keeps s (t\<lparr>tlb_log := l\<rparr>) \<longleftrightarrow> keeps s t"
  "keeps s (t\<lparr>page_directory := p\<rparr>) \<longleftrightarrow> keeps s t"
  "keeps (s\<lparr>page_directory := p\<rparr>) t \<longleftrightarrow> keeps s t"
  by (simp_all add: keeps_def)

lemma keeps_pmm [simp]:
  "keeps s (pmm_use p len flags t) \<longleftrightarrow> keeps s t" "keeps s (pmm_free p len t) \<longleftrightarrow> keeps s t"
  by (simp_all add: keeps_def pmm_free_def)

lemma keeps_pmm_alloc [keeps_intros]: "pmm_alloc len flags s = (p, t) \<Longrightarrow> keeps s t"
  by (auto simp: pmm_alloc_def Let_def split: if_splits)

lemma keeps_mmu [simp]:
  "keeps s (mmu_flush_tlb va t) \<longleftrightarrow> keeps s t" "keeps s (mmu_load_page_directory p t) \<longleftrightarrow> keeps s t"
  "keeps s (mmu_enable_paging p t) \<longleftrightarrow> keeps s t"
  by (simp_all add: mmu_flush_tlb_def mmu_load_page_directory_def mmu_enable_paging_def keeps_def)

lemma keeps_store [keeps_intros]: "store va v s = Some t \<Longrightarrow> keeps s t"
  by (auto simp: store_def poke_def)

lemma keeps_memset [keeps_intros]: "memset_dwords n va v s = Some t \<Longrightarrow> keeps s t"
  by (induction n arbitrary: va s) (auto split: bind_splits dest: keeps_store intro: keeps_trans)

lemma keeps_memcpy [keeps_intros]: "memcpy_dwords n dst src s = Some t \<Longrightarrow> keeps s t"
  by (induction n arbitrary: dst src s) (auto split: bind_splits dest: keeps_store intro: keeps_trans)

lemma keeps_new_page_table [keeps_intros]: "vmm_new_page_table de va s = Some t \<Longrightarrow> keeps s t"
  unfolding vmm_new_page_table_def Let_def
  by (auto split: bind_splits prod.splits dest!: keeps_intros intro: keeps_trans)

lemma keeps_destroy_page_table [keeps_intros]: "vmm_destroy_page_table i s = Some t \<Longrightarrow> keeps s t"
  unfolding vmm_destroy_page_table_def Let_def
  using keeps_store[of _ 0 "pmm_free _ PAGE_SIZE s" t]
  by (auto split: bind_splits simp: keeps_def pmm_free_def)

lemma keeps_map [keeps_intros]: "vmm_map va pa flags s = Some (r, t) \<Longrightarrow> keeps s t"
  unfolding vmm_map_def Let_def
  by (auto split: bind_splits if_splits dest!: keeps_intros intro: keeps_trans)

lemma keeps_unmap [keeps_intros]: "vmm_unmap va s = Some t \<Longrightarrow> keeps s t"
  unfolding vmm_unmap_def Let_def
  by (auto split: bind_splits if_splits dest!: keeps_intros intro: keeps_trans)

lemma keeps_map_loop [keeps_intros]: "vmm_map_loop n vp pp flags s = Some t \<Longrightarrow> keeps s t"
  by (induction n arbitrary: vp pp s) (auto split: bind_splits dest: keeps_map intro: keeps_trans)

lemma keeps_unmap_loop [keeps_intros]: "vmm_unmap_loop n vp s = Some t \<Longrightarrow> keeps s t"
  by (induction n arbitrary: vp s) (auto split: bind_splits dest: keeps_unmap intro: keeps_trans)

lemma keeps_map_range [keeps_intros]:
  "vmm_map_range va pa len flags s = Some t \<Longrightarrow> keeps s t"
  "vmm_unmap_range va len s = Some t \<Longrightarrow> keeps s t"
  by (auto simp: vmm_map_range_def vmm_unmap_range_def vmm_map_range_detailed_def Let_def
      split: if_splits dest: keeps_map_loop keeps_unmap_loop)

lemma keeps_map_physical [keeps_intros]:
  "vmm_map_physical_memory pa len flags s = Some (va, t) \<Longrightarrow> keeps s t"
  "vmm_unmap_physical_memory va' len s = Some t \<Longrightarrow> keeps s t"
  by (auto simp: vmm_map_physical_memory_def vmm_unmap_physical_memory_def
      split: if_splits bind_splits dest: keeps_map_range)

lemma keeps_use [keeps_intros]: "vmm_use va pa len flags s = Some t \<Longrightarrow> keeps s t"
  using keeps_map_range(1)[of va pa len flags "pmm_use pa len (vmm_get_pmm_flags flags) s" t]
  by (auto simp: vmm_use_def keeps_def split: if_splits)

lemma keeps_use_virtual [keeps_intros]:
  "vmm_use_virtual_memory va len flags s = Some (pa, t) \<Longrightarrow> keeps s t"
  unfolding vmm_use_virtual_memory_def Let_def
  by (auto split: if_splits bind_splits prod.splits dest!: keeps_intros intro: keeps_trans)

lemma keeps_alloc [keeps_intros]: "vmm_alloc len flags s = Some (va, t) \<Longrightarrow> keeps s t"
  unfolding vmm_alloc_def Let_def
  by (auto split: if_splits bind_splits prod.splits dest!: keeps_intros intro: keeps_trans)

lemma keeps_free [keeps_intros]: "vmm_free va len s = Some t \<Longrightarrow> keeps s t"
  unfolding vmm_free_def by (auto split: if_splits bind_splits dest!: keeps_intros)

lemma keeps_create_directory [keeps_intros]: "vmm_create_page_directory s = Some (p, t) \<Longrightarrow> keeps s t"
  unfolding vmm_create_page_directory_def Let_def
  by (auto split: bind_splits prod.splits dest!: keeps_intros) (meson keeps_trans)

lemma keeps_destroy_loop [keeps_intros]: "vmm_destroy_loop n i s = Some t \<Longrightarrow> keeps s t"
  by (induction n arbitrary: i s)
     (auto split: bind_splits if_splits dest: keeps_destroy_page_table intro: keeps_trans)

lemma keeps_destroy_directory [keeps_intros]: "vmm_destroy_page_directory p s = Some t \<Longrightarrow> keeps s t"
  unfolding vmm_destroy_page_directory_def Let_def
  by (auto split: bind_splits prod.splits dest!: keeps_intros) (meson keeps_trans)

lemma keeps_refresh_directory [keeps_intros]: "vmm_refresh_page_directory p s = Some t \<Longrightarrow> keeps s t"
  unfolding vmm_refresh_page_directory_def Let_def
  by (auto split: bind_splits prod.splits dest!: keeps_intros) (meson keeps_trans)

lemma keeps_load_directory [keeps_intros]: "vmm_load_page_directory p s = Some (old, t) \<Longrightarrow> keeps s t"
  unfolding vmm_load_page_directory_def
  by (auto split: bind_splits if_splits prod.splits dest!: keeps_intros)

lemma keeps_fields:
  assumes "keeps s t"
  shows "mm.more t = mm.more s" "eflags_if t = eflags_if s" "old_directory t = old_directory s"
    "old_interrupts t = old_interrupts s" "domain_check_enabled t = domain_check_enabled s"
  using assms by (simp_all add: keeps_def)

subsection \<open>Working in another page directory\<close>

lemma modify_page_directory:
  assumes "vmm_modify_page_directory p s = Some t" "old_directory s = 0"
  shows "mm.more t = mm.more s" "\<not> eflags_if t" "old_interrupts t = eflags_if s"
    "domain_check_enabled t = domain_check_enabled s"
proof -
  let ?s = "s\<lparr>eflags_if := False, old_interrupts := eflags_if s\<rparr>"
  obtain old u where u: "vmm_load_page_directory p ?s = Some (old, u)" "t = u\<lparr>old_directory := old\<rparr>"
    using assms by (auto simp: vmm_modify_page_directory_def split: bind_splits)
  note k = keeps_fields[OF keeps_load_directory[OF u(1)]]
  show "mm.more t = mm.more s" "\<not> eflags_if t" "old_interrupts t = eflags_if s"
    "domain_check_enabled t = domain_check_enabled s"
    using k u(2) by simp_all
qed

lemma modified_page_directory:
  assumes "vmm_modified_page_directory s = Some t" "old_directory s \<noteq> 0"
  shows "mm.more t = mm.more s" "eflags_if t = old_interrupts s" "old_directory t = 0"
    "domain_check_enabled t = domain_check_enabled s"
proof -
  obtain old u where u: "vmm_load_page_directory (old_directory s) s = Some (old, u)"
    "t = u\<lparr>old_directory := 0, eflags_if := old_interrupts u\<rparr>"
    using assms by (auto simp: vmm_modified_page_directory_def Let_def split: bind_splits)
  note k = keeps_fields[OF keeps_load_directory[OF u(1)]]
  show "mm.more t = mm.more s" "eflags_if t = old_interrupts s" "old_directory t = 0"
    "domain_check_enabled t = domain_check_enabled s"
    using k u(2) by simp_all
qed

text \<open>
  The bracket \<^verbatim>\<open>vmm_modify_page_directory\<close> \dots \<^verbatim>\<open>vmm_modified_page_directory\<close>. Between the two
  calls interrupts are off; the closing call restores the interrupt flag the caller had, clears the
  saved directory so that the bracket can be used again, and leaves the other components alone,
  whatever virtual memory operations ran in between.
\<close>

theorem modify_bracket_restores_interrupts:
  assumes "old_directory s = 0" and "vmm_modify_page_directory p s = Some s1" and "old_directory s1 \<noteq> 0"
    and "keeps s1 s2" and "vmm_modified_page_directory s2 = Some s3"
  shows "\<not> eflags_if s1 \<and> eflags_if s3 = eflags_if s \<and> old_directory s3 = 0 \<and> mm.more s3 = mm.more s"
proof -
  note m = modify_page_directory[OF assms(2,1)] and k = keeps_fields[OF assms(4)]
  have "old_directory s2 \<noteq> 0" using k(3) assms(3) by simp
  note n = modified_page_directory[OF assms(5) this]
  show ?thesis using m n k by simp
qed

definition example_switch :: mm where
  "example_switch = full_mm\<lparr>cr0_pg := False, eflags_if := True\<rparr>"

theorem modify_bracket_restores_interrupts_witness:
  "\<exists>s1 s3. vmm_modify_page_directory 0x2000 example_switch = Some s1 \<and> \<not> eflags_if s1 \<and>
     vmm_modified_page_directory s1 = Some s3 \<and> eflags_if s3"
proof -
  let ?s1 = "example_switch\<lparr>cr3 := 0x2000, cr0_pg := True, eflags_if := False, tlb_log := [Flush_all],
    page_directory := VMM_PAGEDIR, old_directory := VMM_PAGEDIR, old_interrupts := True\<rparr>"
  have "vmm_modify_page_directory 0x2000 example_switch = Some ?s1"
    by (simp add: vmm_modify_page_directory_def vmm_load_page_directory_def vmm_get_physical_address_def
        mmu_get_paging_def mmu_enable_paging_def mmu_load_page_directory_def example_switch_def full_mm_def
        example_mm_def VMM_PAGEDIR_def)
  moreover have "vmm_modified_page_directory ?s1 = Some (?s1\<lparr>eflags_if := True, old_directory := 0\<rparr>)"
    by (simp add: vmm_modified_page_directory_def vmm_load_page_directory_def VMM_PAGEDIR_def Let_def)
  ultimately show ?thesis
    using modify_bracket_restores_interrupts[of example_switch "0x2000" ?s1 ?s1
        "?s1\<lparr>eflags_if := True, old_directory := 0\<rparr>"]
    by (simp add: example_switch_def full_mm_def example_mm_def VMM_PAGEDIR_def)
qed

end
