(* ===== verification/Descriptors.thy ===== *)
theory Descriptors
  imports Prelude
begin

unbundle bit_operations_syntax

text \<open>
  \<^verbatim>\<open>mem/gdt.c\<close>, \<^verbatim>\<open>tasks/tss.c\<close>, \<^verbatim>\<open>interrupts/idt.c\<close> and \<^verbatim>\<open>interrupts/pic.c\<close>: the tables the
  processor reads. The bit fields of the packed structures are record fields of their width; \<open>gdt_encode\<close>
  and \<open>idt_encode\<close> give the eight bytes that lie in memory. Writes to I/O ports are a list of
  (port, value) pairs in program order; the symbols of the assembly files (the interrupt stubs
  and the address of the TSS) are parameters.
\<close>

subsection \<open>The global descriptor table\<close>

record gdt_entry =
  limit0_15 :: u16
  base0_23 :: "24 word"
  gdt_ac :: bool
  gdt_rw :: bool
  gdt_dc :: bool
  gdt_ex :: bool
  gdt_dt :: bool
  gdt_dpl :: "2 word"
  gdt_pr :: bool
  limit16_19 :: "4 word"
  gdt_reserved :: "2 word"
  gdt_sz :: bool
  gdt_gr :: bool
  base24_31 :: u8

type_synonym gdt = "nat \<Rightarrow> gdt_entry"

definition GDT_RING0_CODE_SEG :: nat where [simp]: "GDT_RING0_CODE_SEG = 1"
definition GDT_RING0_DATA_SEG :: nat where [simp]: "GDT_RING0_DATA_SEG = 2"
definition GDT_RING3_CODE_SEG :: nat where [simp]: "GDT_RING3_CODE_SEG = 3"
definition GDT_RING3_DATA_SEG :: nat where [simp]: "GDT_RING3_DATA_SEG = 4"
definition GDT_TASK_STATE_SEG :: nat where [simp]: "GDT_TASK_STATE_SEG = 5"

definition gdt_init_entry :: "nat \<Rightarrow> u32 \<Rightarrow> u32 \<Rightarrow> gdt \<Rightarrow> gdt" where
  "gdt_init_entry i base limit g = g(i := (g i)
     \<lparr>base0_23 := ucast (base AND 0xFFFFFF), base24_31 := ucast (drop_bit 24 base AND 0xFF),
      limit0_15 := ucast (limit AND 0xFFFF), limit16_19 := ucast (drop_bit 16 limit AND 0xF),
      gdt_reserved := 0\<rparr>)"

text \<open>\<open>gdt_access\<close> is the row of assignments to the flags of one entry.\<close>

definition gdt_access ::
  "nat \<Rightarrow> bool \<Rightarrow> bool \<Rightarrow> bool \<Rightarrow> bool \<Rightarrow> bool \<Rightarrow> 2 word \<Rightarrow> bool \<Rightarrow> bool \<Rightarrow> bool \<Rightarrow> gdt \<Rightarrow> gdt" where
  "gdt_access i ac rw dc ex dt dpl pr sz gr g = g(i := (g i)
     \<lparr>gdt_ac := ac, gdt_rw := rw, gdt_dc := dc, gdt_ex := ex, gdt_dt := dt, gdt_dpl := dpl,
      gdt_pr := pr, gdt_sz := sz, gdt_gr := gr\<rparr>)"

definition gdt_get_selector :: "gdt \<Rightarrow> nat \<Rightarrow> u16" where
  "gdt_get_selector g i = ucast (gdt_dpl (g i)) OR push_bit 3 (of_nat i)"

record tss =
  esp0 :: u32
  ss0 :: u16

definition TSS_SIZE :: u32 where "TSS_SIZE = 104"

definition tss_init :: "u32 \<Rightarrow> gdt \<times> tss \<Rightarrow> gdt \<times> tss" where
  "tss_init tss_addr = (\<lambda>(g, t).
     let g = gdt_init_entry GDT_TASK_STATE_SEG tss_addr TSS_SIZE g;
         g = gdt_access 5 True False False True False 3 True True False g
     in (g, t\<lparr>ss0 := gdt_get_selector g GDT_RING0_DATA_SEG\<rparr>))"

definition tss_set_stack :: "u32 \<Rightarrow> tss \<Rightarrow> tss" where
  "tss_set_stack stack_pointer t = t\<lparr>esp0 := stack_pointer\<rparr>"

definition tss_load :: "gdt \<Rightarrow> u16" where
  "tss_load g = gdt_get_selector g GDT_TASK_STATE_SEG"

definition gdt_init :: "u32 \<Rightarrow> gdt \<times> tss \<Rightarrow> gdt \<times> tss" where
  "gdt_init tss_addr = (\<lambda>(g, t).
     let g = gdt_init_entry 0 0 0 g;
         g = gdt_init_entry GDT_RING0_CODE_SEG 0 0xFFFFF g;
         g = gdt_init_entry GDT_RING0_DATA_SEG 0 0xFFFFF g;
         g = gdt_init_entry GDT_RING3_CODE_SEG 0 0xFFFFF g;
         g = gdt_init_entry GDT_RING3_DATA_SEG 0 0xFFFFF g;
         g = gdt_access 0 False False False False False 0 False False False g;
         g = gdt_access 1 False True False True True 0 True True True g;
         g = gdt_access 2 False True False False True 0 True True True g;
         g = gdt_access 3 False True False True True 3 True True True g;
         g = gdt_access 4 False True False False True 3 True True True g
     in tss_init tss_addr (g, t))"

text \<open>The eight bytes of an entry as the processor reads them.\<close>

definition flag :: "nat \<Rightarrow> bool \<Rightarrow> 'a::len word" where
  "flag n b = (if b then pow2 n else 0)"

definition gdt_encode :: "gdt_entry \<Rightarrow> 64 word" where
  "gdt_encode e = ucast (limit0_15 e) OR push_bit 16 (ucast (base0_23 e)) OR
     flag 40 (gdt_ac e) OR flag 41 (gdt_rw e) OR flag 42 (gdt_dc e) OR flag 43 (gdt_ex e) OR
     flag 44 (gdt_dt e) OR push_bit 45 (ucast (gdt_dpl e)) OR flag 47 (gdt_pr e) OR
     push_bit 48 (ucast (limit16_19 e)) OR push_bit 52 (ucast (gdt_reserved e)) OR
     flag 54 (gdt_sz e) OR flag 55 (gdt_gr e) OR push_bit 56 (ucast (base24_31 e))"

definition gdt_base :: "64 word \<Rightarrow> u32" where
  "gdt_base w = ucast (drop_bit 16 w AND 0xFFFFFF) OR push_bit 24 (ucast (drop_bit 56 w))"

definition gdt_limit :: "64 word \<Rightarrow> u32" where
  "gdt_limit w = ucast (w AND 0xFFFF) OR push_bit 16 (ucast (drop_bit 48 w AND 0xF))"

lemma bit_flag [simp]: "bit (flag n b :: 'a::len word) k \<longleftrightarrow> b \<and> k = n \<and> n < LENGTH('a)"
  by (auto simp: flag_def)

lemma gdt_base_encode:
  "gdt_base (gdt_encode e) = ucast (base0_23 e) OR push_bit 24 (ucast (base24_31 e))"
  unfolding gdt_base_def gdt_encode_def mask_consts
  by (rule word_eq_split[where k = 24 and l = 8]) (simp_all add: bit_simps bit_beyond)

lemma gdt_limit_encode:
  "gdt_limit (gdt_encode e) = ucast (limit0_15 e) OR push_bit 16 (ucast (limit16_19 e))"
  unfolding gdt_limit_def gdt_encode_def mask_consts
  by (rule word_eq_split[where k = 16 and l = 4]) (simp_all add: bit_simps bit_beyond)

lemma split_base:
  "(ucast (ucast (b AND 0xFFFFFF) :: 24 word) OR push_bit 24 (ucast (ucast (drop_bit 24 b AND 0xFF) :: u8)) :: u32) = b"
  unfolding mask_consts
  by (rule word_eq_split[where k = 24 and l = 8]) (simp_all add: bit_simps bit_beyond)

lemma split_limit:
  "(ucast (ucast (l AND 0xFFFF) :: u16) OR push_bit 16 (ucast (ucast (drop_bit 16 l AND 0xF) :: 4 word)) :: u32) =
   l AND 0xFFFFF"
  unfolding mask_consts
  by (rule word_eq_split[where k = 16 and l = 4]) (simp_all add: bit_simps bit_beyond)

lemmas gdt_fields = gdt_base_encode gdt_limit_encode split_base split_limit

text \<open>
  Splitting a segment base and limit over the fields of a descriptor loses nothing the
  format can hold: the processor reads back the base as it was given and the low 20 bits of the limit.
\<close>

theorem gdt_init_entry_roundtrip:
  "gdt_base (gdt_encode (gdt_init_entry i base limit g i)) = base \<and>
   gdt_limit (gdt_encode (gdt_init_entry i base limit g i)) = limit AND 0xFFFFF"
  by (simp add: gdt_init_entry_def gdt_fields)

lemmas gdt_init_defs = gdt_init_def tss_init_def gdt_init_entry_def gdt_access_def Let_def


subsection \<open>The interrupt descriptor table\<close>

record idt_entry =
  func0_15 :: u16
  idt_selector :: u16
  idt_reserved :: u8
  idt_type :: "4 word"
  idt_st :: bool
  idt_dpl :: "2 word"
  idt_pr :: bool
  func16_31 :: u16

type_synonym idt = "nat \<Rightarrow> idt_entry"

datatype idt_entry_type = TASK_32 | INTR_16 | TRAP_16 | INTR_32 | TRAP_32

fun idt_type_code :: "idt_entry_type \<Rightarrow> 4 word" where
  "idt_type_code TASK_32 = 0x5"
| "idt_type_code INTR_16 = 0x6"
| "idt_type_code TRAP_16 = 0x7"
| "idt_type_code INTR_32 = 0xE"
| "idt_type_code TRAP_32 = 0xF"

definition idt_init_entry ::
  "nat \<Rightarrow> u32 \<Rightarrow> u32 \<Rightarrow> idt_entry_type \<Rightarrow> bool \<Rightarrow> 2 word \<Rightarrow> bool \<Rightarrow> idt \<Rightarrow> idt" where
  "idt_init_entry i func selector type st dpl pr t = t(i := (t i)
     \<lparr>func0_15 := ucast (func AND 0xFFFF), func16_31 := ucast (drop_bit 16 func AND 0xFFFF),
      idt_selector := ucast selector, idt_reserved := 0, idt_type := idt_type_code type,
      idt_st := st, idt_dpl := dpl, idt_pr := pr\<rparr>)"

definition idt_init_entry_isr :: "gdt \<Rightarrow> nat \<Rightarrow> u32 \<Rightarrow> 2 word \<Rightarrow> idt \<Rightarrow> idt" where
  "idt_init_entry_isr g i func dpl t =
     idt_init_entry i func (ucast (gdt_get_selector g GDT_RING0_CODE_SEG)) INTR_32 False dpl True t"

definition idt_init :: "gdt \<Rightarrow> (nat \<Rightarrow> u32) \<Rightarrow> idt \<Rightarrow> idt" where
  "idt_init g isr_intr t =
     idt_init_entry_isr g 0x30 (isr_intr 0x30) 3
       (fold (\<lambda>n. idt_init_entry_isr g n (isr_intr n) 0) [0..<0x30] t)"

text \<open>The eight bytes of a gate, and the three things the processor takes from it.\<close>

definition idt_encode :: "idt_entry \<Rightarrow> 64 word" where
  "idt_encode e = ucast (func0_15 e) OR push_bit 16 (ucast (idt_selector e)) OR
     push_bit 32 (ucast (idt_reserved e)) OR push_bit 40 (ucast (idt_type e)) OR flag 44 (idt_st e) OR
     push_bit 45 (ucast (idt_dpl e)) OR flag 47 (idt_pr e) OR push_bit 48 (ucast (func16_31 e))"

definition gate_offset :: "64 word \<Rightarrow> u32" where
  "gate_offset w = ucast (w AND 0xFFFF) OR push_bit 16 (ucast (drop_bit 48 w))"

definition gate_selector :: "64 word \<Rightarrow> u16" where
  "gate_selector w = ucast (drop_bit 16 w)"

definition gate_access :: "64 word \<Rightarrow> u8" where
  "gate_access w = ucast (drop_bit 40 w)"

lemma gate_encode:
  "gate_offset (idt_encode e) = ucast (func0_15 e) OR push_bit 16 (ucast (func16_31 e))"
  "gate_selector (idt_encode e) = idt_selector e"
  "gate_access (idt_encode e) = ucast (idt_type e) OR flag 4 (idt_st e) OR
     push_bit 5 (ucast (idt_dpl e)) OR flag 7 (idt_pr e)"
proof -
  show "gate_offset (idt_encode e) = ucast (func0_15 e) OR push_bit 16 (ucast (func16_31 e))"
    unfolding gate_offset_def idt_encode_def mask_consts
    by (rule word_eq_split[where k = 16 and l = 16]) (simp_all add: bit_simps bit_beyond)
  show "gate_selector (idt_encode e) = idt_selector e"
    unfolding gate_selector_def idt_encode_def
    by (rule word_eq_split[where k = 16 and l = 0]) (simp_all add: bit_simps bit_beyond)
  show "gate_access (idt_encode e) = ucast (idt_type e) OR flag 4 (idt_st e) OR
     push_bit 5 (ucast (idt_dpl e)) OR flag 7 (idt_pr e)"
    unfolding gate_access_def idt_encode_def
    by (rule word_eq_split[where k = 4 and l = 4]) (auto simp: bit_simps bit_beyond)
qed

lemma idt_fold:
  "fold (\<lambda>n. idt_init_entry_isr g n (f n) dpl) [0..<k] t m =
   (if m < k then idt_init_entry_isr g m (f m) dpl t m else t m)"
  by (induction k) (auto simp: idt_init_entry_isr_def idt_init_entry_def less_Suc_eq)

lemma idt_build:
  "idt_init_entry_isr g k f3 3 (fold (\<lambda>n. idt_init_entry_isr g n (f n) 0) [0..<k] t) n =
   (if n = k then idt_init_entry_isr g k f3 3 (fold (\<lambda>n. idt_init_entry_isr g n (f n) 0) [0..<k] t) k
    else if n < k then idt_init_entry_isr g n (f n) 0 t n else t n)"
proof (cases "n = k")
  case False
  then have "idt_init_entry_isr g k f3 3 u n = u n" for u
    by (simp add: idt_init_entry_isr_def idt_init_entry_def)
  then show ?thesis using False by (simp add: idt_fold)
qed simp

lemma split_func:
  "(ucast (ucast (f AND 0xFFFF) :: u16) OR push_bit 16 (ucast (ucast (drop_bit 16 f AND 0xFFFF) :: u16)) :: u32) = f"
  unfolding mask_consts
  by (rule word_eq_split[where k = 16 and l = 16]) (simp_all add: bit_simps bit_beyond)

lemma ucast_16_32_16: "ucast (ucast (x :: u16) :: u32) = x"
  by (rule bit_word_eqI) (simp add: bit_simps)

text \<open>
  C35: After \<^verbatim>\<open>idt_init\<close> the vectors 0 to 0x30 lead to their own stub through a present 32-bit
  interrupt gate in the kernel code segment; only the system call vector 0x30 may be raised from ring 3,
  and no other entry is touched.
\<close>

theorem idt_init_gates:
  "let e = idt_init g isr_intr t n; w = idt_encode e in
   if n \<le> 0x30 then gate_offset w = isr_intr n \<and> gate_selector w = gdt_get_selector g GDT_RING0_CODE_SEG \<and>
     gate_access w = (if n = 0x30 then 0xEE else 0x8E)
   else e = t n"
proof -
  have g: "gate_offset (idt_encode (idt_init_entry_isr g m f dpl t' m)) = f \<and>
      gate_selector (idt_encode (idt_init_entry_isr g m f dpl t' m)) = gdt_get_selector g GDT_RING0_CODE_SEG"
    for m f dpl t'
    by (simp add: idt_init_entry_isr_def idt_init_entry_def gate_encode split_func ucast_16_32_16)
  have a: "gate_access (idt_encode (idt_init_entry_isr g m f dpl t' m)) =
      0x8E OR push_bit 5 (ucast dpl)" for m f dpl t'
  proof -
    have "14 OR y OR 128 = (14 OR 128) OR y" for y :: u8 by (simp only: or.assoc or.commute or.left_commute)
    then show ?thesis
      by (simp add: idt_init_entry_isr_def idt_init_entry_def gate_encode flag_def pow2_def)
  qed
  define t' where "t' = fold (\<lambda>n. idt_init_entry_isr g n (isr_intr n) 0) [0..<0x30] t"
  have e: "idt_init g isr_intr t n =
      (if n = 0x30 then idt_init_entry_isr g 0x30 (isr_intr 0x30) 3 t' 0x30
       else if n < 0x30 then idt_init_entry_isr g n (isr_intr n) 0 t n else t n)"
    unfolding idt_init_def t'_def by (rule idt_build)
  show ?thesis
    unfolding e Let_def by (simp add: g a del: GDT_RING0_CODE_SEG_def)
qed

subsection \<open>The registers of the tables\<close>

text \<open>What \<^verbatim>\<open>lgdt\<close> and \<^verbatim>\<open>lidt\<close> load: \<^verbatim>\<open>gdtr_t\<close> and \<^verbatim>\<open>idtr_t\<close> with the address of the table.\<close>

record gdtr =
  gdtr_limit :: u16
  gdtr_base :: u32

record idtr =
  idtr_limit :: u16
  idtr_base :: u32

definition GDT_ENTRIES :: nat where "GDT_ENTRIES = 6"

definition gdt_load :: "u32 \<Rightarrow> gdtr" where
  "gdt_load gdt = \<lparr>gdtr_limit = of_nat (GDT_ENTRIES * 8 - 1), gdtr_base = gdt\<rparr>"

definition idt_load :: "u32 \<Rightarrow> idtr" where
  "idt_load idt = \<lparr>idtr_limit = of_nat (256 * 8 - 1), idtr_base = idt\<rparr>"

text \<open>
  The limit is the offset of the last byte of the table, as the processor wants it and not the number of entries that the
  comments at the fields speak of: the bytes of entry \<open>n\<close> lie within the limit exactly for the entries of the table.
\<close>

lemma table_limits:
  "8 * n + 7 \<le> unat (gdtr_limit (gdt_load gdt)) \<longleftrightarrow> n < GDT_ENTRIES"
  "8 * n + 7 \<le> unat (idtr_limit (idt_load idt)) \<longleftrightarrow> n < 256"
  by (auto simp: gdt_load_def idt_load_def GDT_ENTRIES_def)

subsection \<open>The interrupt controllers\<close>

type_synonym outs = "(u16 \<times> u8) list"

definition PIC1_CMD :: u16 where [simp]: "PIC1_CMD = 0x20"
definition PIC1_DATA :: u16 where [simp]: "PIC1_DATA = 0x21"
definition PIC2_CMD :: u16 where [simp]: "PIC2_CMD = 0xA0"
definition PIC2_DATA :: u16 where [simp]: "PIC2_DATA = 0xA1"
definition PIC_EOI :: u8 where [simp]: "PIC_EOI = 0x20"
definition INT_IRQ0 :: u8 where [simp]: "INT_IRQ0 = 0x20"
definition INT_IRQ8 :: u8 where [simp]: "INT_IRQ8 = 0x28"

definition pic_init :: outs where
  "pic_init =
     [(PIC1_CMD, 0x11), (PIC1_DATA, INT_IRQ0), (PIC1_DATA, 0x04), (PIC1_DATA, 0x01), (PIC1_DATA, 0x00),
      (PIC2_CMD, 0x11), (PIC2_DATA, INT_IRQ8), (PIC2_DATA, 0x02), (PIC2_DATA, 0x01), (PIC2_DATA, 0x00)]"

text \<open>The difference is computed in \<^verbatim>\<open>int\<close>, so it is negative for an exception vector.\<close>

definition pic_send_eoi :: "u8 \<Rightarrow> outs" where
  "pic_send_eoi intr =
     (if 8 \<le> uint intr - uint INT_IRQ0 then [(PIC2_CMD, PIC_EOI)] else []) @ [(PIC1_CMD, PIC_EOI)]"

end
