(* ===== verification/Task.thy ===== *)
theory Task
  imports VMM_Frame Descriptors
begin

unbundle bit_operations_syntax

text \<open>
  \<^verbatim>\<open>tasks/task.c\<close>: the task table, the creation and destruction of tasks and the search for the
  next task. The state \<open>os\<close> extends the machine of the memory manager. The structures that
  the code reaches through pointers (\<^verbatim>\<open>task_t\<close>, the CPU states on the kernel stacks) lie in the kernel
  domain, which all page directories share; they are kept in stores indexed by their virtual
  address. Dereferencing the null pointer of an empty slot is \<open>None\<close>, and so is the panic of
  \<^verbatim>\<open>task_add\<close>. PIDs are \<open>nat\<close>: the code only ever counts them up to \<^verbatim>\<open>MAX_TASKS\<close>.
\<close>

subsection \<open>State\<close>

record registers =
  edi :: u32
  esi :: u32
  ebp :: u32
  esp :: u32
  ebx :: u32
  edx :: u32
  ecx :: u32
  eax :: u32

record cpu_state =
  gs :: u16
  fs :: u16
  es :: u16
  ds :: u16
  r :: registers
  intr :: u32
  error :: u32
  eip :: u32
  cs :: u16
  eflags :: u32
  user_esp :: u32
  user_ss :: u32
  vm86_es :: u16
  vm86_ds :: u16
  vm86_fs :: u16
  vm86_gs :: u16

text \<open>\<^verbatim>\<open>sizeof(cpu_state_t)\<close> and \<^verbatim>\<open>sizeof(task_t)\<close>.\<close>

definition CPU_STATE_SIZE :: u32 where "CPU_STATE_SIZE = 92"
definition TASK_SIZE :: u32 where "TASK_SIZE = 40"

text \<open>The bits of \<^verbatim>\<open>isr_eflags_t\<close> that the kernel sets.\<close>

definition EFLAGS_RESERVED :: u32 where "EFLAGS_RESERVED = pow2 1"
definition EFLAGS_IF :: u32 where "EFLAGS_IF = pow2 9"
definition EFLAGS_VM :: u32 where "EFLAGS_VM = pow2 17"

datatype task_state = TASK_STOPPED | TASK_RUNNING

record task =
  task_state :: task_state
  task_page_directory :: ptr
  kernel_stack :: ptr
  user_stack :: ptr
  kernel_stack_len :: u32
  user_stack_len :: u32
  task_cpu :: ptr
  task_ticks :: u32
  task_vm86 :: bool
  task_elf :: ptr

type_synonym pid = nat

definition MAX_TASKS :: nat where "MAX_TASKS = 1024"

record os = mm +
  tasks :: "pid \<Rightarrow> ptr"
  task_store :: "ptr \<Rightarrow> task"
  cpu_store :: "ptr \<Rightarrow> cpu_state"
  current_task :: pid
  ticks_per_time_slice :: u32
  gdt_table :: gdt
  tss :: tss

subsection \<open>The task table\<close>

definition task_get :: "'a os_scheme \<Rightarrow> pid \<Rightarrow> task option" where
  "task_get s p = (if tasks s p = 0 then None else Some (task_store s (tasks s p)))"

text \<open>\<open>task_update\<close> is an assignment through the pointer that \<^verbatim>\<open>task_get\<close> returns.\<close>

definition task_update :: "pid \<Rightarrow> (task \<Rightarrow> task) \<Rightarrow> 'a os_scheme \<Rightarrow> 'a os_scheme option" where
  "task_update p f s =
     (if tasks s p = 0 then None
      else Some (s\<lparr>task_store := (task_store s)(tasks s p := f (task_store s (tasks s p)))\<rparr>))"

text \<open>The loop of \<^verbatim>\<open>task_add\<close> tests the slot before the bound.\<close>

function task_free_slot :: "(pid \<Rightarrow> ptr) \<Rightarrow> pid \<Rightarrow> pid" where
  "task_free_slot ts p = (if ts p \<noteq> 0 \<and> p < MAX_TASKS then task_free_slot ts (Suc p) else p)"
  by pat_completeness auto
termination by (relation "measure (\<lambda>(ts, p). MAX_TASKS - p)") auto

declare task_free_slot.simps [simp del]

definition task_add :: "ptr \<Rightarrow> 'a os_scheme \<Rightarrow> (pid \<times> 'a os_scheme) option" where
  "task_add t s =
     (let p = task_free_slot (tasks s) 1
      in if p = MAX_TASKS then None else Some (p, s\<lparr>tasks := (tasks s)(p := t)\<rparr>))"

definition task_remove :: "pid \<Rightarrow> 'a os_scheme \<Rightarrow> 'a os_scheme" where
  "task_remove p s = s\<lparr>tasks := (tasks s)(p := 0)\<rparr>"

subsection \<open>Creating and destroying tasks\<close>

text \<open>
  The assignments to the task structure at \<open>t\<close> and to the CPU state at the top of its kernel
  stack (\<^verbatim>\<open>task.c\<close>, lines 84 to 113).
\<close>

definition task_prepare ::
  "ptr \<Rightarrow> ptr \<Rightarrow> ptr \<Rightarrow> u32 \<Rightarrow> ptr \<Rightarrow> u32 \<Rightarrow> ptr \<Rightarrow> ptr \<Rightarrow> nat \<Rightarrow> nat \<Rightarrow> 'a os_scheme \<Rightarrow> 'a os_scheme" where
  "task_prepare t dir kstack kernel_len ustack user_len elf entry_point code_segment data_segment s =
     (let cpu = kstack + kernel_len - 1 - CPU_STATE_SIZE;
          data = gdt_get_selector (gdt_table s) data_segment
      in s\<lparr>task_store := (task_store s)(t := (task_store s t)
             \<lparr>task_page_directory := dir, task_state := TASK_RUNNING, task_vm86 := False,
              task_elf := elf, kernel_stack := kstack, user_stack := ustack,
              kernel_stack_len := kernel_len, user_stack_len := user_len, task_cpu := cpu\<rparr>),
           cpu_store := (cpu_store s)(cpu := (cpu_store s cpu)
             \<lparr>gs := data, fs := data, es := data, ds := data,
              r := (r (cpu_store s cpu))\<lparr>edi := 0, esi := 0, ebp := 0, ebx := 0, edx := 0, ecx := 0, eax := 0\<rparr>,
              eip := entry_point, cs := gdt_get_selector (gdt_table s) code_segment,
              eflags := 0 OR EFLAGS_IF OR EFLAGS_RESERVED,
              user_esp := ustack + user_len - 1, user_ss := ucast data\<rparr>)\<rparr>)"

definition task_create_detailed ::
  "ptr \<Rightarrow> ptr \<Rightarrow> u32 \<Rightarrow> u32 \<Rightarrow> ptr \<Rightarrow> nat \<Rightarrow> nat \<Rightarrow> 'a os_scheme \<Rightarrow> (pid \<times> 'a os_scheme) option" where
  "task_create_detailed entry_point dir kernel_len user_len elf code_segment data_segment s =
     do { let (old_intr, s) = isr_enable_interrupts False s;
          (t, s) \<leftarrow> vmm_alloc TASK_SIZE VMM_KERNEL s;
          (dir, s) \<leftarrow> (if dir \<noteq> 0 then Some (dir, s) else vmm_create_page_directory s);
          s \<leftarrow> vmm_modify_page_directory dir s;
          (kstack, s) \<leftarrow> vmm_alloc kernel_len VMM_KERNEL s;
          (ustack, s) \<leftarrow> vmm_alloc user_len (VMM_USER OR VMM_WRITABLE) s;
          s \<leftarrow> vmm_modified_page_directory
                 (task_prepare t dir kstack kernel_len ustack user_len elf entry_point code_segment data_segment s);
          (p, s) \<leftarrow> task_add t s;
          Some (p, snd (isr_enable_interrupts old_intr s)) }"

definition task_create_kernel :: "ptr \<Rightarrow> ptr \<Rightarrow> u32 \<Rightarrow> 'a os_scheme \<Rightarrow> (pid \<times> 'a os_scheme) option" where
  "task_create_kernel entry_point dir kernel_len =
     task_create_detailed entry_point dir kernel_len 0 0 GDT_RING0_CODE_SEG GDT_RING0_DATA_SEG"

definition task_create_user ::
  "ptr \<Rightarrow> ptr \<Rightarrow> u32 \<Rightarrow> u32 \<Rightarrow> ptr \<Rightarrow> 'a os_scheme \<Rightarrow> (pid \<times> 'a os_scheme) option" where
  "task_create_user entry_point dir kernel_len user_len elf =
     task_create_detailed entry_point dir kernel_len user_len elf GDT_RING3_CODE_SEG GDT_RING3_DATA_SEG"

definition task_stop :: "pid \<Rightarrow> 'a os_scheme \<Rightarrow> 'a os_scheme option" where
  "task_stop p = task_update p (\<lambda>t. t\<lparr>task_state := TASK_STOPPED\<rparr>)"

definition task_destroy :: "pid \<Rightarrow> 'a os_scheme \<Rightarrow> 'a os_scheme option" where
  "task_destroy p s =
     do { let (old_intr, s) = isr_enable_interrupts False s;
          t \<leftarrow> task_get s p;
          if task_state t = TASK_RUNNING then Some s
          else do {
            s \<leftarrow> vmm_modify_page_directory (task_page_directory t) s;
            s \<leftarrow> vmm_free (kernel_stack t) (kernel_stack_len t) s;
            s \<leftarrow> vmm_free (user_stack t) (user_stack_len t) s;
            s \<leftarrow> vmm_modified_page_directory s;
            s \<leftarrow> vmm_destroy_page_directory (task_page_directory t) s;
            s \<leftarrow> vmm_free (tasks s p) TASK_SIZE s;
            Some (snd (isr_enable_interrupts old_intr (task_remove p s))) } }"

subsection \<open>The next task\<close>

function task_scan :: "(pid \<Rightarrow> ptr) \<Rightarrow> pid \<Rightarrow> pid" where
  "task_scan ts p = (if p < MAX_TASKS \<and> ts p = 0 then task_scan ts (Suc p) else p)"
  by pat_completeness auto
termination by (relation "measure (\<lambda>(ts, p). MAX_TASKS - p)") auto

declare task_scan.simps [simp del]

definition task_get_next_task :: "'a os_scheme \<Rightarrow> pid \<Rightarrow> pid" where
  "task_get_next_task s p =
     (let p = task_scan (tasks s) (Suc p)
      in if p = MAX_TASKS
         then let p = task_scan (tasks s) 1 in if p = MAX_TASKS then 0 else p
         else p)"

function task_next_loop :: "'a os_scheme \<Rightarrow> task_state \<Rightarrow> pid \<Rightarrow> nat \<Rightarrow> pid option" where
  "task_next_loop s st p pids =
     (let p = task_get_next_task s p in
      if p = 0 then Some 0
      else if Suc pids \<le> MAX_TASKS then
        do { t \<leftarrow> task_get s p;
             if task_state t \<noteq> st then task_next_loop s st p (Suc pids) else Some p }
      else Some 0)"
  by pat_completeness auto
termination by (relation "measure (\<lambda>(s, st, p, pids). MAX_TASKS - pids)") auto

declare task_next_loop.simps [simp del]

definition task_get_next_task_with_state :: "'a os_scheme \<Rightarrow> pid \<Rightarrow> task_state \<Rightarrow> pid option" where
  "task_get_next_task_with_state s p st = task_next_loop s st p 0"

subsection \<open>Accessors\<close>

definition task_get_ticks :: "'a os_scheme \<Rightarrow> pid \<Rightarrow> u32 option" where
  "task_get_ticks s p = map_option task_ticks (task_get s p)"

definition task_set_ticks :: "pid \<Rightarrow> u32 \<Rightarrow> 'a os_scheme \<Rightarrow> (u32 \<times> 'a os_scheme) option" where
  "task_set_ticks p ticks s =
     do { t \<leftarrow> task_get s p;
          s \<leftarrow> task_update p (\<lambda>t. t\<lparr>task_ticks := ticks\<rparr>) s;
          Some (task_ticks t, s) }"

definition task_get_cpu :: "'a os_scheme \<Rightarrow> pid \<Rightarrow> ptr option" where
  "task_get_cpu s p = map_option task_cpu (task_get s p)"

definition task_set_cpu :: "pid \<Rightarrow> ptr \<Rightarrow> 'a os_scheme \<Rightarrow> 'a os_scheme option" where
  "task_set_cpu p cpu = task_update p (\<lambda>t. t\<lparr>task_cpu := cpu\<rparr>)"

definition task_get_page_directory :: "'a os_scheme \<Rightarrow> pid \<Rightarrow> ptr option" where
  "task_get_page_directory s p = map_option task_page_directory (task_get s p)"

definition task_get_vm86 :: "'a os_scheme \<Rightarrow> pid \<Rightarrow> bool option" where
  "task_get_vm86 s p = map_option task_vm86 (task_get s p)"

definition task_get_elf :: "'a os_scheme \<Rightarrow> pid \<Rightarrow> ptr option" where
  "task_get_elf s p = map_option task_elf (task_get s p)"

end
