(* ===== verification/Task_Order.thy ===== *)
theory Task_Order
  imports Task
begin

text \<open>
  The order in which the task table is walked. \<open>after P p\<close> are the PIDs with property \<open>P\<close> in
  the cyclic order of the table, starting behind \<open>p\<close>; the searches of \<open>Task\<close> return its first
  element.
\<close>

definition after :: "(pid \<Rightarrow> bool) \<Rightarrow> pid \<Rightarrow> pid list" where
  "after P p = filter P ([Suc p..<MAX_TASKS] @ [1..<Suc p])"

definition first_after :: "(pid \<Rightarrow> bool) \<Rightarrow> pid \<Rightarrow> pid" where
  "first_after P p = (case after P p of [] \<Rightarrow> 0 | q # _ \<Rightarrow> q)"

definition occupied :: "'a os_scheme \<Rightarrow> pid \<Rightarrow> bool" where
  "occupied s p \<longleftrightarrow> tasks s p \<noteq> 0"

definition in_state :: "'a os_scheme \<Rightarrow> task_state \<Rightarrow> pid \<Rightarrow> bool" where
  "in_state s st p \<longleftrightarrow> tasks s p \<noteq> 0 \<and> task_state (task_store s (tasks s p)) = st"

lemma set_after: "p < MAX_TASKS \<Longrightarrow> set (after P p) = {q. P q \<and> 1 \<le> q \<and> q < MAX_TASKS}"
  by (auto simp: after_def)

lemma distinct_after: "p < MAX_TASKS \<Longrightarrow> distinct (after P p)"
  by (auto simp: after_def)

lemma first_after_in: "after P p \<noteq> [] \<Longrightarrow> first_after P p \<in> set (after P p)"
  by (cases "after P p") (simp_all add: first_after_def)

lemma filter_upt_split:
  assumes "a \<le> q" "q < b"
  shows "filter P [a..<b] = filter P [a..<q] @ filter P [q] @ filter P [Suc q..<b]"
proof -
  have "[a..<b] = [a..<q] @ q # [Suc q..<b]"
    using assms upt_add_eq_append[of a q "b - q"] upt_conv_Cons[of q b] by simp
  then show ?thesis by simp
qed

text \<open>Walking on from the first element rotates the list.\<close>

lemma after_first:
  assumes p: "p < MAX_TASKS" and a: "after P p = q # qs"
  shows "after P q = qs @ [q]"
proof -
  have q: "q \<in> set (after P p)" using a by simp
  then have Pq: "P q" and q1: "1 \<le> q" "q < MAX_TASKS" using set_after[OF p] by auto
  show ?thesis
  proof (cases "p < q")
    case True
    have s1: "filter P [Suc p..<MAX_TASKS] = filter P [Suc p..<q] @ q # filter P [Suc q..<MAX_TASKS]"
      using filter_upt_split[of "Suc p" q MAX_TASKS P] True q1 Pq by simp
    have none: "filter P [Suc p..<q] = []"
    proof (rule ccontr)
      assume "filter P [Suc p..<q] \<noteq> []"
      then obtain x xs where x: "filter P [Suc p..<q] = x # xs" by (cases "filter P [Suc p..<q]") auto
      then have "x = q" using a s1 by (simp add: after_def)
      moreover have "x < q" using x by (metis list.set_intros(1) filter_is_subset subsetD atLeastLessThan_iff set_upt)
      ultimately show False by simp
    qed
    have "[1..<Suc q] = [1..<Suc p] @ [Suc p..<q] @ [q]"
      using True q1 upt_add_eq_append[of 1 "Suc p" "q - Suc p"] by simp
    then have "after P q = filter P [Suc q..<MAX_TASKS] @ filter P [1..<Suc p] @ [q]"
      using none Pq by (simp add: after_def)
    moreover have "qs = filter P [Suc q..<MAX_TASKS] @ filter P [1..<Suc p]"
      using a s1 none by (simp add: after_def)
    ultimately show ?thesis by simp
  next
    case False
    then have qp: "q \<le> p" by simp
    have none: "filter P [Suc p..<MAX_TASKS] = []"
    proof (rule ccontr)
      assume "filter P [Suc p..<MAX_TASKS] \<noteq> []"
      then obtain x xs where x: "filter P [Suc p..<MAX_TASKS] = x # xs"
        by (cases "filter P [Suc p..<MAX_TASKS]") auto
      then have "x = q" using a by (simp add: after_def)
      moreover have "Suc p \<le> x" using x by (metis list.set_intros(1) filter_is_subset subsetD atLeastLessThan_iff set_upt)
      ultimately show False using qp by simp
    qed
    have s1: "filter P [1..<Suc p] = filter P [1..<q] @ q # filter P [Suc q..<Suc p]"
      using filter_upt_split[of 1 q "Suc p" P] qp q1 Pq by simp
    have none2: "filter P [1..<q] = []"
    proof (rule ccontr)
      assume "filter P [1..<q] \<noteq> []"
      then obtain x xs where x: "filter P [1..<q] = x # xs" by (cases "filter P [1..<q]") auto
      then have "x = q" using a none s1 by (simp add: after_def)
      moreover have "x < q" using x by (metis list.set_intros(1) filter_is_subset subsetD atLeastLessThan_iff set_upt)
      ultimately show False by simp
    qed
    have "[Suc q..<MAX_TASKS] = [Suc q..<Suc p] @ [Suc p..<MAX_TASKS]"
      using qp p upt_add_eq_append[of "Suc q" "Suc p" "MAX_TASKS - Suc p"] by simp
    then have "after P q = filter P [Suc q..<Suc p] @ filter P [1..<q] @ [q]"
      using none Pq q1 by (simp add: after_def)
    moreover have "qs = filter P [Suc q..<Suc p]" using a none s1 none2 by (simp add: after_def)
    ultimately show ?thesis using none2 by simp
  qed
qed

text \<open>The first \<open>n\<close> PIDs visited are the list itself, in order, when \<open>n\<close> is its length.\<close>

lemma visits:
  assumes "p < MAX_TASKS" "after P p = xs @ ys" "xs \<noteq> []"
  shows "map (\<lambda>k. (first_after P ^^ k) p) [1..<Suc (length xs)] = xs \<and>
         after P (last xs) = ys @ xs"
  using assms
proof (induction xs arbitrary: p ys)
  case (Cons x xs)
  have f: "first_after P p = x" using Cons.prems(2) by (simp add: first_after_def)
  have x: "x < MAX_TASKS" using set_after[OF Cons.prems(1), of P] Cons.prems(2) by auto
  have ax: "after P x = xs @ (ys @ [x])" using after_first[OF Cons.prems(1)] Cons.prems(2) by simp
  show ?case
  proof (cases "xs = []")
    case True
    then show ?thesis using f ax by simp
  next
    case False
    note IH = Cons.IH[OF x ax False]
    have "map (\<lambda>k. (first_after P ^^ k) p) [1..<Suc (length (x # xs))] =
        x # map (\<lambda>k. (first_after P ^^ Suc k) p) [1..<Suc (length xs)]"
      using f by (simp add: upt_conv_Cons map_Suc_upt[symmetric] del: upt_Suc funpow.simps)
         (simp add: o_def)
    also have "\<dots> = x # map (\<lambda>k. (first_after P ^^ k) x) [1..<Suc (length xs)]"
      using f by (simp add: funpow_swap1)
    finally show ?thesis using IH False by simp
  qed
qed simp

subsection \<open>The searches of the task table\<close>

lemma task_scan_filter:
  "p \<le> MAX_TASKS \<Longrightarrow>
   task_scan ts p = (case filter (\<lambda>q. ts q \<noteq> 0) [p..<MAX_TASKS] of [] \<Rightarrow> MAX_TASKS | q # _ \<Rightarrow> q)"
proof (induction ts p rule: task_scan.induct)
  case (1 ts p)
  show ?case
  proof (cases "p < MAX_TASKS")
    case True
    then show ?thesis using 1 by (subst task_scan.simps) (simp add: upt_conv_Cons)
  next
    case False
    then show ?thesis using 1 by (subst task_scan.simps) simp
  qed
qed

lemma filter_bounded: "filter P [a..<b] = q # qs \<Longrightarrow> a \<le> q \<and> q < b"
proof -
  assume "filter P [a..<b] = q # qs"
  then have "q \<in> set (filter P [a..<b])" by simp
  then show ?thesis by simp
qed

lemma task_get_next_task_first:
  assumes "p < MAX_TASKS"
  shows "task_get_next_task s p = first_after (occupied s) p"
proof -
  let ?f = "\<lambda>a b. filter (occupied s) [a..<b]"
  have occ: "(\<lambda>q. tasks s q \<noteq> 0) = occupied s" by (simp add: occupied_def fun_eq_iff)
  have scan: "task_scan (tasks s) a = (case ?f a MAX_TASKS of [] \<Rightarrow> MAX_TASKS | q # _ \<Rightarrow> q)"
    if "a \<le> MAX_TASKS" for a
    using task_scan_filter[OF that, of "tasks s"] by (simp only: occ)
  have split: "?f 1 MAX_TASKS = ?f 1 (Suc p) @ ?f (Suc p) MAX_TASKS"
    using upt_add_eq_append[of 1 "Suc p" "MAX_TASKS - Suc p"] assms by simp
  show ?thesis
  proof (cases "?f (Suc p) MAX_TASKS")
    case Nil
    have one: "1 \<le> MAX_TASKS" by (simp add: MAX_TASKS_def)
    have "task_get_next_task s p = (let p = task_scan (tasks s) 1 in if p = MAX_TASKS then 0 else p)"
      using scan[of "Suc p"] assms Nil by (simp add: task_get_next_task_def)
    also have "\<dots> = first_after (occupied s) p"
    proof (cases "?f 1 (Suc p)")
      case Nil': Nil
      then have "?f 1 MAX_TASKS = []" using split Nil by (simp only: append_Nil)
      then have "task_scan (tasks s) 1 = MAX_TASKS" using scan[OF one] by (simp only: list.case)
      then show ?thesis using Nil Nil' by (simp add: first_after_def after_def Let_def del: upt_Suc)
    next
      case (Cons q qs)
      then have "?f 1 MAX_TASKS = q # qs" using split Nil by (simp only: append_Nil2)
      then have "task_scan (tasks s) 1 = q" using scan[OF one] by (simp only: list.case)
      moreover have "q < MAX_TASKS" using filter_bounded[OF Cons] assms by simp
      ultimately show ?thesis using Nil Cons by (simp add: first_after_def after_def Let_def del: upt_Suc)
    qed
    finally show ?thesis .
  next
    case (Cons q qs)
    then show ?thesis
      using scan[of "Suc p"] assms filter_bounded[OF Cons]
      by (simp add: task_get_next_task_def first_after_def after_def Let_def)
  qed
qed

lemma task_next_loop_none:
  assumes "\<forall>q. 1 \<le> q \<longrightarrow> q < MAX_TASKS \<longrightarrow> \<not> in_state s st q" "p < MAX_TASKS"
  shows "task_next_loop s st p pids = Some 0"
  using assms
proof (induction s st p pids rule: task_next_loop.induct)
  case (1 s st p pids)
  let ?q = "task_get_next_task s p"
  show ?case
  proof (cases "?q = 0 \<or> \<not> Suc pids \<le> MAX_TASKS")
    case True
    then show ?thesis by (subst task_next_loop.simps) (auto simp: Let_def)
  next
    case False
    have fq: "?q = first_after (occupied s) p" by (rule task_get_next_task_first[OF "1.prems"(2)])
    with False have "?q \<in> set (after (occupied s) p)"
      by (auto simp: first_after_def split: list.splits)
    then have q: "occupied s ?q" "?q < MAX_TASKS" "1 \<le> ?q" using set_after[OF "1.prems"(2)] by auto
    then obtain t where t: "task_get s ?q = Some t" "task_state t \<noteq> st"
      using "1.prems"(1)[rule_format, OF q(3,2)] by (auto simp: task_get_def occupied_def in_state_def)
    have "task_next_loop s st ?q (Suc pids) = Some 0"
      using "1.IH"[OF refl _ _ t(1) t(2) "1.prems"(1) q(2)] False by simp
    then show ?thesis
      using False t by (subst task_next_loop.simps) (simp add: Let_def)
  qed
qed

lemma task_next_loop_first:
  assumes "p < MAX_TASKS" "after (occupied s) p = B @ A" "\<forall>x\<in>set A. \<not> in_state s st x"
    and "pids + length B \<le> MAX_TASKS"
  shows "task_next_loop s st p pids = Some (case filter (in_state s st) B of [] \<Rightarrow> 0 | q # _ \<Rightarrow> q)"
  using assms
proof (induction B arbitrary: p A pids)
  case Nil
  have "\<not> in_state s st q" if "1 \<le> q" "q < MAX_TASKS" for q
  proof
    assume i: "in_state s st q"
    then have "occupied s q" by (simp add: in_state_def occupied_def)
    then have "q \<in> set A" using set_after[OF Nil.prems(1), of "occupied s"] Nil.prems(2) that by simp
    then show False using Nil.prems(3) i by blast
  qed
  then have "task_next_loop s st p pids = Some 0" by (intro task_next_loop_none[OF _ Nil.prems(1)]) blast
  then show ?case by simp
next
  case (Cons x B)
  have x: "occupied s x" "1 \<le> x" "x < MAX_TASKS"
    using set_after[OF Cons.prems(1), of "occupied s"] Cons.prems(2) by auto
  have nx: "task_get_next_task s p = x"
    using task_get_next_task_first[OF Cons.prems(1), of s] Cons.prems(2) by (simp add: first_after_def)
  have ax: "after (occupied s) x = B @ (A @ [x])"
    using after_first[OF Cons.prems(1)] Cons.prems(2) by simp
  obtain t where t: "task_get s x = Some t" "task_state t = st \<longleftrightarrow> in_state s st x"
    using x(1) by (auto simp: task_get_def occupied_def in_state_def)
  show ?case
  proof (cases "in_state s st x")
    case True
    then show ?thesis
      using nx t x Cons.prems(4) by (subst task_next_loop.simps) (simp add: Let_def)
  next
    case False
    have "task_next_loop s st p pids = task_next_loop s st x (Suc pids)"
      using nx t x Cons.prems(4) False by (subst task_next_loop.simps) (simp add: Let_def)
    also have "\<dots> = Some (case filter (in_state s st) B of [] \<Rightarrow> 0 | q # _ \<Rightarrow> q)"
      using Cons.IH[OF x(3) ax] Cons.prems(3,4) False by simp
    finally show ?thesis using False by simp
  qed
qed

lemma after_filter:
  assumes "\<And>q. P q \<Longrightarrow> Q q"
  shows "filter P (after Q p) = after P p"
proof -
  have "(\<lambda>x. Q x \<and> P x) = P" using assms by blast
  then show ?thesis by (simp only: after_def filter_filter)
qed

lemma next_with_state_first:
  assumes "p < MAX_TASKS"
  shows "task_get_next_task_with_state s p st = Some (first_after (in_state s st) p)"
proof -
  have "length (after (occupied s) p) \<le> length ([Suc p..<MAX_TASKS] @ [1..<Suc p])"
    unfolding after_def by (rule length_filter_le)
  then have "0 + length (after (occupied s) p) \<le> MAX_TASKS" using assms by (simp del: upt_Suc)
  then have "task_next_loop s st p 0 =
      Some (case filter (in_state s st) (after (occupied s) p) of [] \<Rightarrow> 0 | q # _ \<Rightarrow> q)"
    by (intro task_next_loop_first[where A = "[]"]) (use assms in simp_all)
  then show ?thesis
    using after_filter[of "in_state s st" "occupied s" p]
    by (simp add: task_get_next_task_with_state_def first_after_def in_state_def occupied_def)
qed

text \<open>
  The search for the next task in a state returns, from any PID in the table: the first task in that
  state in the cyclic order behind the PID, the PID itself last, and 0 exactly if no task is in
  that state. It never dereferences an empty slot, and it is not cut off by its bound on
  the number of steps.
\<close>

theorem task_get_next_task_with_state_correct:
  assumes "p < MAX_TASKS"
  shows "\<exists>q. task_get_next_task_with_state s p st = Some q \<and>
    (if q = 0 then \<forall>x. 1 \<le> x \<and> x < MAX_TASKS \<longrightarrow> \<not> in_state s st x
     else 1 \<le> q \<and> q < MAX_TASKS \<and> in_state s st q \<and>
       (\<forall>x. (if p < q then p < x \<and> x < q else p < x \<and> x < MAX_TASKS \<or> 1 \<le> x \<and> x < q)
            \<longrightarrow> \<not> in_state s st x))"
proof -
  let ?P = "in_state s st"
  show ?thesis
  proof (cases "after ?P p")
    case Nil
    then show ?thesis
      using next_with_state_first[OF assms, of s st] set_after[OF assms, of ?P]
      by (auto simp: first_after_def)
  next
    case (Cons q qs)
    have q: "1 \<le> q" "q < MAX_TASKS" "?P q" using set_after[OF assms, of ?P] Cons by auto
    have "\<not> ?P x" if x: "if p < q then p < x \<and> x < q else p < x \<and> x < MAX_TASKS \<or> 1 \<le> x \<and> x < q" for x
    proof
      assume P: "?P x"
      have hd: "q = hd (filter ?P ([Suc p..<MAX_TASKS] @ [1..<Suc p]))"
        using Cons by (simp add: after_def)
      show False
      proof (cases "p < q")
        case True
        with x P have "filter ?P [Suc p..<x] @ x # filter ?P [Suc x..<MAX_TASKS] = filter ?P [Suc p..<MAX_TASKS]"
          using filter_upt_split[of "Suc p" x MAX_TASKS ?P] q by simp
        then have "q = hd (filter ?P [Suc p..<x] @ x # filter ?P [Suc x..<MAX_TASKS] @ filter ?P [1..<Suc p])"
          using hd by (metis append.assoc append_Cons filter_append)
        then have hd': "q = hd (filter ?P [Suc p..<x] @ x # filter ?P [Suc x..<MAX_TASKS] @ filter ?P [1..<Suc p])" .
        have "q \<le> x"
        proof (cases "filter ?P [Suc p..<x]")
          case (Cons y ys)
          then show ?thesis using hd' filter_bounded[OF Cons] by simp
        qed (use hd' in simp)
        with x True show False by simp
      next
        case False
        show False
        proof (cases "filter ?P [Suc p..<MAX_TASKS]")
          case (Cons y ys)
          then show False using hd False filter_bounded[OF Cons] by simp
        next
          case Nil
          with x P False have "1 \<le> x" "x < q" by (auto simp: filter_empty_conv)
          then have "filter ?P [1..<Suc p] = filter ?P [1..<x] @ x # filter ?P [Suc x..<Suc p]"
            using filter_upt_split[of 1 x "Suc p" ?P] False P by simp
          then have hd': "q = hd (filter ?P [1..<x] @ x # filter ?P [Suc x..<Suc p])"
            using hd Nil by (simp only: filter_append append_Nil)
          have "q \<le> x"
          proof (cases "filter ?P [1..<x]")
            case (Cons y ys)
            then show ?thesis using hd' filter_bounded[OF Cons] by simp
          qed (use hd' in simp)
          with \<open>x < q\<close> show False by simp
        qed
      qed
    qed
    then have "if q = 0 then \<forall>x. 1 \<le> x \<and> x < MAX_TASKS \<longrightarrow> \<not> ?P x
     else 1 \<le> q \<and> q < MAX_TASKS \<and> ?P q \<and>
       (\<forall>x. (if p < q then p < x \<and> x < q else p < x \<and> x < MAX_TASKS \<or> 1 \<le> x \<and> x < q) \<longrightarrow> \<not> ?P x)"
      using q by (simp only: One_nat_def not_one_le_zero if_False simp_thms) auto
    moreover have "task_get_next_task_with_state s p st = Some q"
      using next_with_state_first[OF assms, of s st] Cons by (simp add: first_after_def)
    ultimately show ?thesis by (intro exI conjI)
  qed
qed

text \<open>Three tasks; the one in slot 2 is stopped.\<close>

definition example_task :: "task_state \<Rightarrow> ptr \<Rightarrow> task" where
  "example_task st cpu = \<lparr>task_state = st, task_page_directory = VMM_PAGEDIR, kernel_stack = 0x400000,
     user_stack = 0x40000000, kernel_stack_len = 0x1000, user_stack_len = 0x1000, task_cpu = cpu,
     task_ticks = 1, task_vm86 = False, task_elf = 0\<rparr>"

definition example_os :: os where
  "example_os = \<lparr>bitmap = bitmap example_mm, highest_kernel_page = 0, pmem = pmem example_mm, cr3 = 0x1000,
     cr0_pg = True, eflags_if = True, tlb_log = [], page_directory = VMM_PAGEDIR, old_directory = 0,
     old_interrupts = False, domain_check_enabled = True,
     tasks = (\<lambda>_. 0)(1 := 0x500000, 2 := 0x501000, 3 := 0x502000),
     task_store = (\<lambda>_. example_task TASK_RUNNING 0x400FA3)(0x501000 := example_task TASK_STOPPED 0x401FA3),
     cpu_store = (\<lambda>_. undefined), current_task = 1, ticks_per_time_slice = 1,
     gdt_table = (\<lambda>_. undefined), tss = \<lparr>esp0 = 0, ss0 = 0x10\<rparr>\<rparr>"

lemma example_os_running: "in_state example_os TASK_RUNNING q \<longleftrightarrow> q = 1 \<or> q = 3"
  by (auto simp: in_state_def example_os_def example_task_def)

lemma example_os_next: "first_after (in_state example_os TASK_RUNNING) 1 = 3"
proof -
  let ?P = "in_state example_os TASK_RUNNING"
  have m: "(3 :: pid) < MAX_TASKS" by (simp add: MAX_TASKS_def)
  have "filter ?P [Suc 3..<MAX_TASKS] = []" by (auto simp: filter_empty_conv example_os_running)
  moreover have "filter ?P [2..<3] = []" by (auto simp: filter_empty_conv example_os_running)
  moreover have "filter ?P [3] = [3]" by (simp add: example_os_running)
  ultimately have "filter ?P [2..<MAX_TASKS] = [3]"
    using filter_upt_split[of 2 3 MAX_TASKS ?P] m by (simp only: append_Nil append_Nil2)
  then show ?thesis by (simp add: first_after_def after_def numeral_2_eq_2)
qed

theorem task_get_next_task_with_state_correct_witness:
  "task_get_next_task_with_state example_os 1 TASK_RUNNING = Some 3"
proof -
  have p: "(1 :: pid) < MAX_TASKS" by (simp add: MAX_TASKS_def)
  obtain q where q: "task_get_next_task_with_state example_os 1 TASK_RUNNING = Some q"
    and spec: "if q = 0 then \<forall>x. 1 \<le> x \<and> x < MAX_TASKS \<longrightarrow> \<not> in_state example_os TASK_RUNNING x
     else 1 \<le> q \<and> q < MAX_TASKS \<and> in_state example_os TASK_RUNNING q \<and>
       (\<forall>x. (if 1 < q then 1 < x \<and> x < q else 1 < x \<and> x < MAX_TASKS \<or> 1 \<le> x \<and> x < q)
            \<longrightarrow> \<not> in_state example_os TASK_RUNNING x)"
    using task_get_next_task_with_state_correct[OF p, of example_os TASK_RUNNING] by blast
  have "q \<noteq> 0"
  proof
    assume "q = 0"
    with spec have "\<forall>x. 1 \<le> x \<and> x < MAX_TASKS \<longrightarrow> \<not> in_state example_os TASK_RUNNING x" by simp
    then have "\<not> in_state example_os TASK_RUNNING 1" using p by blast
    then show False by (simp add: example_os_running)
  qed
  moreover have "q \<noteq> 1"
  proof
    assume "q = 1"
    with spec have "\<forall>x. 1 < x \<and> x < MAX_TASKS \<longrightarrow> \<not> in_state example_os TASK_RUNNING x" by auto
    moreover have "(1 :: pid) < 3 \<and> 3 < MAX_TASKS" by (simp add: MAX_TASKS_def)
    ultimately have "\<not> in_state example_os TASK_RUNNING 3" by blast
    then show False by (simp add: example_os_running)
  qed
  ultimately have "q = 3" using spec by (auto simp: example_os_running)
  then show ?thesis using q by simp
qed

text \<open>
  C16: Round robin. Starting from any PID, as many successive searches as there are running tasks
  visit every running task exactly once.
\<close>

theorem next_running_task_round_robin:
  fixes s :: "'a os_scheme" and st :: task_state and p :: pid
  assumes "p < MAX_TASKS"
  defines "n \<equiv> card {q. 1 \<le> q \<and> q < MAX_TASKS \<and> in_state s st q}"
    and "nxt \<equiv> \<lambda>q. the (task_get_next_task_with_state s q st)"
  shows "distinct (map (\<lambda>k. (nxt ^^ k) p) [1..<Suc n]) \<and>
    set (map (\<lambda>k. (nxt ^^ k) p) [1..<Suc n]) = {q. 1 \<le> q \<and> q < MAX_TASKS \<and> in_state s st q}"
proof -
  let ?P = "in_state s st"
  have set: "set (after ?P p) = {q. 1 \<le> q \<and> q < MAX_TASKS \<and> ?P q}" using set_after[OF assms(1), of ?P] by auto
  have n: "n = length (after ?P p)"
    unfolding n_def set[symmetric] by (rule distinct_card[OF distinct_after[OF assms(1)]])
  have bounded: "first_after ?P q < MAX_TASKS" if "q < MAX_TASKS" for q
  proof (cases "after ?P q")
    case (Cons x xs)
    then have "x \<in> set (after ?P q)" by simp
    then have "x < MAX_TASKS" unfolding set_after[OF that] by blast
    then show ?thesis using Cons by (simp add: first_after_def)
  qed (simp add: first_after_def MAX_TASKS_def)
  have iter: "(nxt ^^ k) p = (first_after ?P ^^ k) p \<and> (first_after ?P ^^ k) p < MAX_TASKS" for k
  proof (induction k)
    case (Suc k)
    then show ?case
      using bounded[of "(first_after ?P ^^ k) p"] next_with_state_first[of "(first_after ?P ^^ k) p" s st]
      by (simp add: nxt_def)
  qed (use assms(1) in simp)
  show ?thesis
  proof (cases "after ?P p = []")
    case True
    then show ?thesis using n set by auto
  next
    case False
    have "map (\<lambda>k. (nxt ^^ k) p) [1..<Suc n] = after ?P p"
      using visits[OF assms(1) _ False, of ?P "[]"] iter n by simp
    then show ?thesis using distinct_after[OF assms(1)] set by simp
  qed
qed

theorem next_running_task_round_robin_witness:
  "card {q. 1 \<le> q \<and> q < MAX_TASKS \<and> in_state example_os TASK_RUNNING q} = 2 \<and>
   set (map (\<lambda>k. ((\<lambda>q. the (task_get_next_task_with_state example_os q TASK_RUNNING)) ^^ k) 1) [1..<3]) = {1, 3}"
proof -
  have p: "(1 :: pid) < MAX_TASKS" by (simp add: MAX_TASKS_def)
  have eq: "{q. 1 \<le> q \<and> q < MAX_TASKS \<and> in_state example_os TASK_RUNNING q} = {1, 3}"
    by (auto simp: example_os_running MAX_TASKS_def)
  then have c: "card {q. 1 \<le> q \<and> q < MAX_TASKS \<and> in_state example_os TASK_RUNNING q} = 2" by simp
  show ?thesis
    using next_running_task_round_robin[OF p, of example_os TASK_RUNNING]
    unfolding c eq by (simp add: numeral_3_eq_3 numeral_2_eq_2)
qed

end
