(* ===== verification/Task_Life.thy ===== *)
theory Task_Life
  imports Task_Order
begin

unbundle bit_operations_syntax

text \<open>
  The life of a task: what \<^verbatim>\<open>task_create_detailed\<close>, \<^verbatim>\<open>task_stop\<close> and \<^verbatim>\<open>task_destroy\<close> do to the task
  table, the task structures and the interrupt flag. The virtual memory operations they call
  leave the task state alone (\<open>keeps\<close>).
\<close>

lemma more_os:
  assumes "mm.more t = mm.more s"
  shows "tasks t = tasks s" "task_store t = task_store s" "cpu_store t = cpu_store s"
    "current_task t = current_task s" "ticks_per_time_slice t = ticks_per_time_slice s"
    "gdt_table t = gdt_table s" "tss t = tss s" "os.more t = os.more s"
  using assms by (cases s; cases t; simp)+

lemma keeps_os:
  assumes "keeps s t"
  shows "tasks t = tasks s" "task_store t = task_store s" "cpu_store t = cpu_store s"
    "current_task t = current_task s" "ticks_per_time_slice t = ticks_per_time_slice s"
    "gdt_table t = gdt_table s" "tss t = tss s"
  using more_os[OF keeps_fields(1)[OF assms]] by simp_all

lemma modify_more: "vmm_modify_page_directory p s = Some t \<Longrightarrow> mm.more t = mm.more s"
proof (cases "old_directory s = 0")
  case True
  then show "vmm_modify_page_directory p s = Some t \<Longrightarrow> ?thesis" using modify_page_directory(1) by blast
qed (simp add: vmm_modify_page_directory_def)

lemma modified_more: "vmm_modified_page_directory s = Some t \<Longrightarrow> mm.more t = mm.more s"
proof (cases "old_directory s = 0")
  case False
  then show "vmm_modified_page_directory s = Some t \<Longrightarrow> ?thesis" using modified_page_directory(1) by blast
qed (simp add: vmm_modified_page_directory_def)

text \<open>The same facts for the operations that the task code calls.\<close>

lemmas vm_more =
  modify_more modified_more keeps_fields(1)[OF keeps_alloc] keeps_fields(1)[OF keeps_free]
  keeps_fields(1)[OF keeps_create_directory] keeps_fields(1)[OF keeps_destroy_directory]

subsection \<open>The first free slot\<close>

lemma task_free_slot_spec:
  "p \<le> MAX_TASKS \<Longrightarrow> p \<le> task_free_slot ts p \<and> task_free_slot ts p \<le> MAX_TASKS \<and>
   (\<forall>q. p \<le> q \<and> q < task_free_slot ts p \<longrightarrow> ts q \<noteq> 0) \<and>
   (task_free_slot ts p < MAX_TASKS \<longrightarrow> ts (task_free_slot ts p) = 0)"
proof (induction ts p rule: task_free_slot.induct)
  case (1 ts p)
  show ?case
  proof (cases "ts p \<noteq> 0 \<and> p < MAX_TASKS")
    case True
    then have eq: "task_free_slot ts p = task_free_slot ts (Suc p)" by (simp add: task_free_slot.simps[of ts p])
    have IH: "Suc p \<le> task_free_slot ts (Suc p) \<and> task_free_slot ts (Suc p) \<le> MAX_TASKS \<and>
      (\<forall>q. Suc p \<le> q \<and> q < task_free_slot ts (Suc p) \<longrightarrow> ts q \<noteq> 0) \<and>
      (task_free_slot ts (Suc p) < MAX_TASKS \<longrightarrow> ts (task_free_slot ts (Suc p)) = 0)"
      using "1.IH"[OF True] True by simp
    moreover have "ts q \<noteq> 0" if "p \<le> q" "q < task_free_slot ts (Suc p)" for q
      using IH True that by (cases "q = p") auto
    ultimately show ?thesis unfolding eq by (auto simp: Suc_le_eq)
  next
    case False
    then have "task_free_slot ts p = p" by (subst task_free_slot.simps) (simp only: False if_False)
    then show ?thesis using False 1 by auto
  qed
qed

lemma task_add_spec:
  assumes "task_add t s = Some (p, s')"
  shows "1 \<le> p" "p < MAX_TASKS" "tasks s p = 0" "\<forall>q. 1 \<le> q \<and> q < p \<longrightarrow> tasks s q \<noteq> 0"
    "s' = s\<lparr>tasks := (tasks s)(p := t)\<rparr>"
proof -
  have p: "p = task_free_slot (tasks s) 1" "p \<noteq> MAX_TASKS" "s' = s\<lparr>tasks := (tasks s)(p := t)\<rparr>"
    using assms by (auto simp: task_add_def Let_def split: if_splits)
  have "1 \<le> MAX_TASKS" by (simp add: MAX_TASKS_def)
  note spec = task_free_slot_spec[OF this, of "tasks s", folded p(1)]
  show "1 \<le> p" "p < MAX_TASKS" "tasks s p = 0" "\<forall>q. 1 \<le> q \<and> q < p \<longrightarrow> tasks s q \<noteq> 0"
    "s' = s\<lparr>tasks := (tasks s)(p := t)\<rparr>"
    using spec p by auto
qed

text \<open>
  Adding a task never overwrites one: the PID is the lowest free slot of the table, it is never 0, and
  the call panics exactly if all 1023 slots are taken. The slot the loop reads behind the end
  of the array does not influence the result.
\<close>

theorem task_add_lowest_free_slot:
  "case task_add t s of
     None \<Rightarrow> \<forall>q. 1 \<le> q \<and> q < MAX_TASKS \<longrightarrow> tasks s q \<noteq> 0
   | Some (p, s') \<Rightarrow> 1 \<le> p \<and> p < MAX_TASKS \<and> tasks s p = 0 \<and> (\<forall>q. 1 \<le> q \<and> q < p \<longrightarrow> tasks s q \<noteq> 0) \<and>
       s' = s\<lparr>tasks := (tasks s)(p := t)\<rparr>"
proof (cases "task_add t s")
  case None
  then have "task_free_slot (tasks s) 1 = MAX_TASKS" by (simp add: task_add_def Let_def split: if_splits)
  then show ?thesis using None task_free_slot_spec[of 1 "tasks s"] by (simp add: MAX_TASKS_def)
next
  case (Some x)
  obtain p s' where x: "x = (p, s')" by force
  show ?thesis using task_add_spec[OF Some[unfolded x]] Some x by simp
qed

theorem task_add_lowest_free_slot_witness:
  "\<exists>s'. task_add 0x900000 example_os = Some (4, s') \<and> tasks s' 4 = 0x900000"
proof -
  have t: "tasks example_os q = 0 \<longleftrightarrow> q \<noteq> 1 \<and> q \<noteq> 2 \<and> q \<noteq> 3" for q by (simp add: example_os_def)
  show ?thesis
  proof (cases "task_add 0x900000 example_os")
    case None
    then have "\<forall>q. 1 \<le> q \<and> q < MAX_TASKS \<longrightarrow> tasks example_os q \<noteq> 0"
      using task_add_lowest_free_slot[where t = "0x900000" and s = example_os] by simp
    then have "tasks example_os 4 \<noteq> 0" by (simp add: MAX_TASKS_def)
    then show ?thesis by (simp add: t)
  next
    case (Some x)
    obtain p s' where x: "x = (p, s')" by force
    have p: "1 \<le> p" "tasks example_os p = 0" "\<forall>q. 1 \<le> q \<and> q < p \<longrightarrow> tasks example_os q \<noteq> 0"
      "s' = example_os\<lparr>tasks := (tasks example_os)(p := 0x900000)\<rparr>"
      using task_add_lowest_free_slot[where t = "0x900000" and s = example_os] by (simp_all add: Some x)
    have "\<not> 4 < p" using p(3)[rule_format, of 4] t[of 4] by auto
    then have "p = 4" using p(1,2) unfolding t by linarith
    then show ?thesis using Some x p(4) by simp
  qed
qed

subsection \<open>Creating a task\<close>

lemma create_detailed_effect:
  assumes "task_create_detailed entry dir klen ulen elf cseg dseg s = Some (p, s')"
  shows "1 \<le> p \<and> p < MAX_TASKS \<and> tasks s p = 0 \<and> (\<forall>q. 1 \<le> q \<and> q < p \<longrightarrow> tasks s q \<noteq> 0) \<and>
    (\<exists>t. tasks s' = (tasks s)(p := t) \<and> (\<forall>x. x \<noteq> t \<longrightarrow> task_store s' x = task_store s x) \<and>
      (let task = task_store s' t; c = cpu_store s' (task_cpu task) in
       task_state task = TASK_RUNNING \<and> \<not> task_vm86 task \<and> task_elf task = elf \<and>
       kernel_stack_len task = klen \<and> user_stack_len task = ulen \<and>
       task_cpu task = kernel_stack task + klen - 1 - CPU_STATE_SIZE \<and>
       (\<forall>x. x \<noteq> task_cpu task \<longrightarrow> cpu_store s' x = cpu_store s x) \<and>
       eip c = entry \<and> cs c = gdt_get_selector (gdt_table s) cseg \<and>
       ds c = gdt_get_selector (gdt_table s) dseg \<and> user_ss c = ucast (gdt_get_selector (gdt_table s) dseg) \<and>
       user_esp c = user_stack task + ulen - 1 \<and>
       bit (eflags c) 9 \<and> bit (eflags c) 1 \<and> \<not> bit (eflags c) 17)) \<and>
    current_task s' = current_task s \<and> eflags_if s' = eflags_if s"
proof -
  obtain t s1 dir' s2 s3 ks s4 us s5 s8 s9 where
    a: "vmm_alloc TASK_SIZE VMM_KERNEL (s\<lparr>eflags_if := False\<rparr>) = Some (t, s1)"
    and b: "(if dir \<noteq> 0 then Some (dir, s1) else vmm_create_page_directory s1) = Some (dir', s2)"
    and c: "vmm_modify_page_directory dir' s2 = Some s3"
    and d: "vmm_alloc klen VMM_KERNEL s3 = Some (ks, s4)"
    and e: "vmm_alloc ulen (VMM_USER OR VMM_WRITABLE) s4 = Some (us, s5)"
    and f: "vmm_modified_page_directory (task_prepare t dir' ks klen us ulen elf entry cseg dseg s5) = Some s8"
    and g: "task_add t s8 = Some (p, s9)"
    and h: "s' = s9\<lparr>eflags_if := eflags_if s\<rparr>"
    using assms unfolding task_create_detailed_def Let_def
    by (auto simp del: VMM_KERNEL_def VMM_USER_def VMM_WRITABLE_def split: bind_splits prod.splits)
  have "mm.more s2 = mm.more s1"
    using b keeps_fields(1)[OF keeps_create_directory, of s1 dir' s2] by (auto split: if_splits)
  then have m5: "mm.more s5 = mm.more s"
    using vm_more(3)[OF a] vm_more(1)[OF c] vm_more(3)[OF d] vm_more(3)[OF e] by simp
  let ?s6 = "task_prepare t dir' ks klen us ulen elf entry cseg dseg s5"
  note o5 = more_os[OF m5] and o8 = more_os[OF vm_more(2)[OF f]] and add = task_add_spec[OF g]
  let ?cpu = "ks + klen - 1 - CPU_STATE_SIZE"
  have st: "task_store s' = task_store ?s6" "cpu_store s' = cpu_store ?s6" "tasks s' = (tasks s)(p := t)"
    "current_task s' = current_task s" "eflags_if s' = eflags_if s"
    using h add(5) o8 o5 by (simp_all add: task_prepare_def Let_def)
  have ts: "tasks s8 = tasks s" using o8(1) o5(1) by (simp add: task_prepare_def Let_def)
  have fl: "bit (0 OR EFLAGS_IF OR EFLAGS_RESERVED) 9" "bit (0 OR EFLAGS_IF OR EFLAGS_RESERVED) 1"
    "\<not> bit (0 OR EFLAGS_IF OR EFLAGS_RESERVED) 17"
    by (simp_all add: EFLAGS_IF_def EFLAGS_RESERVED_def bit_simps)
  have "let task = task_store s' t; c = cpu_store s' (task_cpu task) in
       task_state task = TASK_RUNNING \<and> \<not> task_vm86 task \<and> task_elf task = elf \<and>
       kernel_stack_len task = klen \<and> user_stack_len task = ulen \<and>
       task_cpu task = kernel_stack task + klen - 1 - CPU_STATE_SIZE \<and>
       (\<forall>x. x \<noteq> task_cpu task \<longrightarrow> cpu_store s' x = cpu_store s x) \<and>
       eip c = entry \<and> cs c = gdt_get_selector (gdt_table s) cseg \<and>
       ds c = gdt_get_selector (gdt_table s) dseg \<and> user_ss c = ucast (gdt_get_selector (gdt_table s) dseg) \<and>
       user_esp c = user_stack task + ulen - 1 \<and>
       bit (eflags c) 9 \<and> bit (eflags c) 1 \<and> \<not> bit (eflags c) 17"
    unfolding st Let_def using fl by (simp add: task_prepare_def Let_def o5)
  moreover have "\<forall>x. x \<noteq> t \<longrightarrow> task_store s' x = task_store s x"
    unfolding st by (simp add: task_prepare_def Let_def o5)
  ultimately show ?thesis using add(1-4) st ts by auto
qed


lemma example_os_ready: "alloc_ready kernel_domain (example_os\<lparr>eflags_if := b, old_interrupts := c\<rparr>) 1"
proof -
  let ?s = "example_os\<lparr>eflags_if := b, old_interrupts := c\<rparr>"
  have "alloc_ready kernel_domain ?s 1 \<longleftrightarrow> alloc_ready kernel_domain example_mm 1"
    by (rule alloc_ready_cong) (simp_all add: example_os_def example_mm_def)
  then show ?thesis using example_mm_ready by simp
qed

lemma modify_same_directory:
  "vmm_modify_page_directory VMM_PAGEDIR s =
   Some (if old_directory s \<noteq> 0 then s else s\<lparr>eflags_if := False, old_interrupts := eflags_if s, old_directory := 0\<rparr>)"
  by (simp add: vmm_modify_page_directory_def vmm_load_page_directory_def)

lemma modified_idle: "old_directory s = 0 \<Longrightarrow> vmm_modified_page_directory s = Some s"
  by (simp add: vmm_modified_page_directory_def)

lemma alloc_nothing: "vmm_alloc 0 flags s = Some (0, s)"
  by (simp add: vmm_alloc_def pmm_alloc_def pmm_find_free_def vmm_find_free_def)


subsection \<open>Destroying a task\<close>

lemma task_destroy_stopped:
  assumes "task_get s p = Some t" "task_state t \<noteq> TASK_RUNNING" "task_destroy p s = Some s'"
  shows "tasks s' = (tasks s)(p := 0)" "task_store s' = task_store s" "current_task s' = current_task s"
    "eflags_if s' = eflags_if s"
proof -
  have g: "task_get (s\<lparr>eflags_if := False\<rparr>) p = Some t"
    using assms(1) by (simp add: task_get_def split: if_splits)
  obtain s1 s2 s3 s4 s5 s6 where
    a: "vmm_modify_page_directory (task_page_directory t) (s\<lparr>eflags_if := False\<rparr>) = Some s1"
    and b: "vmm_free (kernel_stack t) (kernel_stack_len t) s1 = Some s2"
    and c: "vmm_free (user_stack t) (user_stack_len t) s2 = Some s3"
    and d: "vmm_modified_page_directory s3 = Some s4"
    and e: "vmm_destroy_page_directory (task_page_directory t) s4 = Some s5"
    and f: "vmm_free (tasks s5 p) TASK_SIZE s5 = Some s6"
    and h: "s' = (task_remove p s6)\<lparr>eflags_if := eflags_if s\<rparr>"
    using assms(2,3) g unfolding task_destroy_def Let_def by (auto split: bind_splits)
  have "mm.more s6 = mm.more s"
    using vm_more(1)[OF a] vm_more(4)[OF b] vm_more(4)[OF c] vm_more(2)[OF d] vm_more(6)[OF e] vm_more(4)[OF f]
    by simp
  note o = more_os[OF this]
  show "tasks s' = (tasks s)(p := 0)" "task_store s' = task_store s" "current_task s' = current_task s"
    "eflags_if s' = eflags_if s"
    using h o by (simp_all add: task_remove_def)
qed

text \<open>
  Destroying a task. A task that has been stopped is taken out of its slot, no other slot changes
  and the interrupt flag is restored; a task that is still running stays, but the early return leaves interrupts disabled.
\<close>

theorem task_destroy_effect:
  assumes "task_get s p = Some t" and "task_destroy p s = Some s'"
  shows "if task_state t = TASK_RUNNING then s' = s\<lparr>eflags_if := False\<rparr>
    else tasks s' = (tasks s)(p := 0) \<and> task_store s' = task_store s \<and> current_task s' = current_task s \<and>
      eflags_if s' = eflags_if s"
proof (cases "task_state t = TASK_RUNNING")
  case True
  then show ?thesis
    using assms by (cases "tasks s p = 0") (auto simp: task_destroy_def Let_def task_get_def)
next
  case False
  then show ?thesis using task_destroy_stopped[OF assms(1) False assms(2)] by simp
qed

theorem task_destroy_effect_witness:
  "task_destroy 1 example_os = Some (example_os\<lparr>eflags_if := False\<rparr>) \<and> eflags_if example_os"
proof -
  have t: "task_get example_os 1 = Some (example_task TASK_RUNNING 0x400FA3)"
    by (simp add: task_get_def example_os_def)
  obtain s' where s': "task_destroy 1 example_os = Some s'"
    by (simp add: task_destroy_def Let_def task_get_def example_os_def example_task_def)
  show ?thesis
    using task_destroy_effect[OF t s'] s' by (simp add: example_task_def example_os_def)
qed

end
