(* ===== verification/Schedule.thy ===== *)
theory Schedule
  imports Task_Life
begin

unbundle bit_operations_syntax

text \<open>
  \<^verbatim>\<open>tasks/schedule.c\<close>: the round robin scheduler. A CPU state is passed by its address, which is also the
  stack pointer that the interrupt exit code loads.
\<close>

definition schedule_get_next_task :: "'a os_scheme \<Rightarrow> pid option" where
  "schedule_get_next_task s = task_get_next_task_with_state s (current_task s) TASK_RUNNING"

definition schedule_get_current_task :: "'a os_scheme \<Rightarrow> pid" where
  "schedule_get_current_task s = current_task s"

definition schedule_switch_task :: "pid \<Rightarrow> 'a os_scheme \<Rightarrow> (ptr \<times> 'a os_scheme) option" where
  "schedule_switch_task next_task s =
     do { cpu \<leftarrow> task_get_cpu s next_task;
          let s = s\<lparr>tss := tss_set_stack (cpu + CPU_STATE_SIZE) (tss s)\<rparr>;
          (_, s) \<leftarrow> task_set_ticks next_task (ticks_per_time_slice s) s;
          dir \<leftarrow> task_get_page_directory s next_task;
          (_, s) \<leftarrow> vmm_load_page_directory dir s;
          let s = s\<lparr>current_task := next_task\<rparr>;
          cpu \<leftarrow> task_get_cpu s next_task;
          Some (cpu, s) }"

definition schedule :: "ptr \<Rightarrow> 'a os_scheme \<Rightarrow> (ptr \<times> 'a os_scheme) option" where
  "schedule cpu s =
     do { next_task \<leftarrow> schedule_get_next_task s;
          if next_task = 0 then Some (cpu, s)
          else if current_task s \<noteq> 0 then do {
            ticks \<leftarrow> task_get_ticks s (current_task s);
            (old, s) \<leftarrow> task_set_ticks (current_task s) (ticks - 1) s;
            if 1 < old then Some (cpu, s)
            else do {
              s \<leftarrow> task_set_cpu (current_task s) cpu s;
              if current_task s = next_task then Some (cpu, s) else schedule_switch_task next_task s } }
          else schedule_switch_task next_task s }"

subsection \<open>Switching\<close>

lemma task_update_fields:
  assumes "task_update p f s = Some t"
  shows "tasks t = tasks s" "current_task t = current_task s" "tss t = tss s" "cpu_store t = cpu_store s"
    "task_store t = (task_store s)(tasks s p := f (task_store s (tasks s p)))"
    "ticks_per_time_slice t = ticks_per_time_slice s" "tasks s p \<noteq> 0" "eflags_if t = eflags_if s"
  using assms by (auto simp: task_update_def split: if_splits)

lemma task_get_update:
  "task_update p f s = Some t \<Longrightarrow> task_get t p = map_option f (task_get s p)"
  by (auto simp: task_update_def task_get_def split: if_splits)

lemma switch_task_effect:
  assumes "schedule_switch_task p s = Some (cpu, s')"
  shows "tasks s p \<noteq> 0" "cpu = task_cpu (task_store s (tasks s p))" "current_task s' = p"
    "esp0 (tss s') = cpu + CPU_STATE_SIZE" "tasks s' = tasks s" "eflags_if s' = eflags_if s"
    "task_store s' = (task_store s)(tasks s p := (task_store s (tasks s p))\<lparr>task_ticks := ticks_per_time_slice s\<rparr>)"
proof -
  obtain c where c: "task_get_cpu s p = Some c" using assms by (auto simp: schedule_switch_task_def split: bind_splits)
  let ?s1 = "s\<lparr>tss := tss_set_stack (c + CPU_STATE_SIZE) (tss s)\<rparr>"
  obtain old s2 dir s3 dirold where
    t: "task_set_ticks p (ticks_per_time_slice s) ?s1 = Some (old, s2)"
    and d: "task_get_page_directory s2 p = Some dir"
    and l: "vmm_load_page_directory dir s2 = Some (dirold, s3)"
    and e: "task_get_cpu (s3\<lparr>current_task := p\<rparr>) p = Some cpu" "s' = s3\<lparr>current_task := p\<rparr>"
    using assms c unfolding schedule_switch_task_def Let_def by (auto split: bind_splits)
  obtain u where u: "task_update p (\<lambda>t. t\<lparr>task_ticks := ticks_per_time_slice s\<rparr>) ?s1 = Some s2"
    using t by (auto simp: task_set_ticks_def split: bind_splits)
  note f = task_update_fields[OF u] and o = keeps_os[OF keeps_load_directory[OF l]]
    and k = keeps_fields(2)[OF keeps_load_directory[OF l]]
  show "tasks s p \<noteq> 0" using f(7) by simp
  show cpu: "cpu = task_cpu (task_store s (tasks s p))"
    using e(1) f o by (auto simp: task_get_cpu_def task_get_def split: if_splits)
  have "c = task_cpu (task_store s (tasks s p))" using c f(7) by (auto simp: task_get_cpu_def task_get_def)
  then show "esp0 (tss s') = cpu + CPU_STATE_SIZE" using e(2) f(3) o(7) cpu by (simp add: tss_set_stack_def)
  show "current_task s' = p" "tasks s' = tasks s" "eflags_if s' = eflags_if s"
    "task_store s' = (task_store s)(tasks s p := (task_store s (tasks s p))\<lparr>task_ticks := ticks_per_time_slice s\<rparr>)"
    using e(2) f o k by simp_all
qed

text \<open>
  C7: A timer tick. The scheduler resumes the interrupted task as long as its time slice has ticks left
  or no other task is running; otherwise it saves the CPU state of the interrupted
  task and switches to the next running task in round robin order, whose saved CPU state it returns, whose time slice it refills
  and on whose kernel stack the next interrupt will be handled.
\<close>

theorem schedule_step:
  assumes cur: "current_task s \<noteq> 0" "current_task s < MAX_TASKS" "tasks s (current_task s) \<noteq> 0"
    and res: "schedule cpu s = Some (cpu', s')"
  defines "next_task \<equiv> first_after (in_state s TASK_RUNNING) (current_task s)"
    and "ticks \<equiv> task_ticks (task_store s (tasks s (current_task s)))"
  shows "if next_task = 0 \<or> 1 < ticks \<or> next_task = current_task s
    then cpu' = cpu \<and> current_task s' = current_task s
    else current_task s' = next_task \<and> cpu' = task_cpu (task_store s' (tasks s' next_task)) \<and>
      task_ticks (task_store s' (tasks s' next_task)) = ticks_per_time_slice s \<and>
      esp0 (tss s') = cpu' + CPU_STATE_SIZE \<and>
      (tasks s next_task \<noteq> tasks s (current_task s) \<longrightarrow>
        task_cpu (task_store s' (tasks s (current_task s))) = cpu)"
proof -
  let ?c = "current_task s"
  have n: "schedule_get_next_task s = Some next_task"
    unfolding schedule_get_next_task_def next_task_def by (rule next_with_state_first[OF cur(2)])
  have tk: "task_get_ticks s ?c = Some ticks" using cur(3) by (simp add: task_get_ticks_def task_get_def ticks_def)
  obtain s1 where s1: "task_set_ticks ?c (ticks - 1) s = Some (ticks, s1)"
    "task_update ?c (\<lambda>t. t\<lparr>task_ticks := ticks - 1\<rparr>) s = Some s1"
    using cur(3) by (auto simp: task_set_ticks_def task_get_def task_update_def ticks_def)
  note f1 = task_update_fields[OF s1(2)]
  obtain s2 where s2: "task_set_cpu ?c cpu s1 = Some s2" "task_update ?c (\<lambda>t. t\<lparr>task_cpu := cpu\<rparr>) s1 = Some s2"
    using cur(3) f1(1) by (auto simp: task_set_cpu_def task_update_def)
  note f2 = task_update_fields[OF s2(2)]
  consider "next_task = 0" | "next_task \<noteq> 0" "1 < ticks" | "next_task = ?c" "\<not> 1 < ticks"
    | "next_task \<noteq> 0" "next_task \<noteq> ?c" "\<not> 1 < ticks" by blast
  then show ?thesis
  proof cases
    case 1
    then show ?thesis using res n by (simp add: schedule_def)
  next
    case 2
    then show ?thesis using res n tk s1(1) cur(1) f1(2) by (simp add: schedule_def)
  next
    case 3
    then show ?thesis using res n tk s1(1) s2(1) cur(1) f1(2) f2(2) by (simp add: schedule_def)
  next
    case 4
    have sw: "schedule_switch_task next_task s2 = Some (cpu', s')"
      using res 4 n tk s1(1) s2(1) cur(1) f1(2) f2(2) by (simp add: schedule_def)
    note w = switch_task_effect[OF sw]
    have ts: "tasks s' = tasks s" "tasks s2 = tasks s" using w(5) f2(1) f1(1) by simp_all
    have "cpu' = task_cpu (task_store s' (tasks s' next_task))" using w(2,7) ts by simp
    moreover have "task_ticks (task_store s' (tasks s' next_task)) = ticks_per_time_slice s"
      using w(7) ts f2(6) f1(6) by simp
    moreover have "task_cpu (task_store s' (tasks s ?c)) = cpu" if "tasks s next_task \<noteq> tasks s ?c"
      using w(7) ts f2(5) f1(1) that by simp
    ultimately show ?thesis using 4 w(3,4) by simp
  qed
qed

theorem schedule_step_witness:
  "\<exists>s'. schedule 0x400F00 example_os = Some (0x400FA3, s') \<and> current_task s' = 3 \<and>
     task_cpu (task_store s' (tasks s' 1)) = 0x400F00"
proof -
  have nx: "schedule_get_next_task example_os = Some 3"
    using next_with_state_first[of 1 example_os TASK_RUNNING] example_os_next
    by (simp add: schedule_get_next_task_def MAX_TASKS_def example_os_def)
  have "\<exists>cpu' s'. schedule 0x400F00 example_os = Some (cpu', s') \<and> tasks s' = tasks example_os \<and> cpu' = 0x400FA3"
    by (simp add: schedule_def nx) (simp add: schedule_switch_task_def task_get_ticks_def task_set_ticks_def task_get_def task_update_def
        task_set_cpu_def task_get_cpu_def task_get_page_directory_def vmm_load_page_directory_def
        example_os_def example_task_def)
  then obtain s' where s': "schedule 0x400F00 example_os = Some (0x400FA3, s')" "tasks s' = tasks example_os" by blast
  have cur: "current_task example_os = 1" by (simp add: example_os_def)
  have f: "first_after (in_state example_os TASK_RUNNING) (current_task example_os) = 3"
    using example_os_next cur by simp
  have "task_ticks (task_store example_os (tasks example_os 1)) = 1" "tasks example_os 1 = 0x500000"
    "tasks example_os 3 = 0x502000"
    by (simp_all add: example_os_def example_task_def)
  then show ?thesis
    using schedule_step[of example_os "0x400F00" "0x400FA3" s'] s' f cur by (simp add: MAX_TASKS_def)
qed

subsection \<open>A task that runs alone\<close>

primrec timer_ticks :: "ptr list \<Rightarrow> 'a os_scheme \<Rightarrow> 'a os_scheme option" where
  "timer_ticks [] s = Some s"
| "timer_ticks (cpu # cpus) s = do { (_, s) \<leftarrow> schedule cpu s; timer_ticks cpus s }"

definition current_struct :: "'a os_scheme \<Rightarrow> task" where
  "current_struct s = task_store s (tasks s (current_task s))"

definition valid_current :: "'a os_scheme \<Rightarrow> bool" where
  "valid_current s \<longleftrightarrow> current_task s \<noteq> 0 \<and> current_task s < MAX_TASKS \<and> tasks s (current_task s) \<noteq> 0"

lemma schedule_counts_down:
  assumes "valid_current s" "task_state (current_struct s) = TASK_RUNNING"
    and "1 < task_ticks (current_struct s) \<or> first_after (in_state s TASK_RUNNING) (current_task s) = current_task s"
  shows "\<exists>s'. schedule cpu s = Some (cpu, s') \<and> valid_current s' \<and> current_task s' = current_task s \<and>
    tasks s' = tasks s \<and> task_state (current_struct s') = TASK_RUNNING \<and>
    task_ticks (current_struct s') = task_ticks (current_struct s) - 1 \<and>
    in_state s' TASK_RUNNING = in_state s TASK_RUNNING"
proof -
  let ?c = "current_task s" and ?t = "current_struct s"
  let ?n = "first_after (in_state s TASK_RUNNING) ?c"
  have c: "?c \<noteq> 0" "?c < MAX_TASKS" "tasks s ?c \<noteq> 0" using assms(1) by (simp_all add: valid_current_def)
  have n: "schedule_get_next_task s = Some ?n"
    unfolding schedule_get_next_task_def by (rule next_with_state_first[OF c(2)])
  have "?c \<in> set (after (in_state s TASK_RUNNING) ?c)"
    using set_after[OF c(2), of "in_state s TASK_RUNNING"] c assms(2) by (simp add: in_state_def current_struct_def)
  then have "?n \<in> set (after (in_state s TASK_RUNNING) ?c)" by (intro first_after_in) auto
  then have n0: "?n \<noteq> 0" unfolding set_after[OF c(2)] by auto
  have tk: "task_get_ticks s ?c = Some (task_ticks ?t)"
    using c(3) by (simp add: task_get_ticks_def task_get_def current_struct_def)
  let ?s1 = "s\<lparr>task_store := (task_store s)(tasks s ?c := ?t\<lparr>task_ticks := task_ticks ?t - 1\<rparr>)\<rparr>"
  have s1: "task_set_ticks ?c (task_ticks ?t - 1) s = Some (task_ticks ?t, ?s1)"
    using c(3) by (simp add: task_set_ticks_def task_get_def task_update_def current_struct_def)
  let ?s2 = "s\<lparr>task_store := (task_store s)(tasks s ?c := ?t\<lparr>task_ticks := task_ticks ?t - 1, task_cpu := cpu\<rparr>)\<rparr>"
  have s2: "task_set_cpu ?c cpu ?s1 = Some ?s2"
    using c(3) by (simp add: task_set_cpu_def task_update_def)
  let ?s' = "if 1 < task_ticks ?t then ?s1 else ?s2"
  have "schedule cpu s = Some (cpu, ?s')"
    using n n0 tk s1 s2 c(1) assms(3)
    by (cases "1 < task_ticks ?t"; cases "?c = ?n") (simp_all add: schedule_def)
  moreover have "in_state ?s' TASK_RUNNING = in_state s TASK_RUNNING"
    using assms(2) by (auto simp: in_state_def fun_eq_iff current_struct_def)
  moreover have "valid_current ?s'" "current_task ?s' = ?c" "tasks ?s' = tasks s"
    "task_state (current_struct ?s') = TASK_RUNNING" "task_ticks (current_struct ?s') = task_ticks ?t - 1"
    using c assms(2) by (simp_all add: valid_current_def current_struct_def)
  ultimately show ?thesis by blast
qed

text \<open>
  A time slice is refilled only by a task switch, but it also runs while the current task is
  the only one. Two ticks after a task is left alone with one tick in its slice, the counter has
  wrapped around to 4294967295. From then on, whatever tasks are created, that many minus one timer ticks pass
  before the scheduler looks at another task.
\<close>

theorem lone_task_keeps_the_processor:
  fixes s :: "'a os_scheme"
  assumes "valid_current s" "task_state (current_struct s) = TASK_RUNNING" "task_ticks (current_struct s) = 1"
    and "first_after (in_state s TASK_RUNNING) (current_task s) = current_task s"
  shows "\<exists>s2. timer_ticks [cpu1, cpu2] s = Some s2 \<and> task_ticks (current_struct s2) = 4294967295 \<and>
    (\<forall>(t :: 'a os_scheme) cpus. valid_current t \<longrightarrow> current_task t = current_task s2 \<longrightarrow> current_struct t = current_struct s2 \<longrightarrow>
       length cpus < 4294967295 \<longrightarrow>
       (\<exists>t'. timer_ticks cpus t = Some t' \<and> current_task t' = current_task t))"
proof -
  obtain s1 where s1: "schedule cpu1 s = Some (cpu1, s1)" "valid_current s1" "current_task s1 = current_task s"
    "task_state (current_struct s1) = TASK_RUNNING" "task_ticks (current_struct s1) = 0"
    "in_state s1 TASK_RUNNING = in_state s TASK_RUNNING"
    using schedule_counts_down[OF assms(1,2), of cpu1] assms(3,4) by auto
  obtain s2 where s2: "schedule cpu2 s1 = Some (cpu2, s2)" "task_state (current_struct s2) = TASK_RUNNING"
    "task_ticks (current_struct s2) = - 1"
    using schedule_counts_down[OF s1(2,4), of cpu2] s1(3,5,6) assms(4) by auto
  have run: "\<exists>t'. timer_ticks cpus t = Some t' \<and> current_task t' = current_task t"
    if "valid_current t" "task_state (current_struct t) = TASK_RUNNING"
      "length cpus < unat (task_ticks (current_struct t))" for t :: "'a os_scheme" and cpus
    using that
  proof (induction cpus arbitrary: t)
    case (Cons c cpus)
    then have "1 < unat (task_ticks (current_struct t))" by simp
    then have gt: "1 < task_ticks (current_struct t)" by (simp add: word_less_nat_alt)
    obtain t' where t': "schedule c t = Some (c, t')" "valid_current t'" "current_task t' = current_task t"
      "task_state (current_struct t') = TASK_RUNNING"
      "task_ticks (current_struct t') = task_ticks (current_struct t) - 1"
      using schedule_counts_down[OF Cons.prems(1,2), of c] gt by blast
    have "unat (task_ticks (current_struct t) - 1) = unat (task_ticks (current_struct t)) - 1"
      using gt by (simp add: unat_sub_small word_less_nat_alt)
    then show ?case using Cons.IH[OF t'(2,4)] Cons.prems(3) t' by auto
  qed simp
  have w: "task_ticks (current_struct s2) = 4294967295" using s2(3) by simp
  have "\<exists>t'. timer_ticks cpus t = Some t' \<and> current_task t' = current_task t"
    if t: "valid_current t" "current_struct t = current_struct s2" "length cpus < 4294967295"
    for t :: "'a os_scheme" and cpus
  proof -
    have "unat (task_ticks (current_struct t)) = 4294967295" unfolding t(2) w by simp
    then show ?thesis using run[OF t(1)] t s2(2) by simp
  qed
  moreover have "timer_ticks [cpu1, cpu2] s = Some s2" using s1(1) s2(1) by simp
  ultimately show ?thesis using w by blast
qed

text \<open>Only task 1 is running.\<close>

definition lone_os :: os where
  "lone_os = example_os\<lparr>tasks := (\<lambda>_. 0)(1 := 0x500000)\<rparr>"

theorem lone_task_keeps_the_processor_witness:
  "\<exists>s2. timer_ticks [0x400F00, 0x400F00] lone_os = Some s2 \<and> task_ticks (current_struct s2) = 4294967295"
proof -
  have v: "valid_current lone_os" "current_task lone_os = 1"
    by (simp_all add: valid_current_def lone_os_def example_os_def MAX_TASKS_def)
  have c: "task_state (current_struct lone_os) = TASK_RUNNING" "task_ticks (current_struct lone_os) = 1"
    by (simp_all add: current_struct_def lone_os_def example_os_def example_task_def)
  have r: "in_state lone_os TASK_RUNNING q \<longleftrightarrow> q = 1" for q
    by (simp add: in_state_def lone_os_def example_os_def example_task_def)
  have "filter (in_state lone_os TASK_RUNNING) [2..<MAX_TASKS] = []" by (auto simp: filter_empty_conv r)
  then have "first_after (in_state lone_os TASK_RUNNING) (current_task lone_os) = current_task lone_os"
    by (simp add: first_after_def after_def v(2) r numeral_2_eq_2)
  then show ?thesis
    using lone_task_keeps_the_processor[OF v(1) c, of "0x400F00" "0x400F00"] by blast
qed

end
