(* ===== verification/Bytes.thy ===== *)
theory Bytes
  imports MMU
begin

unbundle bit_operations_syntax

text \<open>
  \<^verbatim>\<open>lib/string.c\<close> over the memory of \<open>MMU\<close>, byte by byte: \<^verbatim>\<open>memcpy\<close>, \<^verbatim>\<open>memset\<close>, \<^verbatim>\<open>strlen\<close> and \<^verbatim>\<open>strcmp\<close>.
  A byte access goes through the page walk like every access; \<open>None\<close> is a page fault. The two string
  loops are partial functions. What the loops need of a memory is the interface \<open>byte_memory\<close>;
  memory whose page tables lie outside the accessed region provides it.
\<close>

subsection \<open>Bytes of a double word\<close>

definition byte_shift :: "ptr \<Rightarrow> nat" where
  "byte_shift a = 8 * unat (a AND 3)"

definition get_byte :: "u32 \<Rightarrow> ptr \<Rightarrow> u8" where
  "get_byte w a = ucast (drop_bit (byte_shift a) w)"

definition put_byte :: "ptr \<Rightarrow> u8 \<Rightarrow> u32 \<Rightarrow> u32" where
  "put_byte a b w = (w AND NOT (push_bit (byte_shift a) 0xFF)) OR push_bit (byte_shift a) (ucast b)"

definition load8 :: "'a mm_scheme \<Rightarrow> ptr \<Rightarrow> u8 option" where
  "load8 s va = map_option (\<lambda>pa. get_byte (pmem s (phys_frame pa) (phys_slot pa)) pa) (mmu_translate s va)"

definition store8 :: "ptr \<Rightarrow> u8 \<Rightarrow> 'a mm_scheme \<Rightarrow> 'a mm_scheme option" where
  "store8 va b s = map_option (\<lambda>pa. poke (phys_frame pa) (phys_slot pa)
     (put_byte pa b (pmem s (phys_frame pa) (phys_slot pa))) s) (mmu_translate s va)"

text \<open>Little-endian halves and double words at any alignment.\<close>

definition load16 :: "'a mm_scheme \<Rightarrow> ptr \<Rightarrow> u16 option" where
  "load16 s va = do { a \<leftarrow> load8 s va; b \<leftarrow> load8 s (va + 1); Some (ucast a OR push_bit 8 (ucast b)) }"

definition load32 :: "'a mm_scheme \<Rightarrow> ptr \<Rightarrow> u32 option" where
  "load32 s va = do { a \<leftarrow> load16 s va; b \<leftarrow> load16 s (va + 2); Some (ucast a OR push_bit 16 (ucast b)) }"

definition store16 :: "ptr \<Rightarrow> u16 \<Rightarrow> 'a mm_scheme \<Rightarrow> 'a mm_scheme option" where
  "store16 va v s = do { s \<leftarrow> store8 va (ucast v) s; store8 (va + 1) (ucast (drop_bit 8 v)) s }"

subsection \<open>The routines\<close>

text \<open>The loops over an arbitrary byte memory.\<close>

primrec copy_loop ::
  "('s \<Rightarrow> ptr \<Rightarrow> u8 option) \<Rightarrow> (ptr \<Rightarrow> u8 \<Rightarrow> 's \<Rightarrow> 's option) \<Rightarrow> nat \<Rightarrow> ptr \<Rightarrow> ptr \<Rightarrow> 's \<Rightarrow> 's option" where
  "copy_loop rd wr 0 d s m = Some m"
| "copy_loop rd wr (Suc n) d s m =
     do { b \<leftarrow> rd m s; m \<leftarrow> wr d b m; copy_loop rd wr n (d + 1) (s + 1) m }"

primrec fill_loop :: "(ptr \<Rightarrow> u8 \<Rightarrow> 's \<Rightarrow> 's option) \<Rightarrow> nat \<Rightarrow> ptr \<Rightarrow> u8 \<Rightarrow> 's \<Rightarrow> 's option" where
  "fill_loop wr 0 p v m = Some m"
| "fill_loop wr (Suc n) p v m = do { m \<leftarrow> wr p v m; fill_loop wr n (p + 1) v m }"

definition memcpy :: "ptr \<Rightarrow> ptr \<Rightarrow> u32 \<Rightarrow> 'a mm_scheme \<Rightarrow> 'a mm_scheme option" where
  "memcpy dst src num m = copy_loop load8 store8 (unat num) dst src m"

definition memset :: "ptr \<Rightarrow> u32 \<Rightarrow> u32 \<Rightarrow> 'a mm_scheme \<Rightarrow> 'a mm_scheme option" where
  "memset p val num m = fill_loop store8 (unat num) p (ucast val) m"

partial_function (option) strlen_loop :: "('s \<Rightarrow> ptr \<Rightarrow> u8 option) \<Rightarrow> 's \<Rightarrow> ptr \<Rightarrow> ptr option" where
  "strlen_loop rd m s = Option.bind (rd m s) (\<lambda>c. if c \<noteq> 0 then strlen_loop rd m (s + 1) else Some s)"

definition strlen :: "'a mm_scheme \<Rightarrow> ptr \<Rightarrow> u32 option" where
  "strlen m str = do { s \<leftarrow> strlen_loop load8 m str; Some (s - str) }"

text \<open>
  \<^verbatim>\<open>char\<close> is signed; the result of the subtraction in \<^verbatim>\<open>int\<close> is returned as \<^verbatim>\<open>uint32_t\<close>.
\<close>

partial_function (option) strcmp_loop :: "('s \<Rightarrow> ptr \<Rightarrow> u8 option) \<Rightarrow> 's \<Rightarrow> ptr \<Rightarrow> ptr \<Rightarrow> u32 option" where
  "strcmp_loop rd m s1 s2 =
     Option.bind (rd m s1) (\<lambda>a. Option.bind (rd m s2) (\<lambda>b.
       if a \<noteq> 0 \<and> a = b then strcmp_loop rd m (s1 + 1) (s2 + 1) else Some (scast a - scast b)))"

definition strcmp :: "'a mm_scheme \<Rightarrow> ptr \<Rightarrow> ptr \<Rightarrow> u32 option" where
  "strcmp m s1 s2 = strcmp_loop load8 m s1 s2"

subsection \<open>What the routines need of a memory\<close>

locale byte_memory =
  fixes rd :: "'s \<Rightarrow> ptr \<Rightarrow> u8 option"
    and wr :: "ptr \<Rightarrow> u8 \<Rightarrow> 's \<Rightarrow> 's option"
    and plain :: "'s \<Rightarrow> ptr set \<Rightarrow> bool"
  assumes rd_defined: "plain m A \<Longrightarrow> a \<in> A \<Longrightarrow> \<exists>b. rd m a = Some b"
    and wr_defined: "plain m A \<Longrightarrow> a \<in> A \<Longrightarrow> \<exists>m'. wr a b m = Some m'"
    and wr_plain: "plain m A \<Longrightarrow> a \<in> A \<Longrightarrow> wr a b m = Some m' \<Longrightarrow> plain m' A"
    and rd_wr: "plain m A \<Longrightarrow> a \<in> A \<Longrightarrow> c \<in> A \<Longrightarrow> wr a b m = Some m' \<Longrightarrow> rd m' c = (if c = a then Some b else rd m c)"
begin

lemma fill_spec:
  assumes "plain m A" "\<forall>i<n. p + of_nat i \<in> A" "n \<le> 2 ^ 32"
  shows "\<exists>m'. fill_loop wr n p v m = Some m' \<and> plain m' A \<and>
    (\<forall>c\<in>A. rd m' c = (if unat (c - p) < n then Some v else rd m c))"
  using assms
proof (induction n arbitrary: p m)
  case (Suc n)
  have p: "p \<in> A" using Suc.prems(2)[rule_format, of 0] by simp
  obtain m1 where m1: "wr p v m = Some m1" using wr_defined[OF Suc.prems(1) p] by blast
  have 1: "plain m1 A" by (rule wr_plain[OF Suc.prems(1) p m1])
  have "p + 1 + of_nat i = p + of_nat (Suc i)" for i :: nat by simp
  then have 2: "\<forall>i<n. p + 1 + of_nat i \<in> A" using Suc.prems(2) by (metis Suc_mono)
  have "n \<le> 2 ^ 32" using Suc.prems(3) by simp
  then obtain m' where m': "fill_loop wr n (p + 1) v m1 = Some m'" "plain m' A"
    "\<forall>c\<in>A. rd m' c = (if unat (c - (p + 1)) < n then Some v else rd m1 c)"
    using Suc.IH[OF 1 2] by blast
  have "rd m' c = (if unat (c - p) < Suc n then Some v else rd m c)" if c: "c \<in> A" for c
  proof (cases "c = p")
    case True
    then show ?thesis using m'(3) c rd_wr[OF Suc.prems(1) p p m1] by simp
  next
    case False
    then have "0 < unat (c - p)" by (simp add: unat_gt_0)
    then have "unat (c - (p + 1)) = unat (c - p) - 1"
      by (simp add: unat_sub_small diff_diff_eq[symmetric] Suc_le_eq)
    then have "unat (c - (p + 1)) < n \<longleftrightarrow> unat (c - p) < Suc n" using \<open>0 < unat (c - p)\<close> by linarith
    then show ?thesis using m'(3) c False rd_wr[OF Suc.prems(1) p c m1] by simp
  qed
  then show ?case using m1 m' by auto
qed auto

text \<open>The source is not overwritten.\<close>

lemma copy_spec:
  assumes "plain m A" "\<forall>i<n. d + of_nat i \<in> A" "\<forall>i<n. s + of_nat i \<in> A" "n \<le> 2 ^ 32"
    "\<forall>i<n. \<forall>j<n. d + of_nat i \<noteq> s + of_nat j"
  shows "\<exists>m'. copy_loop rd wr n d s m = Some m' \<and> plain m' A \<and>
    (\<forall>c\<in>A. rd m' c = (if unat (c - d) < n then rd m (s + (c - d)) else rd m c))"
  using assms
proof (induction n arbitrary: d s m)
  case (Suc n)
  have d: "d \<in> A" and s: "s \<in> A" using Suc.prems(2,3)[rule_format, of 0] by simp_all
  obtain b where b: "rd m s = Some b" using rd_defined[OF Suc.prems(1) s] by blast
  obtain m1 where m1: "wr d b m = Some m1" using wr_defined[OF Suc.prems(1) d] by blast
  have 1: "plain m1 A" by (rule wr_plain[OF Suc.prems(1) d m1])
  have e: "p + 1 + of_nat i = p + of_nat (Suc i)" for i :: nat and p :: ptr by simp
  have in1: "\<forall>i<n. d + 1 + of_nat i \<in> A" "\<forall>i<n. s + 1 + of_nat i \<in> A"
    "\<forall>i<n. \<forall>j<n. d + 1 + of_nat i \<noteq> s + 1 + of_nat j"
    using Suc.prems(2,3,5) unfolding e by blast+
  obtain m' where m': "copy_loop rd wr n (d + 1) (s + 1) m1 = Some m'" "plain m' A"
    "\<forall>c\<in>A. rd m' c = (if unat (c - (d + 1)) < n then rd m1 (s + 1 + (c - (d + 1))) else rd m1 c)"
    using Suc.IH[OF 1 in1(1,2) _ in1(3)] Suc.prems(4) by auto
  have src: "rd m1 (s + of_nat i) = rd m (s + of_nat i)" if "i < Suc n" for i
  proof -
    have "s + of_nat i \<noteq> d" using Suc.prems(5)[rule_format, of 0 i] that by simp
    then show ?thesis using rd_wr[OF Suc.prems(1) d _ m1] Suc.prems(3) that by auto
  qed
  have "rd m' c = (if unat (c - d) < Suc n then rd m (s + (c - d)) else rd m c)" if c: "c \<in> A" for c
  proof (cases "c = d")
    case True
    have "\<not> unat (d - (d + 1)) < n" using Suc.prems(4) unsigned_minus_1_eq_mask[where ?'a = nat and ?'b = 32] by (simp add: mask_eq_exp_minus_1)
    then show ?thesis using True m'(3) c rd_wr[OF Suc.prems(1) d d m1] b by simp
  next
    case False
    then have pos: "0 < unat (c - d)" by (simp add: unat_gt_0)
    then have u: "unat (c - (d + 1)) = unat (c - d) - 1"
      by (simp add: unat_sub_small diff_diff_eq[symmetric] Suc_le_eq)
    then have i: "unat (c - (d + 1)) < n \<longleftrightarrow> unat (c - d) < Suc n" using pos by linarith
    have "rd m1 (s + (c - d)) = rd m (s + (c - d))" if "unat (c - d) < Suc n"
      using src[OF that] by simp
    moreover have "s + 1 + (c - (d + 1)) = s + (c - d)" by simp
    ultimately show ?thesis
      using m'(3)[rule_format, OF c] False rd_wr[OF Suc.prems(1) d c m1] unfolding i by simp
  qed
  then show ?case using b m1 m' by auto
qed auto

text \<open>A terminated string of \<open>n\<close> bytes.\<close>

lemma strlen_spec:
  "\<forall>i<n. \<exists>c. rd m (s + of_nat i) = Some c \<and> c \<noteq> 0 \<Longrightarrow> rd m (s + of_nat n) = Some 0 \<Longrightarrow>
   strlen_loop rd m s = Some (s + of_nat n)"
proof (induction n arbitrary: s)
  case 0
  then show ?case by (subst strlen_loop.simps) simp
next
  case (Suc n)
  have e: "s + 1 + of_nat i = s + of_nat (Suc i)" for i :: nat by simp
  obtain c where "rd m s = Some c" "c \<noteq> 0" using Suc.prems(1)[rule_format, of 0] by auto
  then have "strlen_loop rd m s = strlen_loop rd m (s + 1)" by (subst strlen_loop.simps) simp
  also have "\<dots> = Some (s + 1 + of_nat n)"
    using Suc.prems by (intro Suc.IH) (auto simp only: e Suc_less_eq)
  finally show ?case by (simp only: e)
qed

lemma strcmp_equal:
  "\<forall>i<n. \<exists>c. rd m (s + of_nat i) = Some c \<and> rd m (t + of_nat i) = Some c \<and> c \<noteq> 0 \<Longrightarrow>
   rd m (s + of_nat n) = Some a \<Longrightarrow> rd m (t + of_nat n) = Some b \<Longrightarrow> a = 0 \<or> a \<noteq> b \<Longrightarrow>
   strcmp_loop rd m s t = Some (scast a - scast b)"
proof (induction n arbitrary: s t)
  case 0
  then show ?case by (subst strcmp_loop.simps) auto
next
  case (Suc n)
  have e: "p + 1 + of_nat i = p + of_nat (Suc i)" for i :: nat and p :: ptr by simp
  obtain c where "rd m s = Some c" "rd m t = Some c" "c \<noteq> 0" using Suc.prems(1)[rule_format, of 0] by auto
  then have "strcmp_loop rd m s t = strcmp_loop rd m (s + 1) (t + 1)" by (subst strcmp_loop.simps) simp
  also have "\<dots> = Some (scast a - scast b)"
    using Suc.prems by (intro Suc.IH) (auto simp only: e Suc_less_eq)
  finally show ?case .
qed

end

subsection \<open>Memory outside the page tables\<close>

text \<open>
  \<open>flat s A\<close>: every address of \<open>A\<close> is mapped, no two to the same place, and
  none into the page directory or a page table that translates an address of \<open>A\<close>.
\<close>

definition flat :: "'a mm_scheme \<Rightarrow> ptr set \<Rightarrow> bool" where
  "flat s A \<longleftrightarrow> (\<forall>a\<in>A. mmu_translate s a \<noteq> None) \<and> inj_on (mmu_translate s) A \<and>
     (cr0_pg s \<longrightarrow> (\<forall>a\<in>A. \<forall>pa. mmu_translate s a = Some pa \<longrightarrow> phys_frame pa \<noteq> phys_frame (cr3 s) \<and>
        (\<forall>c\<in>A. phys_frame pa \<noteq> entry_frame (pmem s (phys_frame (cr3 s)) (dir_index c)))))"

lemma translate_poke:
  assumes "flat s A" "a \<in> A" "mmu_translate s a = Some pa" "c \<in> A"
  shows "mmu_translate (poke (phys_frame pa) i v s) c = mmu_translate s c"
proof (cases "cr0_pg s")
  case True
  then have "phys_frame pa \<noteq> phys_frame (cr3 s)" "phys_frame pa \<noteq> entry_frame (pmem s (phys_frame (cr3 s)) (dir_index c))"
    using assms unfolding flat_def by blast+
  then show ?thesis by (simp add: mmu_translate_def poke_def Let_def)
qed (simp add: mmu_translate_def poke_def)

lemma flat_poke:
  assumes "flat s A" "a \<in> A" "mmu_translate s a = Some pa"
  shows "flat (poke (phys_frame pa) i v s) A"
proof -
  have cr: "cr0_pg (poke (phys_frame pa) i v s) = cr0_pg s" "cr3 (poke (phys_frame pa) i v s) = cr3 s"
    by (simp_all add: poke_def)
  have dir: "pmem (poke (phys_frame pa) i v s) (phys_frame (cr3 s)) = pmem s (phys_frame (cr3 s))" if "cr0_pg s"
    using assms that unfolding flat_def by (simp add: poke_def) metis
  have "inj_on (mmu_translate (poke (phys_frame pa) i v s)) A \<longleftrightarrow> inj_on (mmu_translate s) A"
    by (rule inj_on_cong) (rule translate_poke[OF assms])
  then show ?thesis using assms(1) translate_poke[OF assms] unfolding flat_def cr using dir by auto
qed

lemma bit_3: "bit (3 :: u32) n \<longleftrightarrow> n < 2"
  by (rule bit_TYPE_MASK)

text \<open>Two physical addresses differ in the frame, the slot or the byte.\<close>

lemma phys_address_eq:
  "phys_frame pa = phys_frame pb \<Longrightarrow> phys_slot pa = phys_slot pb \<Longrightarrow> pa AND 3 = pb AND 3 \<Longrightarrow> pa = pb"
proof (rule word_eq_split[where k = 2 and l = 10])
  fix n assume f: "phys_frame pa = phys_frame pb" and s: "phys_slot pa = phys_slot pb" and l: "pa AND 3 = pb AND 3"
  have "bit (pa AND 3) n = bit (pb AND 3) n" using l by simp
  then show "bit pa n \<longleftrightarrow> bit pb n" if "n < 2" using that bit_3[of n] by (simp only: bit_and_iff) simp
  have "bit (phys_slot pa) n = bit (phys_slot pb) n" using s by simp
  then show "bit pa (2 + n) \<longleftrightarrow> bit pb (2 + n)" if "n < 10" using that by (simp add: phys_slot_def bit_simps)
  have "bit (phys_frame pa) n = bit (phys_frame pb) n" using f by simp
  then show "bit pa (2 + 10 + n) \<longleftrightarrow> bit pb (2 + 10 + n)" if "2 + 10 + n < LENGTH(32)"
    using that by (simp add: phys_frame_def bit_simps)
qed

lemma unat_and_3: "unat ((a :: ptr) AND 3) < 4"
proof -
  have "a AND 3 = take_bit 2 a" by (simp add: take_bit_eq_mask mask_eq_exp_minus_1)
  moreover have "unat (take_bit 2 a) < 4" by (simp only: unsigned_take_bit_eq) (simp add: take_bit_eq_mod)
  ultimately show ?thesis by simp
qed

lemma get_put_byte: "get_byte (put_byte a b w) c = (if a AND 3 = c AND 3 then b else get_byte w c)"
proof (rule bit_word_eqI)
  fix n assume "n < LENGTH(8)"
  then have n: "n < 8" by simp
  define x y where "x = unat (a AND 3)" and "y = unat (c AND 3)"
  have xy: "x < 4" "y < 4" "a AND 3 = c AND 3 \<longleftrightarrow> x = y"
    by (simp_all add: x_def y_def unat_and_3 word_unat_eq_iff)
  have l: "8 * y + n < 32" using xy(2) n by linarith
  have in_x: "8 * x \<le> 8 * y + n \<and> 8 * y + n - 8 * x < 8 \<longleftrightarrow> x = y" using n by linarith
  have "bit (get_byte (put_byte a b w) c) n \<longleftrightarrow> bit (put_byte a b w) (8 * y + n)"
    using n l by (simp add: get_byte_def byte_shift_def y_def[symmetric] bit_simps)
  also have "\<dots> \<longleftrightarrow> bit w (8 * y + n) \<and> x \<noteq> y \<or> x = y \<and> bit b n"
    using l in_x n unfolding put_byte_def byte_shift_def x_def[symmetric] mask_consts
    by (auto simp: bit_simps bit_beyond)
  finally show "bit (get_byte (put_byte a b w) c) n = bit (if a AND 3 = c AND 3 then b else get_byte w c) n"
    using n l unfolding xy(3) by (auto simp: get_byte_def byte_shift_def y_def[symmetric] bit_simps)
qed

lemma store8_flat:
  assumes "flat s A" "a \<in> A"
  shows "\<exists>t. store8 a b s = Some t"
    and "store8 a b s = Some t \<Longrightarrow> flat t A"
    and "store8 a b s = Some t \<Longrightarrow> c \<in> A \<Longrightarrow> load8 t c = (if c = a then Some b else load8 s c)"
proof -
  obtain pa where pa: "mmu_translate s a = Some pa" using assms unfolding flat_def by blast
  show "\<exists>t. store8 a b s = Some t" using pa by (simp add: store8_def)
  let ?w = "put_byte pa b (pmem s (phys_frame pa) (phys_slot pa))"
  have t: "store8 a b s = Some t \<longleftrightarrow> t = poke (phys_frame pa) (phys_slot pa) ?w s" for t
    using pa by (auto simp: store8_def)
  show "store8 a b s = Some t \<Longrightarrow> flat t A" unfolding t using flat_poke[OF assms pa] by simp
  assume st: "store8 a b s = Some t" and c: "c \<in> A"
  obtain pc where pc: "mmu_translate s c = Some pc" using assms(1) c unfolding flat_def by blast
  have eq: "pa = pc \<longleftrightarrow> c = a" using pa pc assms c unfolding flat_def inj_on_def by (metis option.inject)
  have "load8 t c = Some (get_byte (pmem t (phys_frame pc) (phys_slot pc)) pc)"
    using st pc translate_poke[OF assms pa c] unfolding t by (simp add: load8_def)
  also have "pmem t (phys_frame pc) (phys_slot pc) =
      (if phys_frame pa = phys_frame pc \<and> phys_slot pa = phys_slot pc then ?w else pmem s (phys_frame pc) (phys_slot pc))"
    using st unfolding t by (simp add: poke_def)
  also have "get_byte \<dots> pc = (if c = a then b else get_byte (pmem s (phys_frame pc) (phys_slot pc)) pc)"
    using phys_address_eq[of pa pc] unfolding eq[symmetric] by (auto simp: get_put_byte)
  finally have "load8 t c = Some (if c = a then b else get_byte (pmem s (phys_frame pc) (phys_slot pc)) pc)" .
  then show "load8 t c = (if c = a then Some b else load8 s c)" using pc by (simp add: load8_def[of s])
qed

lemma load8_flat: "flat s A \<Longrightarrow> a \<in> A \<Longrightarrow> \<exists>b. load8 s a = Some b"
  by (auto simp: flat_def load8_def)

interpretation bytes: byte_memory "load8 :: 'a mm_scheme \<Rightarrow> _" store8 flat
  by unfold_locales (auto simp: store8_flat load8_flat)

lemma memcpy_flat:
  assumes "flat s A" and "\<forall>i<unat num. dst + of_nat i \<in> A" and "\<forall>i<unat num. src + of_nat i \<in> A"
    and "\<forall>i<unat num. \<forall>j<unat num. dst + of_nat i \<noteq> src + of_nat j"
  shows "\<exists>t. memcpy dst src num s = Some t \<and> flat t A \<and>
    (\<forall>c\<in>A. load8 t c = (if unat (c - dst) < unat num then load8 s (src + (c - dst)) else load8 s c))"
  unfolding memcpy_def using assms unat_bound[of num] by (intro bytes.copy_spec) simp_all

text \<open>
  C31: \<^verbatim>\<open>memcpy\<close> between disjoint regions of plain memory returns, makes every byte of the destination equal to
  its byte of the source and changes no other byte; in particular the source is intact.
\<close>

theorem memcpy_copies:
  assumes "flat s A" and "\<forall>i<unat num. dst + of_nat i \<in> A" and "\<forall>i<unat num. src + of_nat i \<in> A"
    and "\<forall>i<unat num. \<forall>j<unat num. dst + of_nat i \<noteq> src + of_nat j"
  shows "\<exists>t. memcpy dst src num s = Some t \<and> flat t A \<and>
    (\<forall>c\<in>A. load8 t c = (if unat (c - dst) < unat num then load8 s (src + (c - dst)) else load8 s c))"
  using assms by (rule memcpy_flat)

text \<open>Without paging all of memory is plain.\<close>

definition plain_mm :: mm where
  "plain_mm = \<lparr>bitmap = (\<lambda>_. 0), highest_kernel_page = 0, pmem = (\<lambda>f i. if f = 1 then 0x636261 else 0),
     cr3 = 0, cr0_pg = False, eflags_if = False, tlb_log = [], page_directory = 0, old_directory = 0,
     old_interrupts = False, domain_check_enabled = False\<rparr>"

lemma flat_plain_mm: "flat plain_mm UNIV"
  by (simp add: flat_def plain_mm_def mmu_translate_def inj_on_def)

theorem memcpy_copies_witness:
  "\<exists>t. memcpy 0x2000 0x1000 4 plain_mm = Some t \<and> load8 t 0x2001 = load8 plain_mm 0x1001"
proof -
  have "(0x2000 :: ptr) + of_nat i \<noteq> 0x1000 + of_nat j" if "i < 4" "j < 4" for i j
  proof -
    have "i \<in> {0, 1, 2, 3}" "j \<in> {0, 1, 2, 3}" using that by auto
    then show ?thesis by auto
  qed
  then show ?thesis
    using memcpy_copies[OF flat_plain_mm, of 4 "0x2000" "0x1000"] by (auto dest!: spec[of _ "0x2001"])
qed

text \<open>\<^verbatim>\<open>strlen\<close> and \<^verbatim>\<open>strcmp\<close> of terminated strings.\<close>

lemma strlen_terminated:
  "\<forall>i<n. \<exists>c. load8 m (s + of_nat i) = Some c \<and> c \<noteq> 0 \<Longrightarrow> load8 m (s + of_nat n) = Some 0 \<Longrightarrow>
   strlen m s = Some (of_nat n)"
  using bytes.strlen_spec[of n m s] by (simp add: strlen_def)

lemma strcmp_same_string:
  "\<forall>i<n. \<exists>c. load8 m (s + of_nat i) = Some c \<and> load8 m (t + of_nat i) = Some c \<and> c \<noteq> 0 \<Longrightarrow>
   load8 m (s + of_nat n) = Some 0 \<Longrightarrow> load8 m (t + of_nat n) = Some 0 \<Longrightarrow> strcmp m s t = Some 0"
  using bytes.strcmp_equal[of n m s t 0 0] by (simp add: strcmp_def)

end
