(* ===== verification/ELF.thy ===== *)
theory ELF
  imports Schedule Bytes
begin

unbundle bit_operations_syntax

text \<open>
  \<^verbatim>\<open>tasks/elf.c\<close>: the check of an executable, loading and unloading its segments and the tasks that run
  it, and \<^verbatim>\<open>schedule_finalize_tasks\<close> of \<^verbatim>\<open>tasks/schedule.c\<close>, which destroys both kinds of tasks. The file
  is in the memory of \<open>MMU\<close>; every access to a field is a load at its offset, in the order of the code.
\<close>

definition MAGIC_0 :: u8 where "MAGIC_0 = 0x7F"
definition MAGIC_1 :: u8 where "MAGIC_1 = 0x45"
definition MAGIC_2 :: u8 where "MAGIC_2 = 0x4C"
definition MAGIC_3 :: u8 where "MAGIC_3 = 0x46"
definition ELF_VERSION :: u32 where "ELF_VERSION = 1"
definition CLASS_32_BIT :: u8 where "CLASS_32_BIT = 1"
definition DATA_LITTLE_ENDIAN :: u8 where "DATA_LITTLE_ENDIAN = 1"
definition TYPE_EXECUTABLE :: u16 where "TYPE_EXECUTABLE = 2"
definition MACHINE_X86 :: u16 where "MACHINE_X86 = 3"
definition PT_LOAD :: u32 where "PT_LOAD = 1"
definition PF_W :: u32 where "PF_W = 2"

subsection \<open>The header\<close>

text \<open>The fields of \<^verbatim>\<open>elf_header_t\<close> that the code reads.\<close>

definition e_type :: "'a mm_scheme \<Rightarrow> ptr \<Rightarrow> u16 option" where "e_type s elf = load16 s (elf + 16)"
definition e_machine :: "'a mm_scheme \<Rightarrow> ptr \<Rightarrow> u16 option" where "e_machine s elf = load16 s (elf + 18)"
definition e_version :: "'a mm_scheme \<Rightarrow> ptr \<Rightarrow> u32 option" where "e_version s elf = load32 s (elf + 20)"
definition e_entry :: "'a mm_scheme \<Rightarrow> ptr \<Rightarrow> ptr option" where "e_entry s elf = load32 s (elf + 24)"
definition e_phoff :: "'a mm_scheme \<Rightarrow> ptr \<Rightarrow> u32 option" where "e_phoff s elf = load32 s (elf + 28)"
definition e_phnum :: "'a mm_scheme \<Rightarrow> ptr \<Rightarrow> u16 option" where "e_phnum s elf = load16 s (elf + 44)"

text \<open>An entry of the program header table has 32 bytes.\<close>

record elf_program_header_entry =
  p_type :: u32
  p_offset :: u32
  p_vaddr :: ptr
  p_paddr :: ptr
  p_filesz :: u32
  p_memsz :: u32
  p_flags :: u32
  p_align :: u32

definition program_header :: "'a mm_scheme \<Rightarrow> ptr \<Rightarrow> elf_program_header_entry option" where
  "program_header s a =
     do { ty \<leftarrow> load32 s a; off \<leftarrow> load32 s (a + 4); va \<leftarrow> load32 s (a + 8); pa \<leftarrow> load32 s (a + 12);
          fsz \<leftarrow> load32 s (a + 16); msz \<leftarrow> load32 s (a + 20); fl \<leftarrow> load32 s (a + 24); al \<leftarrow> load32 s (a + 28);
          Some \<lparr>p_type = ty, p_offset = off, p_vaddr = va, p_paddr = pa, p_filesz = fsz, p_memsz = msz,
                p_flags = fl, p_align = al\<rparr> }"

definition elf_check :: "'a mm_scheme \<Rightarrow> ptr \<Rightarrow> bool option" where
  "elf_check s elf =
     do { m0 \<leftarrow> load8 s elf;
          if m0 \<noteq> MAGIC_0 then Some False else do {
          m1 \<leftarrow> load8 s (elf + 1);
          if m1 \<noteq> MAGIC_1 then Some False else do {
          m2 \<leftarrow> load8 s (elf + 2);
          if m2 \<noteq> MAGIC_2 then Some False else do {
          m3 \<leftarrow> load8 s (elf + 3);
          if m3 \<noteq> MAGIC_3 then Some False else do {
          cls \<leftarrow> load8 s (elf + 4);
          if cls \<noteq> CLASS_32_BIT then Some False else do {
          dat \<leftarrow> load8 s (elf + 5);
          if dat \<noteq> DATA_LITTLE_ENDIAN then Some False else do {
          v \<leftarrow> load8 s (elf + 6);
          if ucast v \<noteq> ELF_VERSION then Some False else do {
          ver \<leftarrow> e_version s elf;
          if ver \<noteq> ELF_VERSION then Some False else do {
          ty \<leftarrow> e_type s elf;
          if ty \<noteq> TYPE_EXECUTABLE then Some False else do {
          m \<leftarrow> e_machine s elf;
          Some (m = MACHINE_X86) } } } } } } } } } }"

subsection \<open>Loading and unloading\<close>

text \<open>
  The body of the loading loop. The entry lies in memory that the body writes to, so it is read
  again after every call, as in the code. \<^verbatim>\<open>vmm_use_virtual_memory\<close> returns 0 when the segment cannot be placed;
  the result is not looked at.
\<close>

definition elf_load_segment :: "ptr \<Rightarrow> ptr \<Rightarrow> 'a mm_scheme \<Rightarrow> 'a mm_scheme option" where
  "elf_load_segment elf a s =
     do { e \<leftarrow> program_header s a;
          if p_type e \<noteq> PT_LOAD then Some s
          else do {
            (_, s) \<leftarrow> vmm_use_virtual_memory (p_vaddr e) (p_memsz e)
                       (if p_flags e AND PF_W \<noteq> 0 then VMM_USER OR VMM_WRITABLE else VMM_USER) s;
            e \<leftarrow> program_header s a;
            s \<leftarrow> memset (p_vaddr e) 0 (p_memsz e) s;
            e \<leftarrow> program_header s a;
            memcpy (p_vaddr e) (elf + p_offset e) (p_filesz e) s } }"

definition elf_unload_segment :: "ptr \<Rightarrow> 'a mm_scheme \<Rightarrow> 'a mm_scheme option" where
  "elf_unload_segment a s =
     do { e \<leftarrow> program_header s a;
          if p_type e = PT_LOAD then vmm_free (p_vaddr e) (p_memsz e) s else Some s }"

text \<open>
  The loops compare \<open>i\<close> with \<^verbatim>\<open>e_phnum\<close> before every iteration; the field has 16 bits, so they end.
\<close>

function elf_segments ::
  "ptr \<Rightarrow> ptr \<Rightarrow> (ptr \<Rightarrow> 'a mm_scheme \<Rightarrow> 'a mm_scheme option) \<Rightarrow> nat \<Rightarrow> 'a mm_scheme \<Rightarrow> 'a mm_scheme option" where
  "elf_segments elf table body i s =
     do { n \<leftarrow> e_phnum s elf;
          if i < unat n then do { s \<leftarrow> body (table + 32 * of_nat i) s; elf_segments elf table body (Suc i) s }
          else Some s }"
  by pat_completeness auto
termination
proof (relation "measure (\<lambda>(elf, table, body, i, s). 65536 - i)")
  fix i s and n :: u16 assume "i < unat n"
  then show "((elf, table, body, Suc i, t), (elf, table, body, i, s)) \<in> measure (\<lambda>(elf, table, body, i, s). 65536 - i)"
    for elf table :: ptr and body :: "ptr \<Rightarrow> 'a mm_scheme \<Rightarrow> 'a mm_scheme option" and s t
    using unat_bound[of n] by simp
qed simp

declare elf_segments.simps [simp del]

definition elf_load :: "ptr \<Rightarrow> ptr \<Rightarrow> 'a mm_scheme \<Rightarrow> (ptr \<times> 'a mm_scheme) option" where
  "elf_load elf dir s =
     do { ok \<leftarrow> elf_check s elf;
          if \<not> ok then Some (0, s)
          else do {
            off \<leftarrow> e_phoff s elf;
            let table = elf + off;
            s \<leftarrow> vmm_modify_page_directory dir s;
            s \<leftarrow> elf_segments elf table (elf_load_segment elf) 0 s;
            s \<leftarrow> vmm_modified_page_directory s;
            entry \<leftarrow> e_entry s elf;
            Some (entry, s) } }"

definition elf_unload :: "ptr \<Rightarrow> ptr \<Rightarrow> 'a mm_scheme \<Rightarrow> 'a mm_scheme option" where
  "elf_unload elf dir s =
     do { ok \<leftarrow> elf_check s elf;
          if \<not> ok then Some s
          else do {
            off \<leftarrow> e_phoff s elf;
            let table = elf + off;
            s \<leftarrow> vmm_modify_page_directory dir s;
            s \<leftarrow> elf_segments elf table elf_unload_segment 0 s;
            vmm_modified_page_directory s } }"

subsection \<open>Tasks\<close>

definition elf_create_task :: "ptr \<Rightarrow> u32 \<Rightarrow> u32 \<Rightarrow> 'a os_scheme \<Rightarrow> (pid \<times> 'a os_scheme) option" where
  "elf_create_task elf kernel_len user_len s =
     (if elf = 0 then Some (0, s)
      else do {
        let (old_intr, s) = isr_enable_interrupts False s;
        (dir, s) \<leftarrow> vmm_create_page_directory s;
        (entry, s) \<leftarrow> elf_load elf dir s;
        (p, s) \<leftarrow> task_create_user entry dir kernel_len user_len elf s;
        Some (p, snd (isr_enable_interrupts old_intr s)) })"

definition elf_destroy_task :: "pid \<Rightarrow> 'a os_scheme \<Rightarrow> 'a os_scheme option" where
  "elf_destroy_task p s =
     do { let (old_intr, s) = isr_enable_interrupts False s;
          elf \<leftarrow> task_get_elf s p;
          dir \<leftarrow> task_get_page_directory s p;
          s \<leftarrow> elf_unload elf dir s;
          s \<leftarrow> task_destroy p s;
          Some (snd (isr_enable_interrupts old_intr s)) }"

definition finalize_task :: "pid \<Rightarrow> 'a os_scheme \<Rightarrow> 'a os_scheme option" where
  "finalize_task p s =
     do { elf \<leftarrow> task_get_elf s p; if elf \<noteq> 0 then elf_destroy_task p s else task_destroy p s }"

partial_function (option) finalize_loop :: "pid \<Rightarrow> 'a os_scheme \<Rightarrow> 'a os_scheme option" where
  "finalize_loop p s =
     do { p \<leftarrow> task_get_next_task_with_state s p TASK_STOPPED;
          if p = 0 then Some s else do { s \<leftarrow> finalize_task p s; finalize_loop p s } }"

definition schedule_finalize_tasks :: "'a os_scheme \<Rightarrow> 'a os_scheme option" where
  "schedule_finalize_tasks s = finalize_loop 0 s"

subsection \<open>What loading and unloading leave alone\<close>

lemma keeps_store8 [keeps_intros]: "store8 a b s = Some t \<Longrightarrow> keeps s t"
  by (auto simp: store8_def poke_def)

lemma keeps_fill_loop: "fill_loop store8 n p v s = Some t \<Longrightarrow> keeps s t"
  by (induction n arbitrary: p s) (auto split: bind_splits dest: keeps_store8 intro: keeps_trans)

lemma keeps_copy_loop: "copy_loop load8 store8 n p q s = Some t \<Longrightarrow> keeps s t"
  by (induction n arbitrary: p q s) (auto split: bind_splits dest: keeps_store8 intro: keeps_trans)

lemma keeps_bytes [keeps_intros]:
  "memset p v n s = Some t \<Longrightarrow> keeps s t" "memcpy p q n s = Some t \<Longrightarrow> keeps s t"
  by (simp_all add: memset_def memcpy_def keeps_fill_loop keeps_copy_loop)

lemma keeps_load_segment: "elf_load_segment elf a s = Some t \<Longrightarrow> keeps s t"
  unfolding elf_load_segment_def
  by (auto split: bind_splits if_splits prod.splits dest!: keeps_intros intro: keeps_trans)

lemma keeps_unload_segment: "elf_unload_segment a s = Some t \<Longrightarrow> keeps s t"
  unfolding elf_unload_segment_def by (auto split: bind_splits if_splits dest: keeps_intros)

lemma keeps_segments:
  assumes "elf_segments elf table body i s = Some t" and "\<And>a s t. body a s = Some t \<Longrightarrow> keeps s t"
  shows "keeps s t"
  using assms
proof (induction elf table body i s rule: elf_segments.induct)
  case (1 elf table body i s)
  obtain n where n: "e_phnum s elf = Some n" using "1.prems"(1) by (subst (asm) elf_segments.simps) (auto split: bind_splits)
  show ?case
  proof (cases "i < unat n")
    case True
    then obtain u where u: "body (table + 32 * of_nat i) s = Some u" "elf_segments elf table body (Suc i) u = Some t"
      using "1.prems"(1) n by (subst (asm) elf_segments.simps) (auto split: bind_splits)
    show ?thesis using "1.prems"(2)[OF u(1)] "1.IH"[OF n True u(1,2) "1.prems"(2)] by (rule keeps_trans)
  next
    case False
    then show ?thesis using "1.prems"(1) n by (subst (asm) elf_segments.simps) simp
  qed
qed

lemma segments_more:
  "elf_segments elf table (elf_load_segment e) i s = Some t \<Longrightarrow> mm.more t = mm.more s"
  "elf_segments elf table elf_unload_segment i s = Some t \<Longrightarrow> mm.more t = mm.more s"
  using keeps_fields(1)[OF keeps_segments] keeps_load_segment keeps_unload_segment by blast+

lemma elf_load_more: "elf_load elf dir s = Some (e, t) \<Longrightarrow> mm.more t = mm.more s"
  by (auto simp: elf_load_def split: bind_splits if_splits dest!: vm_more(1,2) segments_more)

lemma elf_unload_more: "elf_unload elf dir s = Some t \<Longrightarrow> mm.more t = mm.more s"
  by (auto simp: elf_unload_def split: bind_splits if_splits dest!: vm_more(1,2) segments_more)

subsection \<open>Finalizing\<close>

text \<open>Both ways to destroy a stopped task take it out of its slot and change no other task.\<close>

lemma finalize_task_effect:
  assumes "finalize_task p s = Some t" "in_state s TASK_STOPPED p"
  shows "tasks t = (tasks s)(p := 0)" "task_store t = task_store s" "current_task t = current_task s"
    "eflags_if t = eflags_if s"
proof -
  let ?t = "task_store s (tasks s p)"
  have g: "task_get s p = Some ?t" and st: "task_state ?t \<noteq> TASK_RUNNING"
    using assms(2) by (simp_all add: task_get_def in_state_def)
  have "tasks t = (tasks s)(p := 0) \<and> task_store t = task_store s \<and> current_task t = current_task s \<and>
    eflags_if t = eflags_if s"
  proof (cases "task_elf ?t = 0")
    case True
    then have "task_destroy p s = Some t" using assms(1) g by (simp add: finalize_task_def task_get_elf_def)
    then show ?thesis using task_destroy_stopped[OF g st] by simp
  next
    case False
    then have "elf_destroy_task p s = Some t" using assms(1) g by (simp add: finalize_task_def task_get_elf_def)
    then obtain u v where u: "elf_unload (task_elf ?t) (task_page_directory ?t) (s\<lparr>eflags_if := False\<rparr>) = Some u"
      and v: "task_destroy p u = Some v" "t = v\<lparr>eflags_if := eflags_if s\<rparr>"
      using g by (auto simp: elf_destroy_task_def Let_def task_get_elf_def task_get_page_directory_def
          task_get_def split: bind_splits if_splits)
    note o = more_os[OF elf_unload_more[OF u]]
    have gu: "task_get u p = Some ?t" using assms(2) o by (simp add: task_get_def in_state_def)
    show ?thesis using task_destroy_stopped[OF gu st v(1)] o v(2) by simp
  qed
  then show "tasks t = (tasks s)(p := 0)" "task_store t = task_store s" "current_task t = current_task s"
    "eflags_if t = eflags_if s" by simp_all
qed

lemma finalize_in_state:
  "finalize_task p s = Some t \<Longrightarrow> in_state s TASK_STOPPED p \<Longrightarrow> in_state t st q \<longleftrightarrow> in_state s st q \<and> q \<noteq> p"
  using finalize_task_effect[of p s t] by (auto simp: in_state_def)

lemma finalize_loop_run:
  assumes "p < MAX_TASKS" "\<forall>q. 1 \<le> q \<and> q \<le> p \<longrightarrow> \<not> in_state s TASK_STOPPED q"
  shows "finalize_loop p s = run finalize_task (filter (in_state s TASK_STOPPED) [Suc p..<MAX_TASKS]) s"
  using assms
proof (induction "filter (in_state s TASK_STOPPED) [Suc p..<MAX_TASKS]" arbitrary: p s)
  case Nil
  have "filter (in_state s TASK_STOPPED) [1..<Suc p] = []" using Nil.prems(2) by (auto simp: filter_empty_conv)
  then have "after (in_state s TASK_STOPPED) p = []" using Nil.hyps by (simp add: after_def)
  then have "task_get_next_task_with_state s p TASK_STOPPED = Some 0"
    using next_with_state_first[OF Nil.prems(1), of s TASK_STOPPED] by (simp add: first_after_def)
  then show ?case using Nil.hyps[symmetric] by (subst finalize_loop.simps) simp
next
  case (Cons q qs)
  note q = filter_bounded[OF Cons.hyps(2)[symmetric]]
  have sq: "in_state s TASK_STOPPED q"
    using Cons.hyps(2) by (metis (mono_tags, lifting) list.set_intros(1) mem_Collect_eq set_filter)
  have "after (in_state s TASK_STOPPED) p = q # qs @ filter (in_state s TASK_STOPPED) [1..<Suc p]"
    using Cons.hyps(2) by (simp add: after_def)
  then have "task_get_next_task_with_state s p TASK_STOPPED = Some q"
    using next_with_state_first[OF Cons.prems(1), of s TASK_STOPPED] by (simp add: first_after_def)
  then have "finalize_loop p s = do { s \<leftarrow> finalize_task q s; finalize_loop q s }"
    using q by (subst finalize_loop.simps) simp
  also have "\<dots> = run finalize_task (q # qs) s"
  proof (cases "finalize_task q s")
    case (Some t)
    note st = finalize_in_state[OF Some sq]
    have split: "q # qs = filter (in_state s TASK_STOPPED) [Suc p..<q] @
        q # filter (in_state s TASK_STOPPED) [Suc q..<MAX_TASKS]"
      using Cons.hyps(2) q filter_upt_split[of "Suc p" q MAX_TASKS "in_state s TASK_STOPPED"] sq by simp
    have gap: "filter (in_state s TASK_STOPPED) [Suc p..<q] = []"
    proof (cases "filter (in_state s TASK_STOPPED) [Suc p..<q]")
      case (Cons r rs)
      then have "r = q" using split by simp
      then show ?thesis using filter_bounded[OF Cons] by simp
    qed
    have qs: "qs = filter (in_state s TASK_STOPPED) [Suc q..<MAX_TASKS]" using split gap by simp
    have "filter (in_state t TASK_STOPPED) [Suc q..<MAX_TASKS] = qs" unfolding qs by (rule filter_cong) (auto simp: st)
    moreover have "\<not> in_state t TASK_STOPPED r" if "1 \<le> r" "r \<le> q" for r
      using that Cons.prems(2) gap by (cases "r \<le> p") (auto simp: st filter_empty_conv)
    ultimately show ?thesis using Cons.hyps(1)[of t q] q Some by simp
  qed simp
  finally show ?case using Cons.hyps(2) by simp
qed

lemma run_finalize:
  assumes "run finalize_task ps s = Some t" "distinct ps" "\<forall>p\<in>set ps. in_state s TASK_STOPPED p"
  shows "tasks t = (\<lambda>q. if q \<in> set ps then 0 else tasks s q) \<and> task_store t = task_store s \<and>
    current_task t = current_task s \<and> eflags_if t = eflags_if s"
  using assms
proof (induction ps arbitrary: s)
  case (Cons p ps)
  obtain u where u: "finalize_task p s = Some u" "run finalize_task ps u = Some t"
    using Cons.prems(1) by (auto split: bind_splits)
  have p: "in_state s TASK_STOPPED p" using Cons.prems(3) by simp
  note e = finalize_task_effect[OF u(1) p]
  have "\<forall>q\<in>set ps. in_state u TASK_STOPPED q"
    using finalize_in_state[OF u(1) p] Cons.prems(2,3) by auto
  then show ?case using Cons.IH[OF u(2)] Cons.prems(2) e by (auto simp: fun_eq_iff)
qed simp

lemma finalize_tasks_run:
  "schedule_finalize_tasks s = run finalize_task (filter (in_state s TASK_STOPPED) [1..<MAX_TASKS]) s \<and>
   (case schedule_finalize_tasks s of
      None \<Rightarrow> True
    | Some t \<Rightarrow> (\<forall>q. tasks t q = (if in_state s TASK_STOPPED q \<and> q \<in> {1..<MAX_TASKS} then 0 else tasks s q)) \<and>
        task_store t = task_store s \<and> current_task t = current_task s \<and> eflags_if t = eflags_if s)"
proof -
  let ?ps = "filter (in_state s TASK_STOPPED) [1..<MAX_TASKS]"
  have "0 < MAX_TASKS" by (simp add: MAX_TASKS_def)
  then have eq: "schedule_finalize_tasks s = run finalize_task ?ps s"
    unfolding schedule_finalize_tasks_def using finalize_loop_run[of 0 s] by (simp only: One_nat_def) simp
  show ?thesis
  proof (cases "run finalize_task ?ps s")
    case (Some t)
    have "tasks t = (\<lambda>q. if q \<in> set ?ps then 0 else tasks s q) \<and> task_store t = task_store s \<and>
      current_task t = current_task s \<and> eflags_if t = eflags_if s"
      by (rule run_finalize[OF Some]) (simp_all only: distinct_filter distinct_upt set_filter, blast)
    then show ?thesis unfolding eq Some by auto
  qed (simp only: eq, simp)
qed

text \<open>
  C25: Finalizing destroys every task that is stopped when it begins, each exactly once and in the order of their PIDs,
  although every destruction changes the table that the search walks; it ends by itself. Unless a
  destruction faults, afterwards no task is stopped, all other tasks keep their slots and structures, no task is
  switched and the interrupt flag is restored.
\<close>

theorem schedule_finalize_tasks_correct:
  "schedule_finalize_tasks s = run finalize_task (filter (in_state s TASK_STOPPED) [1..<MAX_TASKS]) s \<and>
   (case schedule_finalize_tasks s of
      None \<Rightarrow> True
    | Some t \<Rightarrow> (\<forall>q. tasks t q = (if in_state s TASK_STOPPED q \<and> q \<in> {1..<MAX_TASKS} then 0 else tasks s q)) \<and>
        task_store t = task_store s \<and> current_task t = current_task s \<and> eflags_if t = eflags_if s)"
  by (rule finalize_tasks_run)

subsection \<open>The contents of a loaded segment\<close>

text \<open>The \<open>n\<close> bytes from \<open>p\<close> on.\<close>

definition region :: "ptr \<Rightarrow> nat \<Rightarrow> ptr set" where
  "region p n = {c. unat (c - p) < n}"

lemma region_add: "i < n \<Longrightarrow> n \<le> 2 ^ 32 \<Longrightarrow> p + of_nat i \<in> region p n"
  by (simp add: region_def unat_of_nat_small)

lemma unat_len: "unat (n :: u32) \<le> 2 ^ 32"
  using unat_bound[of n] by simp

lemma region_bounds:
  assumes "c \<in> region p n" "unat p + n \<le> 2 ^ 32"
  shows "unat p \<le> unat c" "unat c < unat p + n"
proof -
  have "unat (p + (c - p)) = unat p + unat (c - p)"
    using assms by (intro unat_add_small) (simp add: region_def)
  then show "unat p \<le> unat c" "unat c < unat p + n" using assms(1) by (simp_all add: region_def)
qed

lemma program_header_cong:
  assumes "\<And>c. c \<in> region a 32 \<Longrightarrow> load8 t c = load8 s c"
  shows "program_header t a = program_header s a"
proof -
  have l: "load8 t (a + of_nat i) = load8 s (a + of_nat i)" if "i < 32" for i
    using that by (intro assms region_add) simp_all
  have l32: "load32 t (a + of_nat i) = load32 s (a + of_nat i)" if "i + 3 < 32" for i
    using l[of i] l[of "i + 1"] l[of "i + 2"] l[of "i + 3"] that
    by (simp add: load32_def load16_def add.assoc add.commute[of "word_of_nat i"])
  show ?thesis
    using l32[of 0] l32[of 4] l32[of 8] l32[of 12] l32[of 16] l32[of 20] l32[of 24] l32[of 28]
    by (simp add: program_header_def)
qed

text \<open>
  C26: A segment that the loader places. If the memory it was given for the segment is plain and holds neither the
  table entry nor the part of the file that is copied, then afterwards the segment holds the bytes of the file,
  zeroes behind them up to its length in memory, and no other byte has changed.
\<close>

theorem elf_load_segment_contents:
  assumes e: "program_header s a = Some e" "p_type e = PT_LOAD" "p_filesz e \<le> p_memsz e"
    and use: "vmm_use_virtual_memory (p_vaddr e) (p_memsz e)
        (if p_flags e AND PF_W \<noteq> 0 then VMM_USER OR VMM_WRITABLE else VMM_USER) s = Some (pa, s1)"
    and e1: "program_header s1 a = Some e" and flat: "flat s1 A"
    and seg: "region (p_vaddr e) (unat (p_memsz e)) \<subseteq> A" and src: "region (elf + p_offset e) (unat (p_filesz e)) \<subseteq> A"
    and tab: "region a 32 \<subseteq> A"
    and disj: "region (p_vaddr e) (unat (p_memsz e)) \<inter> (region (elf + p_offset e) (unat (p_filesz e)) \<union> region a 32) = {}"
  shows "\<exists>t. elf_load_segment elf a s = Some t \<and> flat t A \<and>
    (\<forall>c\<in>A. load8 t c =
       (if unat (c - p_vaddr e) < unat (p_filesz e) then load8 s1 (elf + p_offset e + (c - p_vaddr e))
        else if unat (c - p_vaddr e) < unat (p_memsz e) then Some 0 else load8 s1 c))"
proof -
  let ?v = "p_vaddr e" and ?f = "elf + p_offset e" and ?m = "unat (p_memsz e)" and ?n = "unat (p_filesz e)"
  have nm: "?n \<le> ?m" using e(3) by (simp add: word_le_nat_alt)
  have inA: "\<forall>i<?m. ?v + of_nat i \<in> A" "\<forall>i<?n. ?v + of_nat i \<in> A" "\<forall>i<?n. ?f + of_nat i \<in> A"
    using seg src region_add[OF _ unat_len] nm by (meson less_le_trans subsetD)+
  obtain s2 where s2: "memset ?v 0 (p_memsz e) s1 = Some s2" "flat s2 A"
    "\<forall>c\<in>A. load8 s2 c = (if unat (c - ?v) < ?m then Some 0 else load8 s1 c)"
    using bytes.fill_spec[OF flat inA(1) unat_len, of 0] by (auto simp: memset_def)
  have out: "load8 s2 c = load8 s1 c" if "c \<in> region ?f ?n \<union> region a 32" for c
  proof -
    have "c \<notin> region ?v ?m" "c \<in> A" using that disj tab src by blast+
    then show ?thesis using s2(3) by (simp add: region_def)
  qed
  have e2: "program_header s2 a = Some e" using e1 program_header_cong[of a s2 s1] out by simp
  have dis: "\<forall>i<?n. \<forall>j<?n. ?v + of_nat i \<noteq> ?f + of_nat j"
  proof (intro allI impI)
    fix i j assume "i < ?n" "j < ?n"
    then have "?v + of_nat i \<in> region ?v ?m" "?f + of_nat j \<in> region ?f ?n"
      using nm region_add[OF _ unat_len, of i "p_memsz e" ?v] region_add[OF _ unat_len, of j "p_filesz e" ?f] by simp_all
    then show "?v + of_nat i \<noteq> ?f + of_nat j" using disj by (metis IntI UnI1 empty_iff)
  qed
  obtain t where t: "memcpy ?v ?f (p_filesz e) s2 = Some t" "flat t A"
    "\<forall>c\<in>A. load8 t c = (if unat (c - ?v) < ?n then load8 s2 (?f + (c - ?v)) else load8 s2 c)"
    using bytes.copy_spec[OF s2(2) inA(2,3) unat_len dis] by (auto simp: memcpy_def)
  have res: "elf_load_segment elf a s = Some t"
    using e(1,2) use e1 e2 s2(1) t(1) by (simp add: elf_load_segment_def)
  have cp: "load8 s2 (?f + (c - ?v)) = load8 s1 (?f + (c - ?v))" if "unat (c - ?v) < ?n" for c
    by (rule out) (simp add: region_def that)
  have "load8 t c = (if unat (c - ?v) < ?n then load8 s1 (?f + (c - ?v))
      else if unat (c - ?v) < ?m then Some 0 else load8 s1 c)" if c: "c \<in> A" for c
  proof (cases "unat (c - ?v) < ?n")
    case True
    then show ?thesis unfolding t(3)[rule_format, OF c] by (simp only: True if_True cp)
  next
    case False
    then show ?thesis unfolding t(3)[rule_format, OF c] s2(3)[rule_format, OF c] by (simp only: if_False)
  qed
  then show ?thesis using res t(2) by blast
qed

text \<open>
  A segment of four bytes and four zeroes, before paging is switched on: its address is in no domain, the
  memory is written all the same.
\<close>

definition example_elf :: mm where
  "example_elf = plain_mm\<lparr>domain_check_enabled := True,
     pmem := (\<lambda>_. (\<lambda>_. 0x44332211)(16 := 1, 17 := 0x80, 18 := 0x2000, 20 := 4, 21 := 8, 22 := 2))\<rparr>"

lemma example_entry: "program_header example_elf 0x1040 = Some
  \<lparr>p_type = 1, p_offset = 0x80, p_vaddr = 0x2000, p_paddr = 0x44332211, p_filesz = 4, p_memsz = 8, p_flags = 2, p_align = 0x44332211\<rparr>"
  by (simp add: program_header_def load32_def load16_def load8_def mmu_translate_def example_elf_def plain_mm_def
      get_byte_def byte_shift_def phys_frame_def phys_slot_def)

theorem elf_load_segment_contents_witness:
  "\<exists>t. elf_load_segment 0x1000 0x1040 example_elf = Some t \<and> load8 t 0x2001 = Some 0x22 \<and> load8 t 0x2005 = Some 0"
proof -
  let ?e = "\<lparr>p_type = 1, p_offset = 0x80, p_vaddr = 0x2000, p_paddr = 0x44332211, p_filesz = 4, p_memsz = 8,
    p_flags = 2, p_align = 0x44332211\<rparr>"
  have use: "vmm_use_virtual_memory 0x2000 8 (VMM_USER OR VMM_WRITABLE) example_elf = Some (0, example_elf)"
    by (simp add: vmm_use_virtual_memory_def vmm_domain_check_def vmm_get_domain_from_address_def
        vmm_is_in_domain_def ENTRIES_def example_elf_def)
  have flat: "flat example_elf UNIV" by (simp add: flat_def example_elf_def plain_mm_def mmu_translate_def inj_on_def)
  have disj: "region 0x2000 8 \<inter> (region 0x1080 4 \<union> region 0x1040 32) = {}"
  proof -
    have "c \<notin> region 0x2000 8" if "c \<in> region 0x1080 4 \<union> region 0x1040 32" for c
      using that region_bounds[of c "0x1080" 4] region_bounds[of c "0x1040" 32] region_bounds[of c "0x2000" 8] by auto
    then show ?thesis by blast
  qed
  have f: "load8 example_elf 0x1081 = Some 0x22"
    by (simp add: load8_def mmu_translate_def example_elf_def plain_mm_def get_byte_def byte_shift_def phys_frame_def phys_slot_def)
  show ?thesis
    using elf_load_segment_contents[of example_elf "0x1040" ?e 0 example_elf UNIV "0x1000", OF example_entry]
      use flat disj f example_entry
    by (auto simp: PT_LOAD_def PF_W_def)
qed

end
