(* ===== verification/Keyboard.thy ===== *)
theory Keyboard
  imports Prelude
begin

unbundle bit_operations_syntax

text \<open>
  \<^verbatim>\<open>hardware/io/keyboard.c\<close>: the machine that assembles scancode bytes, the table from scancodes
  and names to keycodes, the key bitmap, the modifier flags and the LEDs. The module's static variables are
  one record. An access outside \<^verbatim>\<open>scancode_buf\<close> is \<open>None\<close>. The handler that a
  client registers and the device lie outside this file: the events passed to the handler and the bytes written to the
  device (command and argument) are kept as lists, newest last.
\<close>

subsection \<open>Keycodes\<close>

definition SCANCODE_LEN :: nat where [simp]: "SCANCODE_LEN = 8"
definition KEY_UNKNOWN :: u8 where [simp]: "KEY_UNKNOWN = 0xFF"

definition KEYCODE :: "nat \<Rightarrow> nat \<Rightarrow> u8" where
  "KEYCODE row col = push_bit 5 (of_nat row) OR of_nat col"

text \<open>The uses of \<^verbatim>\<open>MAKE_KEYCODE\<close> in program order: name, row, column and scancode.\<close>

definition keycode_table :: "(string \<times> nat \<times> nat \<times> u8 list) list" where
  "keycode_table = [
     (''POWER'', 0, 0, [0xE0, 0x37]),
     (''ESC'', 1, 0, [0x76]),
     (''SLEEP'', 0, 1, [0xE0, 0x3F]),
     (''F1'', 1, 1, [0x05]),
     (''WAKE'', 0, 2, [0xE0, 0x5E]),
     (''F2'', 1, 2, [0x06]),
     (''NEXT TRCK'', 0, 3, [0xE0, 0x4D]),
     (''F3'', 1, 3, [0x04]),
     (''PREV TRCK'', 0, 4, [0xE0, 0x15]),
     (''F4'', 1, 4, [0x0C]),
     (''STOP'', 0, 5, [0xE0, 0x3B]),
     (''F5'', 1, 5, [0x03]),
     (''PLAY'', 0, 6, [0xE0, 0x34]),
     (''F6'', 1, 6, [0x0B]),
     (''MUTE'', 0, 7, [0xE0, 0x23]),
     (''F7'', 1, 7, [0x83]),
     (''VOL UP'', 0, 8, [0xE0, 0x32]),
     (''F8'', 1, 8, [0x0A]),
     (''VOL DN'', 0, 9, [0xE0, 0x21]),
     (''F9'', 1, 9, [0x01]),
     (''MEDIA SEL'', 0, 10, [0xE0, 0x50]),
     (''F10'', 1, 10, [0x09]),
     (''MAIL'', 0, 11, [0xE0, 0x48]),
     (''F11'', 1, 11, [0x78]),
     (''CALC'', 0, 12, [0xE0, 0x2B]),
     (''F12'', 1, 12, [0x07]),
     (''COMPUTER'', 0, 13, [0xE0, 0x40]),
     (''PRNT SCRN'', 1, 13, [0xE0, 0x12, 0xE0, 0x7C]),
     (''WWW SRCH'', 0, 14, [0xE0, 0x10]),
     (''SCROLL'', 1, 14, [0x7E]),
     (''WWW HOME'', 0, 15, [0xE0, 0x3A]),
     (''PAUSE'', 1, 15, [0xE1, 0x14, 0x77, 0xE1, 0xF0, 0x14, 0xF0, 0x77]),
     (''WWW BACK'', 0, 16, [0xE0, 0x38]),
     (''WWW FORW'', 0, 17, [0xE0, 0x30]),
     (''WWW STOP'', 0, 18, [0xE0, 0x28]),
     (''WWW REFR'', 0, 19, [0xE0, 0x20]),
     (''WWW FAVR'', 0, 20, [0xE0, 0x18]),
     (''`'', 2, 0, [0x0E]),
     (''TAB'', 3, 0, [0x0D]),
     (''1'', 2, 1, [0x16]),
     (''Q'', 3, 1, [0x15]),
     (''2'', 2, 2, [0x1E]),
     (''W'', 3, 2, [0x1D]),
     (''3'', 2, 3, [0x26]),
     (''E'', 3, 3, [0x24]),
     (''4'', 2, 4, [0x25]),
     (''R'', 3, 4, [0x2D]),
     (''5'', 2, 5, [0x2E]),
     (''T'', 3, 5, [0x2C]),
     (''6'', 2, 6, [0x36]),
     (''Y'', 3, 6, [0x35]),
     (''7'', 2, 7, [0x3D]),
     (''U'', 3, 7, [0x3C]),
     (''8'', 2, 8, [0x3E]),
     (''I'', 3, 8, [0x43]),
     (''9'', 2, 9, [0x46]),
     (''O'', 3, 9, [0x44]),
     (''0'', 2, 10, [0x45]),
     (''P'', 3, 10, [0x4D]),
     (''-'', 2, 11, [0x4E]),
     (''['', 3, 11, [0x54]),
     (''='', 2, 12, [0x55]),
     ('']'', 3, 12, [0x5B]),
     (''BKSP'', 2, 13, [0x66]),
     ([CHR 0x5C], 3, 13, [0x5D]),
     (''INSERT'', 2, 14, [0xE0, 0x70]),
     (''DELETE'', 3, 14, [0xE0, 0x71]),
     (''HOME'', 2, 15, [0xE0, 0x6C]),
     (''END'', 3, 15, [0xE0, 0x69]),
     (''PG UP'', 2, 16, [0xE0, 0x7D]),
     (''PG DN'', 3, 16, [0xE0, 0x7A]),
     (''NUM'', 2, 17, [0x77]),
     (''KP 7'', 3, 17, [0x6C]),
     (''KP /'', 2, 18, [0xE0, 0x4A]),
     (''KP 8'', 3, 18, [0x75]),
     (''KP *'', 2, 19, [0x7C]),
     (''KP 9'', 3, 19, [0x7D]),
     (''KP -'', 2, 20, [0x7B]),
     (''KP +'', 3, 20, [0x79]),
     (''CAPS'', 4, 0, [0x58]),
     (''L SHFT'', 5, 0, [0x12]),
     (''A'', 4, 1, [0x1C]),
     (''<'', 5, 1, [0x61]),
     (''S'', 4, 2, [0x1B]),
     (''Z'', 5, 2, [0x1A]),
     (''D'', 4, 3, [0x23]),
     (''X'', 5, 3, [0x22]),
     (''F'', 4, 4, [0x2B]),
     (''C'', 5, 4, [0x21]),
     (''G'', 4, 5, [0x34]),
     (''V'', 5, 5, [0x2A]),
     (''H'', 4, 6, [0x33]),
     (''B'', 5, 6, [0x32]),
     (''J'', 4, 7, [0x3B]),
     (''N'', 5, 7, [0x31]),
     (''K'', 4, 8, [0x42]),
     (''M'', 5, 8, [0x3A]),
     (''L'', 4, 9, [0x4B]),
     ('','', 5, 9, [0x41]),
     ('';'', 4, 10, [0x4C]),
     (''.'', 5, 10, [0x49]),
     ([CHR 0x27], 4, 11, [0x52]),
     (''/'', 5, 11, [0x4A]),
     (''ENTER'', 4, 12, [0x5A]),
     (''R SHFT'', 5, 12, [0x59]),
     (''KP 4'', 4, 13, [0x6B]),
     (''U ARROW'', 5, 13, [0xE0, 0x75]),
     (''KP 5'', 4, 14, [0x73]),
     (''KP 1'', 5, 14, [0x69]),
     (''KP 6'', 4, 15, [0x74]),
     (''KP 2'', 5, 15, [0x72]),
     (''KP 3'', 5, 16, [0x7A]),
     (''KP EN'', 5, 17, [0xE0, 0x5A]),
     (''L CTRL'', 6, 0, [0x14]),
     (''R CTRL'', 6, 7, [0xE0, 0x14]),
     (''L GUI'', 6, 1, [0xE0, 0x1F]),
     (''L ARROW'', 6, 8, [0xE0, 0x6B]),
     (''L ALT'', 6, 2, [0x11]),
     (''D ARROW'', 6, 9, [0xE0, 0x72]),
     (''SPACE'', 6, 3, [0x29]),
     (''R ARROW'', 6, 10, [0xE0, 0x74]),
     (''R ALT'', 6, 4, [0xE0, 0x11]),
     (''KP 0'', 6, 11, [0x70]),
     (''R GUI'', 6, 5, [0xE0, 0x27]),
     (''KP .'', 6, 12, [0x71]),
     (''APPS'', 6, 6, [0xE0, 0x2F])]"

text \<open>\<open>compare_buf\<close> is the scancode, padded with zeros to \<^verbatim>\<open>SCANCODE_LEN\<close> bytes.\<close>

definition compare_buf :: "u8 list \<Rightarrow> u8 list" where
  "compare_buf scancode = scancode @ replicate (SCANCODE_LEN - length scancode) 0"

definition scancode_compare :: "u8 list \<Rightarrow> u8 list \<Rightarrow> nat \<Rightarrow> bool" where
  "scancode_compare buf compare len \<longleftrightarrow> list_all (\<lambda>i. buf ! i = compare ! i) [0..<len]"

text \<open>
  \<^verbatim>\<open>keyboard_get_keycode_from_scancode\<close> is called with a buffer and its length, or with a name and
  length 0; \<open>by_scancode\<close> and \<open>by_name\<close> are the two disjuncts of the test in \<^verbatim>\<open>MAKE_KEYCODE\<close>.
\<close>

definition by_scancode :: "u8 list \<Rightarrow> nat \<Rightarrow> string \<times> nat \<times> nat \<times> u8 list \<Rightarrow> bool" where
  "by_scancode buf len = (\<lambda>(name, row, col, scancode). len \<noteq> 0 \<and> scancode_compare buf (compare_buf scancode) len)"

definition by_name :: "string \<Rightarrow> string \<times> nat \<times> nat \<times> u8 list \<Rightarrow> bool" where
  "by_name s = (\<lambda>(name, row, col, scancode). name = s)"

fun make_keycode :: "(string \<times> nat \<times> nat \<times> u8 list \<Rightarrow> bool) \<Rightarrow> (string \<times> nat \<times> nat \<times> u8 list) list \<Rightarrow> u8" where
  "make_keycode P [] = KEY_UNKNOWN"
| "make_keycode P (e # es) =
     (if P e then (case e of (name, row, col, scancode) \<Rightarrow> KEYCODE row col) else make_keycode P es)"

definition keyboard_get_keycode_from_scancode :: "u8 list \<Rightarrow> nat \<Rightarrow> u8" where
  "keyboard_get_keycode_from_scancode buf len = make_keycode (by_scancode buf len) keycode_table"

definition keyboard_get_keycode :: "string \<Rightarrow> u8" where
  "keyboard_get_keycode name = make_keycode (by_name name) keycode_table"

subsection \<open>Layout\<close>

definition qwertz_layout :: "u8 list list" where
  "qwertz_layout = [
     concat [
      [0, 0, 0, 0, 0, 0, 0, 0, 0, 0, 0, 0, 0, 0, 0, 0, 0, 0, 0, 0, 0, 0, 0, 0, 0, 0, 0, 0, 0, 0, 0, 0],
      [0, 0, 0, 0, 0, 0, 0, 0, 0, 0, 0, 0, 0, 0, 0, 0, 0, 0, 0, 0, 0, 0, 0, 0, 0, 0, 0, 0, 0, 0, 0, 0],
      [94, 49, 50, 51, 52, 53, 54, 55, 56, 57, 48, 0, 0, 0, 0, 0, 0, 0, 47, 42, 45, 0, 0, 0, 0, 0, 0, 0, 0, 0, 0, 0],
      [9, 113, 119, 101, 114, 116, 122, 117, 105, 111, 112, 0, 43, 35, 0, 0, 0, 55, 56, 57, 43, 0, 0, 0, 0, 0, 0, 0, 0, 0, 0, 0],
      [0, 97, 115, 100, 102, 103, 104, 106, 107, 108, 0, 0, 10, 52, 53, 54, 0, 0, 0, 0, 0, 0, 0, 0, 0, 0, 0, 0, 0, 0, 0, 0],
      [0, 60, 121, 120, 99, 118, 98, 110, 109, 44, 46, 45, 0, 0, 49, 50, 51, 10, 0, 0, 0, 0, 0, 0, 0, 0, 0, 0, 0, 0, 0, 0],
      [0, 0, 0, 32, 0, 0, 0, 0, 0, 0, 0, 48, 46, 0, 0, 0, 0, 0, 0, 0, 0, 0, 0, 0, 0, 0, 0, 0, 0, 0, 0, 0]] @ replicate 32 0,
     concat [
      [0, 0, 0, 0, 0, 0, 0, 0, 0, 0, 0, 0, 0, 0, 0, 0, 0, 0, 0, 0, 0, 0, 0, 0, 0, 0, 0, 0, 0, 0, 0, 0],
      [0, 0, 0, 0, 0, 0, 0, 0, 0, 0, 0, 0, 0, 0, 0, 0, 0, 0, 0, 0, 0, 0, 0, 0, 0, 0, 0, 0, 0, 0, 0, 0],
      [0, 33, 34, 0, 36, 37, 38, 47, 40, 41, 61, 63, 0, 0, 0, 0, 0, 0, 47, 42, 45, 0, 0, 0, 0, 0, 0, 0, 0, 0, 0, 0],
      [9, 81, 87, 69, 82, 84, 90, 85, 73, 79, 80, 0, 42, 39, 0, 0, 0, 55, 56, 57, 43, 0, 0, 0, 0, 0, 0, 0, 0, 0, 0, 0],
      [0, 65, 83, 68, 70, 71, 72, 74, 75, 76, 0, 0, 10, 52, 53, 54, 0, 0, 0, 0, 0, 0, 0, 0, 0, 0, 0, 0, 0, 0, 0, 0],
      [0, 62, 89, 88, 67, 86, 66, 78, 77, 59, 58, 95, 0, 0, 49, 50, 51, 10, 0, 0, 0, 0, 0, 0, 0, 0, 0, 0, 0, 0, 0, 0],
      [0, 0, 0, 32, 0, 0, 0, 0, 0, 0, 0, 48, 46, 0, 0, 0, 0, 0, 0, 0, 0, 0, 0, 0, 0, 0, 0, 0, 0, 0, 0, 0]] @ replicate 32 0]"

definition keyboard_get_ascii_from_keycode :: "u8 list list \<Rightarrow> u8 \<Rightarrow> bool \<Rightarrow> bool \<Rightarrow> u8" where
  "keyboard_get_ascii_from_keycode layout keycode shift caps_lock =
     (if shift \<or> caps_lock then layout ! 1 ! unat keycode else layout ! 0 ! unat keycode)"

subsection \<open>State\<close>

datatype keyboard_state = START | BREAK_RECEIVED | EXTENDED_RECEIVED | SPECIAL_RECEIVED

record keyboard_flags =
  shift :: bool
  ctrl :: bool
  gui :: bool
  alt :: bool
  scroll_lock :: bool
  num_lock :: bool
  caps_lock :: bool

record keyboard_event =
  keycode :: u8
  pressed :: bool
  ascii :: u8
  flags :: keyboard_flags

record keyboard =
  keyboard_state :: keyboard_state
  scancode_buf :: "u8 list"
  scancode_len :: nat
  event :: keyboard_event
  key_states :: "u8 \<Rightarrow> u8"
  led_state :: u8
  handler :: bool
  handled :: "keyboard_event list"
  device_out :: "u8 list"

definition no_flags :: keyboard_flags where
  "no_flags = \<lparr>shift = False, ctrl = False, gui = False, alt = False, scroll_lock = False,
     num_lock = False, caps_lock = False\<rparr>"

definition keyboard_start :: keyboard where
  "keyboard_start = \<lparr>keyboard_state = START, scancode_buf = replicate SCANCODE_LEN 0, scancode_len = 0,
     event = \<lparr>keycode = 0, pressed = False, ascii = 0, flags = no_flags\<rparr>, key_states = (\<lambda>_. 0),
     led_state = 0, handler = False, handled = [], device_out = []\<rparr>"

subsection \<open>LEDs and the scancode set\<close>

definition SET_LEDS :: u8 where "SET_LEDS = 0xED"
definition SCANCODE_SET :: u8 where "SCANCODE_SET = 0xF0"
definition LED_SCROLL :: u8 where [simp]: "LED_SCROLL = 1"
definition LED_NUM :: u8 where [simp]: "LED_NUM = 2"
definition LED_CAPS :: u8 where [simp]: "LED_CAPS = 4"
definition LED_ALL :: u8 where [simp]: "LED_ALL = 7"

definition keyboard_leds :: "u8 \<Rightarrow> int \<Rightarrow> keyboard \<Rightarrow> keyboard" where
  "keyboard_leds leds value s =
     (let st = (if value < 0 then led_state s XOR leds
                else if 0 < value then led_state s OR leds
                else led_state s AND NOT leds)
      in s\<lparr>led_state := st, device_out := device_out s @ [SET_LEDS, st]\<rparr>)"

text \<open>
  \<open>answer\<close> is the byte the device sends back, \<open>config\<close> the configuration of the controller; the
  result is the returned set, the bytes written to the device and the new configuration, whose bit 6
  is \<^verbatim>\<open>port1_transl\<close>.
\<close>

definition keyboard_scancode_set :: "u8 \<Rightarrow> u8 \<Rightarrow> u8 \<Rightarrow> u8 \<times> u8 list \<times> u8" where
  "keyboard_scancode_set scancode_set answer config =
     (if 3 < scancode_set then (0, [], config)
      else if scancode_set = 0 then (answer, [SCANCODE_SET, scancode_set], config)
      else (scancode_set, [SCANCODE_SET, scancode_set], config AND NOT (pow2 6)))"

definition keyboard_init :: "u8 \<Rightarrow> u8 \<Rightarrow> keyboard \<Rightarrow> keyboard \<times> u8" where
  "keyboard_init answer config s =
     (let s = keyboard_leds LED_ALL 0 s;
          (_, outs, config) = keyboard_scancode_set 2 answer config
      in (s\<lparr>device_out := device_out s @ outs\<rparr>, config))"

subsection \<open>The key bitmap\<close>

definition keyboard_get_key_pressed :: "keyboard \<Rightarrow> u8 \<Rightarrow> u8" where
  "keyboard_get_key_pressed s k = drop_bit (unat (k mod 8)) (key_states s (k div 8)) AND 1"

definition keyboard_set_key_pressed :: "u8 \<Rightarrow> bool \<Rightarrow> keyboard \<Rightarrow> keyboard" where
  "keyboard_set_key_pressed k v s =
     (if v then s\<lparr>key_states := (key_states s)(k div 8 := key_states s (k div 8) OR pow2 (unat (k mod 8)))\<rparr>
      else s\<lparr>key_states := (key_states s)(k div 8 := key_states s (k div 8) AND NOT (pow2 (unat (k mod 8))))\<rparr>)"

definition key_down :: "keyboard \<Rightarrow> u8 \<Rightarrow> bool" where
  "key_down s k \<longleftrightarrow> keyboard_get_key_pressed s k \<noteq> 0"

subsection \<open>Processing a scancode\<close>

definition is_lock_key :: "u8 \<Rightarrow> bool" where
  "is_lock_key k \<longleftrightarrow> k = keyboard_get_keycode ''PAUSE'' \<or> k = keyboard_get_keycode ''SCROLL'' \<or>
     k = keyboard_get_keycode ''NUM'' \<or> k = keyboard_get_keycode ''CAPS''"

definition modifier_flags :: "keyboard \<Rightarrow> keyboard_flags \<Rightarrow> keyboard_flags" where
  "modifier_flags s f = f
     \<lparr>shift := key_down s (keyboard_get_keycode ''L SHFT'') \<or> key_down s (keyboard_get_keycode ''R SHFT''),
      ctrl := key_down s (keyboard_get_keycode ''L CTRL'') \<or> key_down s (keyboard_get_keycode ''R CTRL''),
      gui := key_down s (keyboard_get_keycode ''L GUI'') \<or> key_down s (keyboard_get_keycode ''R GUI''),
      alt := key_down s (keyboard_get_keycode ''L ALT'') \<or> key_down s (keyboard_get_keycode ''R ALT'')\<rparr>"

text \<open>\<open>press_lock\<close> is one of the three tests for a lock key that has been pressed.\<close>

definition press_lock ::
  "string \<Rightarrow> u8 \<Rightarrow> (keyboard_flags \<Rightarrow> bool) \<Rightarrow> (bool \<Rightarrow> keyboard_flags \<Rightarrow> keyboard_flags) \<Rightarrow> keyboard \<Rightarrow> keyboard" where
  "press_lock name leds lock set_lock s =
     (if keycode (event s) = keyboard_get_keycode name then
        let new = \<not> lock (flags (event s))
        in keyboard_leds leds (if new then 1 else 0)
             (s\<lparr>event := (event s)\<lparr>flags := set_lock new (flags (event s))\<rparr>\<rparr>)
      else s)"

definition process_locks :: "keyboard \<Rightarrow> keyboard" where
  "process_locks s =
     press_lock ''CAPS'' LED_CAPS caps_lock (\<lambda>b f. f\<lparr>caps_lock := b\<rparr>)
       (press_lock ''NUM'' LED_NUM num_lock (\<lambda>b f. f\<lparr>num_lock := b\<rparr>)
         (press_lock ''SCROLL'' LED_SCROLL scroll_lock (\<lambda>b f. f\<lparr>scroll_lock := b\<rparr>) s))"

definition keyboard_process_scancode :: "bool \<Rightarrow> keyboard \<Rightarrow> keyboard" where
  "keyboard_process_scancode is_makecode s =
     (let k = keyboard_get_keycode_from_scancode (scancode_buf s) (scancode_len s);
          s = s\<lparr>event := (event s)\<lparr>keycode := k, pressed := is_makecode\<rparr>\<rparr>;
          s = (if \<not> is_lock_key k then keyboard_set_key_pressed k is_makecode s else s);
          f = flags (event s);
          s = s\<lparr>event := (event s)\<lparr>ascii := keyboard_get_ascii_from_keycode qwertz_layout k (shift f) (caps_lock f)\<rparr>\<rparr>;
          s = s\<lparr>event := (event s)\<lparr>flags := modifier_flags s (flags (event s))\<rparr>\<rparr>;
          s = (if pressed (event s) then process_locks s else s);
          s = (if handler s then s\<lparr>handled := handled s @ [event s]\<rparr> else s)
      in s\<lparr>keyboard_state := START, scancode_len := 0\<rparr>)"

definition keyboard_process_special_scancode :: "bool \<Rightarrow> nat \<Rightarrow> bool \<Rightarrow> keyboard \<Rightarrow> bool \<times> keyboard" where
  "keyboard_process_special_scancode condition len is_breakcode s =
     (if condition then
        let s = s\<lparr>keyboard_state := SPECIAL_RECEIVED\<rparr>
        in (True, if scancode_len s = len then keyboard_process_scancode is_breakcode s else s)
      else (False, s))"

definition IS_PAUSE_MK :: "u8 list \<Rightarrow> nat \<Rightarrow> bool" where
  "IS_PAUSE_MK buf len \<longleftrightarrow> 1 \<le> len \<and> buf ! 0 = 0xE1"
definition IS_PR_SC_MK :: "u8 list \<Rightarrow> nat \<Rightarrow> bool" where
  "IS_PR_SC_MK buf len \<longleftrightarrow> 2 \<le> len \<and> buf ! 0 = 0xE0 \<and> buf ! 1 = 0x12"
definition IS_PR_BR_MK :: "u8 list \<Rightarrow> nat \<Rightarrow> bool" where
  "IS_PR_BR_MK buf len \<longleftrightarrow> 3 \<le> len \<and> buf ! 0 = 0xE0 \<and> buf ! 1 = 0xF0 \<and> buf ! 2 = 0x7C"

definition BREAK_CODE :: u8 where [simp]: "BREAK_CODE = 0xF0"
definition EXTENDED_CODE :: u8 where [simp]: "EXTENDED_CODE = 0xE0"

definition keyboard_switch :: "u8 \<Rightarrow> keyboard \<Rightarrow> keyboard" where
  "keyboard_switch data s =
     (case keyboard_state s of
        START \<Rightarrow>
          if data = BREAK_CODE then s\<lparr>keyboard_state := BREAK_RECEIVED\<rparr>
          else if data = EXTENDED_CODE then s\<lparr>keyboard_state := EXTENDED_RECEIVED\<rparr>
          else keyboard_process_scancode True s
      | BREAK_RECEIVED \<Rightarrow> keyboard_process_scancode False s
      | EXTENDED_RECEIVED \<Rightarrow>
          if data = BREAK_CODE then s\<lparr>keyboard_state := BREAK_RECEIVED\<rparr>
          else keyboard_process_scancode True s
      | SPECIAL_RECEIVED \<Rightarrow> s)"

definition keyboard_handle_data :: "u8 \<Rightarrow> keyboard \<Rightarrow> keyboard option" where
  "keyboard_handle_data data s =
     do { let len = (if keyboard_state s = BREAK_RECEIVED then scancode_len s - 1 else scancode_len s);
          if keyboard_state s = BREAK_RECEIVED \<and> scancode_len s = 0 \<or> SCANCODE_LEN \<le> len then None
          else do {
            let s = s\<lparr>scancode_buf := (scancode_buf s)[len := data], scancode_len := Suc len\<rparr>;
            let (done, s) = keyboard_process_special_scancode (IS_PAUSE_MK (scancode_buf s) (scancode_len s)) 8 True s;
            if done then Some s
            else do {
              let (done, s) = keyboard_process_special_scancode (IS_PR_SC_MK (scancode_buf s) (scancode_len s)) 4 True s;
              if done then Some s
              else do {
                let (done, s) = keyboard_process_special_scancode (IS_PR_BR_MK (scancode_buf s) (scancode_len s)) 6 False s;
                if done then Some s else Some (keyboard_switch data s) } } } }"

subsection \<open>The bitmap as an array\<close>

lemma and_1_bit: "(w :: u8) AND 1 \<noteq> 0 \<longleftrightarrow> bit w 0"
  by (simp add: and_one_eq odd_iff_mod_2_eq_one bit_0)

lemma key_down_bit: "key_down s k \<longleftrightarrow> bit (key_states s (k div 8)) (unat (k mod 8))"
  by (simp add: key_down_def keyboard_get_key_pressed_def and_1_bit bit_drop_bit_eq)

lemma key_position_eq: "(k :: u8) = k' \<longleftrightarrow> k div 8 = k' div 8 \<and> unat (k mod 8) = unat (k' mod 8)"
proof
  assume "k div 8 = k' div 8 \<and> unat (k mod 8) = unat (k' mod 8)"
  then have "k div 8 = k' div 8" "k mod 8 = k' mod 8" by (simp_all add: word_unat_eq_iff)
  then show "k = k'" by (metis word_mod_div_equality)
qed simp

lemma mod8_less: "unat ((k :: u8) mod 8) < 8"
  by (simp add: unat_mod)

lemma key_down_set: "key_down (keyboard_set_key_pressed k v s) k' \<longleftrightarrow> (if k = k' then v else key_down s k')"
proof (cases "k div 8 = k' div 8")
  case True
  then show ?thesis
    using mod8_less[of k] key_position_eq[of k k']
    by (cases v) (auto simp: key_down_bit keyboard_set_key_pressed_def bit_or_pow2 bit_and_not_pow2)
next
  case False
  then show ?thesis by (auto simp: key_down_bit keyboard_set_key_pressed_def)
qed

text \<open>The key bitmap is a packed array of 256 keys.\<close>

interpretation keys: packed_array key_down keyboard_set_key_pressed "\<lambda>_. True"
  by unfold_locales (simp_all add: key_down_set)

subsection \<open>What the operations leave alone\<close>

lemma leds_fields [simp]:
  "keyboard_state (keyboard_leds l v s) = keyboard_state s" "scancode_buf (keyboard_leds l v s) = scancode_buf s"
  "scancode_len (keyboard_leds l v s) = scancode_len s" "event (keyboard_leds l v s) = event s"
  "key_states (keyboard_leds l v s) = key_states s" "handler (keyboard_leds l v s) = handler s"
  "handled (keyboard_leds l v s) = handled s"
  by (simp_all add: keyboard_leds_def Let_def)

lemma press_lock_fields [simp]:
  "keyboard_state (press_lock n l g f s) = keyboard_state s" "scancode_buf (press_lock n l g f s) = scancode_buf s"
  "scancode_len (press_lock n l g f s) = scancode_len s" "key_states (press_lock n l g f s) = key_states s"
  "handler (press_lock n l g f s) = handler s" "handled (press_lock n l g f s) = handled s"
  "keycode (event (press_lock n l g f s)) = keycode (event s)"
  "pressed (event (press_lock n l g f s)) = pressed (event s)"
  "ascii (event (press_lock n l g f s)) = ascii (event s)"
  by (simp_all add: press_lock_def Let_def)

lemma set_key_fields [simp]:
  "keyboard_state (keyboard_set_key_pressed k v s) = keyboard_state s"
  "scancode_buf (keyboard_set_key_pressed k v s) = scancode_buf s"
  "scancode_len (keyboard_set_key_pressed k v s) = scancode_len s"
  "event (keyboard_set_key_pressed k v s) = event s"
  "handler (keyboard_set_key_pressed k v s) = handler s" "handled (keyboard_set_key_pressed k v s) = handled s"
  by (simp_all add: keyboard_set_key_pressed_def)

lemma process_fields [simp]:
  "keyboard_state (keyboard_process_scancode m s) = START"
  "scancode_buf (keyboard_process_scancode m s) = scancode_buf s"
  "scancode_len (keyboard_process_scancode m s) = 0"
  "keycode (event (keyboard_process_scancode m s)) = keyboard_get_keycode_from_scancode (scancode_buf s) (scancode_len s)"
  "pressed (event (keyboard_process_scancode m s)) = m"
  by (simp_all add: keyboard_process_scancode_def process_locks_def Let_def)

subsection \<open>The receiving state machine\<close>

text \<open>
  What each state knows of the bytes received so far. The third special scancode never shows up:
  its second byte is overwritten as soon as the third one arrives.
\<close>

definition kb_inv :: "keyboard \<Rightarrow> bool" where
  "kb_inv s \<longleftrightarrow> length (scancode_buf s) = SCANCODE_LEN \<and>
     (case keyboard_state s of
        START \<Rightarrow> scancode_len s = 0
      | BREAK_RECEIVED \<Rightarrow> scancode_len s = 1 \<or> scancode_len s = 2 \<and> scancode_buf s ! 0 = 0xE0
      | EXTENDED_RECEIVED \<Rightarrow> scancode_len s = 1 \<and> scancode_buf s ! 0 = 0xE0
      | SPECIAL_RECEIVED \<Rightarrow>
          scancode_buf s ! 0 = 0xE1 \<and> 1 \<le> scancode_len s \<and> scancode_len s < 8 \<or>
          scancode_buf s ! 0 = 0xE0 \<and> scancode_buf s ! 1 = 0x12 \<and> 2 \<le> scancode_len s \<and> scancode_len s < 4)"

lemma process_inv: "length (scancode_buf s) = SCANCODE_LEN \<Longrightarrow> kb_inv (keyboard_process_scancode m s)"
  by (simp add: kb_inv_def)

lemma handle_data_inv:
  assumes "kb_inv s"
  shows "\<exists>t. keyboard_handle_data b s = Some t \<and> kb_inv t"
proof -
  have len: "length (scancode_buf s) = 8" using assms by (simp add: kb_inv_def)
  show ?thesis
  proof (cases "keyboard_state s")
    case START
    then have "scancode_len s = 0" using assms by (simp add: kb_inv_def)
    then show ?thesis using START len
      by (auto simp: keyboard_handle_data_def keyboard_process_special_scancode_def Let_def IS_PAUSE_MK_def
          IS_PR_SC_MK_def IS_PR_BR_MK_def keyboard_switch_def kb_inv_def)
  next
    case BREAK_RECEIVED
    then consider "scancode_len s = 1" | "scancode_len s = 2" "scancode_buf s ! 0 = 0xE0"
      using assms by (auto simp: kb_inv_def)
    then show ?thesis using BREAK_RECEIVED len
      by cases (auto simp: keyboard_handle_data_def keyboard_process_special_scancode_def Let_def IS_PAUSE_MK_def
          IS_PR_SC_MK_def IS_PR_BR_MK_def keyboard_switch_def kb_inv_def)
  next
    case EXTENDED_RECEIVED
    then have "scancode_len s = 1" "scancode_buf s ! 0 = 0xE0" using assms by (auto simp: kb_inv_def)
    then show ?thesis using EXTENDED_RECEIVED len
      by (auto simp: keyboard_handle_data_def keyboard_process_special_scancode_def Let_def IS_PAUSE_MK_def
          IS_PR_SC_MK_def IS_PR_BR_MK_def keyboard_switch_def kb_inv_def)
  next
    case SPECIAL_RECEIVED
    then consider "scancode_buf s ! 0 = 0xE1" "1 \<le> scancode_len s" "scancode_len s < 8"
      | "scancode_buf s ! 0 = 0xE0" "scancode_buf s ! 1 = 0x12" "2 \<le> scancode_len s" "scancode_len s < 4"
      using assms by (auto simp: kb_inv_def)
    then show ?thesis using SPECIAL_RECEIVED len
      by cases (auto simp: keyboard_handle_data_def keyboard_process_special_scancode_def Let_def IS_PAUSE_MK_def
          IS_PR_SC_MK_def IS_PR_BR_MK_def keyboard_switch_def kb_inv_def nth_list_update)
  qed
qed

interpretation scancodes: driven_machine keyboard_handle_data kb_inv
  by unfold_locales (rule handle_data_inv)

subsection \<open>Decoding\<close>

lemma keycode_take:
  assumes "take len buf = take len buf'" "len \<le> length buf" "len \<le> length buf'"
  shows "keyboard_get_keycode_from_scancode buf len = keyboard_get_keycode_from_scancode buf' len"
proof -
  have "buf ! i = buf' ! i" if "i < len" for i using assms that by (metis nth_take)
  then have "by_scancode buf len = by_scancode buf' len"
    by (intro ext) (auto simp: by_scancode_def scancode_compare_def list_all_iff split: prod.splits)
  then show ?thesis by (simp add: keyboard_get_keycode_from_scancode_def)
qed

lemma key_down_event [simp]:
  "key_down (s\<lparr>event := e\<rparr>) k = key_down s k" "key_down (s\<lparr>handled := h\<rparr>) k = key_down s k"
  "key_down (s\<lparr>keyboard_state := st\<rparr>) k = key_down s k" "key_down (s\<lparr>scancode_len := n\<rparr>) k = key_down s k"
  "key_down (s\<lparr>scancode_buf := bs\<rparr>) k = key_down s k"
  by (simp_all add: key_down_bit)

lemma key_down_locks [simp]: "key_down (process_locks s) k = key_down s k"
  by (simp add: key_down_bit process_locks_def)

lemma key_down_process:
  "key_down (keyboard_process_scancode m s) j \<longleftrightarrow>
    (let k = keyboard_get_keycode_from_scancode (scancode_buf s) (scancode_len s)
     in if j = k \<and> \<not> is_lock_key k then m else key_down s j)"
  by (auto simp: keyboard_process_scancode_def Let_def key_down_set)

lemma handled_process:
  "handled (keyboard_process_scancode m s) =
     (if handler s then handled s @ [event (keyboard_process_scancode m s)] else handled s)"
  by (simp add: keyboard_process_scancode_def process_locks_def Let_def)

text \<open>The scancodes of ordinary keys: one byte, or one byte after the extended prefix.\<close>

datatype key = Plain u8 | Extended u8

fun make_code :: "key \<Rightarrow> u8 list" where
  "make_code (Plain b) = [b]"
| "make_code (Extended b) = [0xE0, b]"

fun break_code :: "key \<Rightarrow> u8 list" where
  "break_code (Plain b) = [0xF0, b]"
| "break_code (Extended b) = [0xE0, 0xF0, b]"

fun ordinary :: "key \<Rightarrow> bool" where
  "ordinary (Plain b) \<longleftrightarrow> b \<noteq> 0xF0 \<and> b \<noteq> 0xE0 \<and> b \<noteq> 0xE1"
| "ordinary (Extended b) \<longleftrightarrow> b \<noteq> 0xF0 \<and> b \<noteq> 0x12"

definition keycode_of :: "key \<Rightarrow> u8" where
  "keycode_of k = keyboard_get_keycode_from_scancode (make_code k) (length (make_code k))"

lemmas handle_defs = keyboard_handle_data_def keyboard_process_special_scancode_def Let_def IS_PAUSE_MK_def
  IS_PR_SC_MK_def IS_PR_BR_MK_def keyboard_switch_def

lemma start_inv: "kb_inv s \<Longrightarrow> keyboard_state s = START \<Longrightarrow> length (scancode_buf s) = 8 \<and> scancode_len s = 0"
  by (simp add: kb_inv_def)

text \<open>The bytes of an ordinary key lead to exactly one call of \<^verbatim>\<open>keyboard_process_scancode\<close>.\<close>

lemma run_key:
  assumes "kb_inv s" "keyboard_state s = START" "ordinary k"
  shows "\<exists>u. run keyboard_handle_data (if down then make_code k else break_code k) s = Some (keyboard_process_scancode down u) \<and>
    take (length (make_code k)) (scancode_buf u) = make_code k \<and> scancode_len u = length (make_code k) \<and>
    length (scancode_buf u) = 8 \<and> key_states u = key_states s \<and> event u = event s \<and> led_state u = led_state s \<and>
    handler u = handler s \<and> handled u = handled s"
proof -
  obtain b0 b1 bs where buf: "scancode_buf s = b0 # b1 # bs" "length bs = 6"
    using start_inv[OF assms(1,2)] by (cases "scancode_buf s"; cases "tl (scancode_buf s)") auto
  have len: "scancode_len s = 0" using start_inv[OF assms(1,2)] by simp
  show ?thesis
    using assms(2,3) buf len
    by (cases k; cases down) (auto simp: handle_defs intro!: exI)
qed


lemma keyboard_start_inv: "kb_inv keyboard_start" "keyboard_state keyboard_start = START"
  by (simp_all add: kb_inv_def keyboard_start_def)


subsection \<open>Modifiers and lock lights\<close>

lemma keycodes:
  "keyboard_get_keycode ''PAUSE'' = 47" "keyboard_get_keycode ''SCROLL'' = 46"
  "keyboard_get_keycode ''NUM'' = 81" "keyboard_get_keycode ''CAPS'' = 128"
  by (simp_all add: keyboard_get_keycode_def keycode_table_def by_name_def KEYCODE_def)

definition leds_ok :: "keyboard \<Rightarrow> bool" where
  "leds_ok s \<longleftrightarrow> bit (led_state s) 0 = scroll_lock (flags (event s)) \<and> bit (led_state s) 1 = num_lock (flags (event s)) \<and>
     bit (led_state s) 2 = caps_lock (flags (event s))"

definition same_modifiers :: "keyboard_flags \<Rightarrow> keyboard_flags \<Rightarrow> bool" where
  "same_modifiers f g \<longleftrightarrow> shift f = shift g \<and> ctrl f = ctrl g \<and> gui f = gui g \<and> alt f = alt g"

definition modifiers_ok :: "keyboard \<Rightarrow> bool" where
  "modifiers_ok s \<longleftrightarrow> same_modifiers (flags (event s)) (modifier_flags s (flags (event s)))"

lemma led_consts: "LED_SCROLL = pow2 0" "LED_NUM = pow2 1" "LED_CAPS = pow2 2"
  by (simp_all add: pow2_def)

lemma press_lock_leds:
  assumes "leds_ok s"
  shows "leds_ok (press_lock n LED_SCROLL scroll_lock (\<lambda>b f. f\<lparr>scroll_lock := b\<rparr>) s)"
    "leds_ok (press_lock n LED_NUM num_lock (\<lambda>b f. f\<lparr>num_lock := b\<rparr>) s)"
    "leds_ok (press_lock n LED_CAPS caps_lock (\<lambda>b f. f\<lparr>caps_lock := b\<rparr>) s)"
  using assms unfolding led_consts
  by (auto simp: leds_ok_def press_lock_def keyboard_leds_def Let_def bit_or_pow2 bit_and_not_pow2)

lemma press_lock_modifiers:
  "same_modifiers (flags (event (press_lock n l scroll_lock (\<lambda>b f. f\<lparr>scroll_lock := b\<rparr>) s))) (flags (event s))"
  "same_modifiers (flags (event (press_lock n l num_lock (\<lambda>b f. f\<lparr>num_lock := b\<rparr>) s))) (flags (event s))"
  "same_modifiers (flags (event (press_lock n l caps_lock (\<lambda>b f. f\<lparr>caps_lock := b\<rparr>) s))) (flags (event s))"
  by (auto simp: same_modifiers_def press_lock_def Let_def)

lemma same_modifiers_trans: "same_modifiers f g \<Longrightarrow> same_modifiers g h \<Longrightarrow> same_modifiers f h"
  by (simp add: same_modifiers_def)

lemma process_locks_ok:
  "leds_ok s \<Longrightarrow> leds_ok (process_locks s)"
  "same_modifiers (flags (event (process_locks s))) (flags (event s))"
  unfolding process_locks_def
  by (intro press_lock_leds, assumption)
     (rule same_modifiers_trans[OF press_lock_modifiers(3) same_modifiers_trans[OF press_lock_modifiers(2) press_lock_modifiers(1)]])

lemma modifier_flags_other [simp]:
  "scroll_lock (modifier_flags s f) = scroll_lock f" "num_lock (modifier_flags s f) = num_lock f"
  "caps_lock (modifier_flags s f) = caps_lock f"
  by (simp_all add: modifier_flags_def)

lemma modifier_flags_same: "same_modifiers (modifier_flags s f) (modifier_flags t g) \<longleftrightarrow> 
   same_modifiers (modifier_flags s no_flags) (modifier_flags t no_flags)"
  by (simp add: modifier_flags_def same_modifiers_def)

lemma led_set_key [simp]: "led_state (keyboard_set_key_pressed k v s) = led_state s"
  by (simp add: keyboard_set_key_pressed_def)

lemma process_ok:
  assumes "leds_ok s"
  shows "leds_ok (keyboard_process_scancode m s) \<and> modifiers_ok (keyboard_process_scancode m s)"
proof -
  define k where "k = keyboard_get_keycode_from_scancode (scancode_buf s) (scancode_len s)"
  define s1 where "s1 = (if \<not> is_lock_key k then keyboard_set_key_pressed k m
    (s\<lparr>event := (event s)\<lparr>keycode := k, pressed := m\<rparr>\<rparr>) else s\<lparr>event := (event s)\<lparr>keycode := k, pressed := m\<rparr>\<rparr>)"
  define s2 where "s2 = s1\<lparr>event := (event s1)\<lparr>ascii := keyboard_get_ascii_from_keycode qwertz_layout k
    (shift (flags (event s1))) (caps_lock (flags (event s1)))\<rparr>\<rparr>"
  define s3 where "s3 = s2\<lparr>event := (event s2)\<lparr>flags := modifier_flags s2 (flags (event s2))\<rparr>\<rparr>"
  define s4 where "s4 = (if pressed (event s3) then process_locks s3 else s3)"
  define s5 where "s5 = (if handler s4 then s4\<lparr>handled := handled s4 @ [event s4]\<rparr> else s4)"
  have eq: "keyboard_process_scancode m s = s5\<lparr>keyboard_state := START, scancode_len := 0\<rparr>"
    unfolding keyboard_process_scancode_def Let_def k_def[symmetric] s1_def[symmetric] s2_def[symmetric]
      s3_def[symmetric] s4_def[symmetric] s5_def[symmetric] by simp
  have "leds_ok s3" using assms by (simp add: leds_ok_def s3_def s2_def s1_def)
  then have l: "leds_ok s4" by (simp add: s4_def process_locks_ok)
  have k4: "key_down s4 j = key_down s2 j" for j by (simp add: s4_def s3_def)
  then have "modifier_flags s4 f = modifier_flags s2 f" for f by (simp add: modifier_flags_def)
  moreover have "same_modifiers (flags (event s4)) (modifier_flags s2 (flags (event s2)))"
    using process_locks_ok(2)[of s3] by (auto simp: s4_def s3_def same_modifiers_def)
  ultimately have m: "modifiers_ok s4"
    unfolding modifiers_ok_def by (simp add: modifier_flags_def same_modifiers_def)
  have "modifier_flags (s5\<lparr>keyboard_state := START, scancode_len := 0\<rparr>) f = modifier_flags s4 f" for f
    by (simp add: modifier_flags_def s5_def)
  then show ?thesis using l m unfolding eq by (simp add: leds_ok_def modifiers_ok_def s5_def)
qed

definition kb_ok :: "keyboard \<Rightarrow> bool" where
  "kb_ok s \<longleftrightarrow> kb_inv s \<and> leds_ok s \<and> modifiers_ok s"

lemma other_ok [simp]:
  "leds_ok (s\<lparr>scancode_buf := bs, scancode_len := n\<rparr>) = leds_ok s" "leds_ok (s\<lparr>keyboard_state := st\<rparr>) = leds_ok s"
  "modifiers_ok (s\<lparr>scancode_buf := bs, scancode_len := n\<rparr>) = modifiers_ok s"
  "modifiers_ok (s\<lparr>keyboard_state := st\<rparr>) = modifiers_ok s"
  "leds_ok (s\<lparr>scancode_buf := bs\<rparr>) = leds_ok s" "modifiers_ok (s\<lparr>scancode_buf := bs\<rparr>) = modifiers_ok s"
  by (simp_all add: leds_ok_def modifiers_ok_def modifier_flags_def)

lemma special_ok:
  "leds_ok s \<Longrightarrow> leds_ok (snd (keyboard_process_special_scancode c n m s))"
  "leds_ok s \<Longrightarrow> modifiers_ok s \<Longrightarrow> modifiers_ok (snd (keyboard_process_special_scancode c n m s))"
  by (simp_all add: keyboard_process_special_scancode_def process_ok Let_def)

lemma switch_ok:
  "leds_ok s \<Longrightarrow> leds_ok (keyboard_switch b s)" "leds_ok s \<Longrightarrow> modifiers_ok s \<Longrightarrow> modifiers_ok (keyboard_switch b s)"
  by (simp_all add: keyboard_switch_def process_ok split: keyboard_state.splits)

lemma handle_data_ok:
  assumes "kb_ok s"
  shows "\<exists>t. keyboard_handle_data b s = Some t \<and> kb_ok t"
proof -
  obtain t where t: "keyboard_handle_data b s = Some t" "kb_inv t" using handle_data_inv assms kb_ok_def by blast
  have "leds_ok t \<and> modifiers_ok t"
    using t(1) assms
    by (auto simp: keyboard_handle_data_def kb_ok_def Let_def case_prod_unfold special_ok switch_ok split: if_splits)
  then show ?thesis using t by (simp add: kb_ok_def)
qed

interpretation modifiers: driven_machine keyboard_handle_data kb_ok
  by unfold_locales (rule handle_data_ok)

definition keyboard_boot :: "u8 \<Rightarrow> u8 \<Rightarrow> bool \<Rightarrow> keyboard" where
  "keyboard_boot answer config h = fst (keyboard_init answer config (keyboard_start\<lparr>handler := h\<rparr>))"

lemma keyboard_boot_ok: "kb_ok (keyboard_boot answer config h)"
proof -
  have "\<not> key_down (keyboard_boot answer config h) k" for k
    by (simp add: keyboard_boot_def keyboard_init_def keyboard_start_def key_down_bit Let_def
        keyboard_leds_def case_prod_unfold)
  then show ?thesis
    by (simp add: kb_ok_def kb_inv_def leds_ok_def modifiers_ok_def modifier_flags_def same_modifiers_def
        keyboard_boot_def keyboard_init_def keyboard_start_def Let_def keyboard_leds_def case_prod_unfold no_flags_def)
qed

text \<open>
  Whatever bytes the controller delivers, in whatever order, the driver never leaves the scancode
  buffer: every call succeeds and at most seven bytes are pending.
\<close>

theorem keyboard_never_overruns:
  "\<exists>t. run keyboard_handle_data bytes (keyboard_boot answer config h) = Some t \<and>
    length (scancode_buf t) = SCANCODE_LEN \<and> scancode_len t < SCANCODE_LEN"
proof -
  obtain t where "run keyboard_handle_data bytes (keyboard_boot answer config h) = Some t" "kb_inv t"
    using scancodes.run_inv keyboard_boot_ok kb_ok_def by blast
  then show ?thesis by (auto simp: kb_inv_def split: keyboard_state.splits)
qed

text \<open>
  C20: After any bytes from the controller the modifier flags of the event say which of the modifier keys are down in the
  key bitmap, and the three lights of the keyboard show the lock flags.
\<close>

theorem keyboard_modifiers_and_lights:
  "\<exists>t. run keyboard_handle_data bytes (keyboard_boot answer config h) = Some t \<and>
    (let f = flags (event t); key = (\<lambda>name. key_down t (keyboard_get_keycode name))
     in shift f = (key ''L SHFT'' \<or> key ''R SHFT'') \<and> ctrl f = (key ''L CTRL'' \<or> key ''R CTRL'') \<and>
        gui f = (key ''L GUI'' \<or> key ''R GUI'') \<and> alt f = (key ''L ALT'' \<or> key ''R ALT'') \<and>
        bit (led_state t) 0 = scroll_lock f \<and> bit (led_state t) 1 = num_lock f \<and> bit (led_state t) 2 = caps_lock f)"
proof -
  obtain t where "run keyboard_handle_data bytes (keyboard_boot answer config h) = Some t" "kb_ok t"
    using modifiers.run_inv keyboard_boot_ok by blast
  then show ?thesis
    by (simp add: kb_ok_def leds_ok_def modifiers_ok_def modifier_flags_def same_modifiers_def Let_def)
qed

subsection \<open>Print Screen\<close>

lemma print_screen_codes:
  "keyboard_get_keycode_from_scancode (0xE0 # 0x7C # bs) (Suc (Suc 0)) = KEY_UNKNOWN"
  by (simp add: keyboard_get_keycode_from_scancode_def keycode_table_def by_scancode_def scancode_compare_def compare_buf_def)

text \<open>
  The break code of Print Screen is not recognised. The first half counts as the release of an unknown
  key, so the key bitmap still shows Print Screen pressed if it was; the second half is
  mistaken for the beginning of the make code, and the driver stays in the state for special codes, where it swallows the next byte.
\<close>

theorem print_screen_release_is_lost:
  assumes "kb_inv s" "keyboard_state s = START"
  shows "\<exists>t. run keyboard_handle_data [0xE0, 0xF0, 0x7C, 0xE0, 0xF0, 0x12] s = Some t \<and>
    keyboard_state t = SPECIAL_RECEIVED \<and> (\<forall>j. j \<noteq> KEY_UNKNOWN \<longrightarrow> key_down t j = key_down s j) \<and>
    (\<forall>b. \<exists>u. keyboard_handle_data b t = Some u \<and> keyboard_state u = SPECIAL_RECEIVED \<and>
       event u = event t \<and> key_states u = key_states t)"
proof -
  have ord: "ordinary (Extended 0x7C)" by simp
  obtain u where u0: "run keyboard_handle_data (break_code (Extended 0x7C)) s = Some (keyboard_process_scancode False u)"
    "take (length (make_code (Extended 0x7C))) (scancode_buf u) = make_code (Extended 0x7C)"
    "scancode_len u = length (make_code (Extended 0x7C))" "length (scancode_buf u) = 8" "key_states u = key_states s"
    using run_key[OF assms ord, of False] unfolding if_False by blast
  then have u: "run keyboard_handle_data [0xE0, 0xF0, 0x7C] s = Some (keyboard_process_scancode False u)"
    "take 2 (scancode_buf u) = [0xE0, 0x7C]" "scancode_len u = 2" "length (scancode_buf u) = 8" "key_states u = key_states s"
    by (simp_all add: numeral_2_eq_2)
  let ?v = "keyboard_process_scancode False u"
  obtain bs where bs: "scancode_buf u = 0xE0 # 0x7C # bs" "length bs = 6"
    using u(2,4) by (cases "scancode_buf u"; cases "tl (scancode_buf u)") auto
  have down: "j \<noteq> KEY_UNKNOWN \<Longrightarrow> key_down ?v j = key_down s j" for j
    using u(3,5) bs print_screen_codes[of bs]
    by (simp add: key_down_process Let_def numeral_2_eq_2) (simp add: key_down_bit)
  have v: "keyboard_state ?v = START" "scancode_len ?v = 0" "scancode_buf ?v = 0xE0 # 0x7C # bs"
    using bs by simp_all
  define t where "t = ?v\<lparr>scancode_buf := 0xE0 # 0x12 # bs, scancode_len := 2, keyboard_state := SPECIAL_RECEIVED\<rparr>"
  have "run keyboard_handle_data [0xE0, 0xF0, 0x12] ?v = Some t"
    using v bs(2) by (simp add: handle_defs t_def)
  then have "run keyboard_handle_data ([0xE0, 0xF0, 0x7C] @ [0xE0, 0xF0, 0x12]) s = Some t"
    unfolding run_append using u(1) by simp
  moreover have "\<exists>u. keyboard_handle_data b t = Some u \<and> keyboard_state u = SPECIAL_RECEIVED \<and>
       event u = event t \<and> key_states u = key_states t" for b
    using bs(2) by (simp add: handle_defs t_def)
  moreover have "key_down t j = key_down ?v j" for j by (simp add: key_down_bit t_def)
  ultimately show ?thesis using down by (auto simp: t_def)
qed

theorem print_screen_release_is_lost_witness:
  "\<exists>t. run keyboard_handle_data [0xE0, 0xF0, 0x7C, 0xE0, 0xF0, 0x12] keyboard_start = Some t \<and>
    keyboard_state t = SPECIAL_RECEIVED"
  using print_screen_release_is_lost[OF keyboard_start_inv] by blast

subsection \<open>The tables\<close>

lemma table_names: "list_all (\<lambda>(name, row, col, sc). keyboard_get_keycode name = KEYCODE row col) keycode_table"
  by code_simp

lemma table_scancodes:
  "list_all (\<lambda>(name, row, col, sc). keyboard_get_keycode_from_scancode (compare_buf sc) (length sc) = KEYCODE row col) keycode_table"
  by code_simp

lemma table_distinct: "distinct (map (\<lambda>(name, row, col, sc). KEYCODE row col) keycode_table)"
  by code_simp

text \<open>
  The table is consistent: no entry is hidden by an earlier one, so that every name and every scancode of it leads to the
  keycode of its own row, and no two keys share a keycode.
\<close>

theorem keycode_table_consistent:
  "list_all (\<lambda>(name, row, col, sc). keyboard_get_keycode name = KEYCODE row col \<and>
      keyboard_get_keycode_from_scancode (compare_buf sc) (length sc) = KEYCODE row col) keycode_table \<and>
   distinct (map (\<lambda>(name, row, col, sc). KEYCODE row col) keycode_table)"
  using table_names table_scancodes table_distinct by (auto simp: list_all_iff)

end
