(* ===== verification/Mouse.thy ===== *)
theory Mouse
  imports Prelude
begin

unbundle bit_operations_syntax

text \<open>
  \<^verbatim>\<open>hardware/io/mouse.c\<close>: the assembly of three-byte packets, the movement of the pointer and the
  device settings. The module's static variables are one record. A write outside
  \<^verbatim>\<open>packet_buf\<close> is \<open>None\<close>; the events passed to a registered handler are a list. What the device
  answers is an argument, what is written to it a result.
\<close>

definition PACKET_LEN :: nat where [simp]: "PACKET_LEN = 3"
definition FLAG_ALWAYS_ONE :: u8 where "FLAG_ALWAYS_ONE = pow2 3"
definition x_max :: u16 where [simp]: "x_max = 1000"
definition y_max :: u16 where [simp]: "y_max = 750"
definition screen_width :: u16 where [simp]: "screen_width = 79"
definition screen_height :: u16 where [simp]: "screen_height = 24"
definition dx_max :: u8 where [simp]: "dx_max = 150"
definition dy_max :: u8 where [simp]: "dy_max = 150"

text \<open>\<^verbatim>\<open>mouse_packet_t\<close>: the flags of the first byte, then the two movement bytes.\<close>

record mouse_packet =
  packet_flags :: u8
  x_movement :: u8
  y_movement :: u8

definition packet_left :: "mouse_packet \<Rightarrow> bool" where "packet_left p = bit (packet_flags p) 0"
definition packet_right :: "mouse_packet \<Rightarrow> bool" where "packet_right p = bit (packet_flags p) 1"
definition packet_middle :: "mouse_packet \<Rightarrow> bool" where "packet_middle p = bit (packet_flags p) 2"
definition x_sign :: "mouse_packet \<Rightarrow> bool" where "x_sign p = bit (packet_flags p) 4"
definition y_sign :: "mouse_packet \<Rightarrow> bool" where "y_sign p = bit (packet_flags p) 5"
definition x_overflow :: "mouse_packet \<Rightarrow> bool" where "x_overflow p = bit (packet_flags p) 6"
definition y_overflow :: "mouse_packet \<Rightarrow> bool" where "y_overflow p = bit (packet_flags p) 7"

record mouse_event =
  event_x :: u16
  event_y :: u16
  screen_x :: u8
  screen_y :: u8
  left :: bool
  right :: bool
  middle :: bool

record mouse =
  packet_buf :: "u8 list"
  packet_len :: nat
  mouse_event :: mouse_event
  mouse_handler :: bool
  mouse_handled :: "mouse_event list"

definition mouse_start :: "bool \<Rightarrow> mouse" where
  "mouse_start h = \<lparr>packet_buf = replicate PACKET_LEN 0, packet_len = 0,
     mouse_event = \<lparr>event_x = 0, event_y = 0, screen_x = 0, screen_y = 0, left = False, right = False, middle = False\<rparr>,
     mouse_handler = h, mouse_handled = []\<rparr>"

subsection \<open>Packets\<close>

definition mouse_map :: "u32 \<Rightarrow> u32 \<Rightarrow> u32 \<Rightarrow> u32 \<Rightarrow> u32 \<Rightarrow> u32" where
  "mouse_map x in_min in_max out_min out_max =
     (x - in_min) * (out_max - out_min) div (in_max - in_min) + out_min"

definition ABS :: "int \<Rightarrow> int" where
  "ABS x = (if x < 0 then - x else x)"

definition SUM_TOO_LOW :: "u16 \<Rightarrow> u16 \<Rightarrow> int \<Rightarrow> bool" where
  "SUM_TOO_LOW coord dcoord mini \<longleftrightarrow> sint coord + sint dcoord < mini"

definition SUM_TOO_HIGH :: "u16 \<Rightarrow> u16 \<Rightarrow> int \<Rightarrow> bool" where
  "SUM_TOO_HIGH coord dcoord maxi \<longleftrightarrow> maxi < sint coord + sint dcoord"

text \<open>The \<^verbatim>\<open>int16_t\<close> values \<^verbatim>\<open>dx\<close> and \<^verbatim>\<open>dy\<close> are words that are read with \<open>sint\<close>.\<close>

definition packet_dx :: "mouse_packet \<Rightarrow> u16" where
  "packet_dx p = (let dx = ucast (x_movement p) in if x_sign p then dx OR 0xFF00 else dx)"

definition packet_dy :: "mouse_packet \<Rightarrow> u16" where
  "packet_dy p = (let dy = ucast (y_movement p); dy = (if y_sign p then dy OR 0xFF00 else dy) in - dy)"

definition mouse_process_packet :: "mouse_packet \<Rightarrow> mouse \<Rightarrow> mouse" where
  "mouse_process_packet p s =
     (let s = s\<lparr>packet_len := 0\<rparr>
      in if x_overflow p \<or> y_overflow p then s
         else let dx = packet_dx p; dy = packet_dy p
              in if uint dx_max < ABS (sint dx) \<or> uint dy_max < ABS (sint dy) then s
                 else let e = mouse_event s;
                          x = (if SUM_TOO_LOW (event_x e) dx 0 then 0
                               else if SUM_TOO_HIGH (event_x e) dx (uint x_max) then x_max else event_x e + dx);
                          y = (if SUM_TOO_LOW (event_y e) dy 0 then 0
                               else if SUM_TOO_HIGH (event_y e) dy (uint y_max) then y_max else event_y e + dy);
                          e = \<lparr>event_x = x, event_y = y,
                               screen_x = ucast (mouse_map (ucast x) 0 (ucast x_max) 0 (ucast screen_width)),
                               screen_y = ucast (mouse_map (ucast y) 0 (ucast y_max) 0 (ucast screen_height)),
                               left = packet_left p, right = packet_right p, middle = packet_middle p\<rparr>;
                          s = s\<lparr>mouse_event := e\<rparr>
                      in if mouse_handler s then s\<lparr>mouse_handled := mouse_handled s @ [e]\<rparr> else s)"

definition packet_of :: "u8 list \<Rightarrow> mouse_packet" where
  "packet_of buf = \<lparr>packet_flags = buf ! 0, x_movement = buf ! 1, y_movement = buf ! 2\<rparr>"

definition mouse_handle_data :: "u8 \<Rightarrow> mouse \<Rightarrow> mouse option" where
  "mouse_handle_data data s =
     (if PACKET_LEN \<le> packet_len s then None
      else let s = s\<lparr>packet_buf := (packet_buf s)[packet_len s := data], packet_len := Suc (packet_len s)\<rparr>;
               s = (if packet_len s = 1 \<and> data AND FLAG_ALWAYS_ONE = 0 then s\<lparr>packet_len := 0\<rparr> else s)
           in Some (if packet_len s = PACKET_LEN then mouse_process_packet (packet_of (packet_buf s)) s else s))"

subsection \<open>Settings\<close>

definition GET_STATUS :: u8 where "GET_STATUS = 0xE9"
definition SET_RESOLUTION :: u8 where "SET_RESOLUTION = 0xE8"
definition SET_SAMPLE_RATE :: u8 where "SET_SAMPLE_RATE = 0xF3"

text \<open>
  The device answers \<^verbatim>\<open>GET_STATUS\<close> with three bytes: flags, resolution exponent, sample rate. The
  exponent shifts an \<^verbatim>\<open>int\<close>, of which the low byte is kept.
\<close>

definition mouse_get_status :: "u8 \<times> u8 \<times> u8 \<Rightarrow> u8 \<times> u8 \<times> u8" where
  "mouse_get_status = (\<lambda>(fl, res, rate). (fl, ucast (push_bit (unat res) (1 :: u32)), rate))"

text \<open>The loop \<^verbatim>\<open>while (resolution >>= 1) resolution_value++\<close>; it returns both variables.\<close>

function resolution_loop :: "u8 \<Rightarrow> u8 \<Rightarrow> u8 \<times> u8" where
  "resolution_loop resolution value =
     (let resolution = drop_bit 1 resolution
      in if resolution \<noteq> 0 then resolution_loop resolution (value + 1) else (resolution, value))"
  by pat_completeness auto
termination
proof (relation "measure (\<lambda>(resolution, value). unat resolution)", simp)
  fix resolution v x :: u8
  assume x: "x = drop_bit 1 resolution" "x \<noteq> 0"
  have "unat x = unat resolution div 2" by (simp add: x(1) drop_bit_eq_div unat_div)
  moreover have "unat x \<noteq> 0" using x(2) by (simp add: unat_eq_0)
  ultimately show "((x, v + 1), (resolution, v)) \<in> measure (\<lambda>(resolution, value). unat resolution)"
    by simp
qed

declare resolution_loop.simps [simp del]

text \<open>The result is the returned value and the bytes written to the device.\<close>

definition mouse_resolution :: "u8 \<times> u8 \<times> u8 \<Rightarrow> u8 \<Rightarrow> u8 \<times> u8 list" where
  "mouse_resolution answer resolution =
     (if resolution = 0 then (let (_, resolution, _) = mouse_get_status answer in (resolution, [GET_STATUS]))
      else if resolution = 1 \<or> resolution = 2 \<or> resolution = 4 \<or> resolution = 8 then
        let (resolution, value) = resolution_loop resolution 0 in (resolution, [SET_RESOLUTION, value])
      else (0, []))"

definition mouse_sample_rate :: "u8 \<times> u8 \<times> u8 \<Rightarrow> u8 \<Rightarrow> u8 \<times> u8 list" where
  "mouse_sample_rate answer sample_rate =
     (if sample_rate = 0 then (let (_, _, sample_rate) = mouse_get_status answer in (sample_rate, [GET_STATUS]))
      else if sample_rate \<in> {10, 20, 40, 60, 80, 100, 200} then (sample_rate, [SET_SAMPLE_RATE, sample_rate])
      else (0, []))"

definition mouse_init :: "u8 \<times> u8 \<times> u8 \<Rightarrow> u8 list" where
  "mouse_init answer = snd (mouse_resolution answer 4) @ snd (mouse_sample_rate answer 40)"

subsection \<open>The pointer stays on the screen\<close>

definition mouse_inv :: "mouse \<Rightarrow> bool" where
  "mouse_inv s \<longleftrightarrow> length (packet_buf s) = PACKET_LEN \<and> packet_len s < PACKET_LEN \<and>
     unat (event_x (mouse_event s)) \<le> 1000 \<and> unat (event_y (mouse_event s)) \<le> 750 \<and>
     unat (screen_x (mouse_event s)) \<le> 79 \<and> unat (screen_y (mouse_event s)) \<le> 24"

lemma sint_small: "unat (x :: u16) \<le> 1000 \<Longrightarrow> sint x = int (unat x)"
proof -
  assume "unat x \<le> 1000"
  then have "uint x < 2 ^ 15" by (simp add: uint_nat del: of_nat_unat)
  then have "signed_take_bit 15 (uint x) = uint x"
    using uint_lt2p[of x] by (intro signed_take_bit_int_eq_self) (simp_all add: order_trans[OF _ uint_ge_0])
  moreover have "sint x = signed_take_bit 15 (uint x)" by (subst sint_uint) simp
  ultimately show ?thesis by simp
qed

lemma sint_word_of_int: "- 32768 \<le> k \<Longrightarrow> k < 32768 \<Longrightarrow> sint (word_of_int k :: u16) = k"
  by (simp add: signed_of_int signed_take_bit_int_eq_self)

lemma unat_word_of_int: "0 \<le> k \<Longrightarrow> k < 65536 \<Longrightarrow> unat (word_of_int k :: u16) = nat k"
  by (simp add: unsigned_of_int take_bit_int_eq_self flip: nat_uint_eq)

lemma add_as_int: "(a :: u16) + b = word_of_int (sint a + sint b)"
  by simp

text \<open>The signed reading of the movement bytes, 9 bits each.\<close>

definition movement :: "u8 \<Rightarrow> bool \<Rightarrow> int" where
  "movement b sign = uint b - (if sign then 256 else 0)"

lemma sign_extend:
  "(let d = (ucast (b :: u8) :: u16) in if sign then d OR 0xFF00 else d) = word_of_int (movement b sign)"
proof (cases sign)
  case True
  have "(ucast b :: u16) AND 0xFF00 = 0"
  proof (rule bit_word_eqI)
    fix n assume "n < LENGTH(16)"
    have "(0xFF00 :: u16) = push_bit 8 (mask 8)" by (simp add: mask_eq_exp_minus_1)
    then have "bit (0xFF00 :: u16) n \<Longrightarrow> 8 \<le> n" by (metis bit_push_bit_iff)
    then show "bit ((ucast b :: u16) AND 0xFF00) n = bit (0 :: u16) n"
      by (auto simp: bit_simps dest: bit_imp_le_length)
  qed
  then have "(ucast b :: u16) OR 0xFF00 = ucast b + 0xFF00" by (simp add: disjunctive_add_eq_or)
  also have "\<dots> = word_of_int (uint b - 256)" by (simp add: unsigned_ucast_eq flip: word_of_int_uint) 
  finally show ?thesis using True by (simp add: movement_def)
qed (simp add: movement_def)

lemma movement_bounds: "- 256 \<le> movement b sign" "movement b sign \<le> 255"
proof -
  have "0 \<le> uint b" "uint b < 256" using uint_lt2p[of b] by simp_all
  then show "- 256 \<le> movement b sign" "movement b sign \<le> 255" unfolding movement_def by (split if_split; linarith)+
qed

lemma sint_packet:
  "sint (packet_dx p) = movement (x_movement p) (x_sign p)"
  "sint (packet_dy p) = - movement (y_movement p) (y_sign p)"
proof -
  show "sint (packet_dx p) = movement (x_movement p) (x_sign p)"
    unfolding packet_dx_def sign_extend using movement_bounds[of "x_movement p" "x_sign p"]
    by (simp add: sint_word_of_int)
  have "packet_dy p = word_of_int (- movement (y_movement p) (y_sign p))"
    using sign_extend[of "y_movement p" "y_sign p"] by (simp add: packet_dy_def Let_def)
  then show "sint (packet_dy p) = - movement (y_movement p) (y_sign p)"
    using movement_bounds[of "y_movement p" "y_sign p"] by (simp only:) (rule sint_word_of_int, simp_all)
qed

definition clamp :: "int \<Rightarrow> int \<Rightarrow> int" where
  "clamp m v = max 0 (min m v)"

lemma move_clamped:
  assumes "unat x \<le> unat m" "unat m \<le> 1000"
  shows "int (unat (if SUM_TOO_LOW x d 0 then 0 else if SUM_TOO_HIGH x d (uint m) then m else x + d)) =
    clamp (int (unat m)) (int (unat x) + sint d)"
proof -
  have x: "sint x = int (unat x)" using assms by (intro sint_small) simp
  have m: "int (unat m) \<le> 1000" using assms(2) by linarith
  have "unat (x + d) = nat (int (unat x) + sint d)" if "0 \<le> int (unat x) + sint d" "int (unat x) + sint d \<le> int (unat m)"
    unfolding add_as_int x using that m by (intro unat_word_of_int) linarith+
  then have "int (unat (x + d)) = int (unat x) + sint d" if "0 \<le> int (unat x) + sint d" "int (unat x) + sint d \<le> int (unat m)"
    using that by simp
  then show ?thesis by (auto simp: SUM_TOO_LOW_def SUM_TOO_HIGH_def x clamp_def)
qed

lemma unat_mouse_map:
  assumes "unat x \<le> unat m" "unat m \<le> 1000" "unat w \<le> 79" "m \<noteq> 0"
  shows "unat (ucast (mouse_map (ucast (x :: u16)) 0 (ucast (m :: u16)) 0 (ucast (w :: u16))) :: u8) =
    unat x * unat w div unat m"
proof -
  have "unat x * unat w \<le> 1000 * 79" using assms by (intro mult_le_mono) simp_all
  then have p: "unat (ucast x * ucast w :: u32) = unat x * unat w"
    using unat_bound[of x] unat_bound[of w] by (subst unat_mult_small) (simp_all add: unsigned_ucast_eq take_bit_eq_mod)
  have "unat (ucast x * ucast w div ucast m :: u32) = unat x * unat w div unat m"
    using unat_bound[of m] by (simp add: unat_div p unsigned_ucast_eq take_bit_eq_mod)
  moreover have "unat x * unat w div unat m \<le> 79"
  proof -
    have "unat x * unat w \<le> unat m * 79" using assms by (intro mult_le_mono) simp_all
    then have "unat x * unat w div unat m \<le> unat m * 79 div unat m" by (rule div_le_mono)
    then show ?thesis using assms(4) by (simp add: unat_eq_0)
  qed
  ultimately show ?thesis by (simp add: mouse_map_def unsigned_ucast_eq take_bit_eq_mod)
qed

text \<open>What a packet does, by its fields.\<close>

definition packet_ignored :: "mouse_packet \<Rightarrow> bool" where
  "packet_ignored p \<longleftrightarrow> x_overflow p \<or> y_overflow p \<or> 150 < \<bar>movement (x_movement p) (x_sign p)\<bar> \<or>
     150 < \<bar>movement (y_movement p) (y_sign p)\<bar>"

lemma process_packet:
  assumes "unat (event_x (mouse_event s)) \<le> 1000" "unat (event_y (mouse_event s)) \<le> 750"
  shows "packet_len (mouse_process_packet p s) = 0" "packet_buf (mouse_process_packet p s) = packet_buf s"
    "if packet_ignored p
     then mouse_process_packet p s = s\<lparr>packet_len := 0\<rparr>
     else \<exists>e. mouse_event (mouse_process_packet p s) = e \<and>
       int (unat (event_x e)) = clamp 1000 (int (unat (event_x (mouse_event s))) + movement (x_movement p) (x_sign p)) \<and>
       int (unat (event_y e)) = clamp 750 (int (unat (event_y (mouse_event s))) - movement (y_movement p) (y_sign p)) \<and>
       unat (screen_x e) = unat (event_x e) * 79 div 1000 \<and> unat (screen_y e) = unat (event_y e) * 24 div 750 \<and>
       left e = packet_left p \<and> right e = packet_right p \<and> middle e = packet_middle p \<and>
       mouse_handled (mouse_process_packet p s) = (if mouse_handler s then mouse_handled s @ [e] else mouse_handled s)"
proof -
  let ?t = "mouse_process_packet p s"
  show len: "packet_len ?t = 0" "packet_buf ?t = packet_buf s"
    by (simp_all add: mouse_process_packet_def Let_def)
  have abs: "ABS k = \<bar>k\<bar>" for k by (simp add: ABS_def)
  have ign: "packet_ignored p \<longleftrightarrow> x_overflow p \<or> y_overflow p \<or> uint dx_max < ABS (sint (packet_dx p)) \<or>
    uint dy_max < ABS (sint (packet_dy p))"
    unfolding packet_ignored_def abs sint_packet abs_minus_cancel by simp
  show "if packet_ignored p then ?t = s\<lparr>packet_len := 0\<rparr> else \<exists>e. mouse_event ?t = e \<and>
       int (unat (event_x e)) = clamp 1000 (int (unat (event_x (mouse_event s))) + movement (x_movement p) (x_sign p)) \<and>
       int (unat (event_y e)) = clamp 750 (int (unat (event_y (mouse_event s))) - movement (y_movement p) (y_sign p)) \<and>
       unat (screen_x e) = unat (event_x e) * 79 div 1000 \<and> unat (screen_y e) = unat (event_y e) * 24 div 750 \<and>
       left e = packet_left p \<and> right e = packet_right p \<and> middle e = packet_middle p \<and>
       mouse_handled ?t = (if mouse_handler s then mouse_handled s @ [e] else mouse_handled s)"
  proof (cases "packet_ignored p")
    case True
    then show ?thesis using True[unfolded ign] by (auto simp: mouse_process_packet_def Let_def)
  next
    case False
    define e where "e = mouse_event ?t"
    define x where "x = (if SUM_TOO_LOW (event_x (mouse_event s)) (packet_dx p) 0 then 0 else
      if SUM_TOO_HIGH (event_x (mouse_event s)) (packet_dx p) (uint x_max) then x_max else event_x (mouse_event s) + packet_dx p)"
    define y where "y = (if SUM_TOO_LOW (event_y (mouse_event s)) (packet_dy p) 0 then 0 else
      if SUM_TOO_HIGH (event_y (mouse_event s)) (packet_dy p) (uint y_max) then y_max else event_y (mouse_event s) + packet_dy p)"
    note t = mouse_process_packet_def[of p s, unfolded Let_def, folded x_def y_def]
    have e: "event_x e = x" "event_y e = y"
      "screen_x e = ucast (mouse_map (ucast x) 0 (ucast x_max) 0 (ucast screen_width))"
      "screen_y e = ucast (mouse_map (ucast y) 0 (ucast y_max) 0 (ucast screen_height))"
      "left e = packet_left p" "right e = packet_right p" "middle e = packet_middle p"
      "mouse_handled ?t = (if mouse_handler s then mouse_handled s @ [e] else mouse_handled s)"
      using False[unfolded ign] unfolding e_def t x_def y_def by simp_all
    have xy: "int (unat x) = clamp 1000 (int (unat (event_x (mouse_event s))) + movement (x_movement p) (x_sign p))"
      "int (unat y) = clamp 750 (int (unat (event_y (mouse_event s))) - movement (y_movement p) (y_sign p))"
      using move_clamped[of "event_x (mouse_event s)" x_max "packet_dx p"] move_clamped[of "event_y (mouse_event s)" y_max "packet_dy p"] assms
      unfolding sint_packet x_def[symmetric] y_def[symmetric] by simp_all
    then have b: "unat x \<le> 1000" "unat y \<le> 750" unfolding clamp_def by linarith+
    have "unat (screen_x e) = unat x * 79 div 1000" "unat (screen_y e) = unat y * 24 div 750"
      unfolding e using unat_mouse_map[of x x_max screen_width] unat_mouse_map[of y y_max screen_height] b by simp_all
    then show ?thesis using False e xy by (auto simp: e_def[symmetric])
  qed
qed

lemma handle_data_packet:
  assumes "mouse_inv s" "packet_len s = 0" "bit fl 3"
  shows "\<exists>u. run mouse_handle_data [fl, dx, dy] s =
      Some (mouse_process_packet \<lparr>packet_flags = fl, x_movement = dx, y_movement = dy\<rparr> u) \<and>
    mouse_event u = mouse_event s \<and> mouse_handler u = mouse_handler s \<and> mouse_handled u = mouse_handled s"
proof -
  obtain a b c where buf: "packet_buf s = [a, b, c]"
  proof -
    have "length (packet_buf s) = 3" using assms(1) by (simp add: mouse_inv_def)
    then show thesis using that by (auto simp: numeral_3_eq_3 length_Suc_conv)
  qed
  have "bit (fl AND FLAG_ALWAYS_ONE) 3" using assms(3) by (simp add: FLAG_ALWAYS_ONE_def bit_and_iff)
  then have "fl AND FLAG_ALWAYS_ONE \<noteq> 0" by force
  then show ?thesis
    using assms(2) buf by (auto simp: mouse_handle_data_def Let_def packet_of_def intro!: exI)
qed

text \<open>
  C21: A packet moves the pointer. Read from its first byte on, a packet whose movement overflows or exceeds 150 in
  one direction is dropped; otherwise the pointer moves by the signed 9-bit deltas, upwards being negative, is kept
  within 1000 times 750 and is scaled to the 80 times 25 screen, the buttons are those of the packet, and the handler is called once.
\<close>

theorem mouse_packet_moves_pointer:
  assumes "mouse_inv s" "packet_len s = 0" "bit fl 3"
  shows "\<exists>t. run mouse_handle_data [fl, dx, dy] s = Some t \<and> packet_len t = 0 \<and>
    (let e = mouse_event s; e' = mouse_event t; mx = movement dx (bit fl 4); my = movement dy (bit fl 5)
     in if bit fl 6 \<or> bit fl 7 \<or> 150 < \<bar>mx\<bar> \<or> 150 < \<bar>my\<bar>
        then e' = e \<and> mouse_handled t = mouse_handled s
        else int (unat (event_x e')) = clamp 1000 (int (unat (event_x e)) + mx) \<and>
          int (unat (event_y e')) = clamp 750 (int (unat (event_y e)) - my) \<and>
          unat (screen_x e') = unat (event_x e') * 79 div 1000 \<and>
          unat (screen_y e') = unat (event_y e') * 24 div 750 \<and>
          left e' = bit fl 0 \<and> right e' = bit fl 1 \<and> middle e' = bit fl 2 \<and>
          mouse_handled t = (if mouse_handler s then mouse_handled s @ [e'] else mouse_handled s))"
proof -
  let ?p = "\<lparr>packet_flags = fl, x_movement = dx, y_movement = dy\<rparr>"
  obtain u where u: "run mouse_handle_data [fl, dx, dy] s = Some (mouse_process_packet ?p u)"
    "mouse_event u = mouse_event s" "mouse_handler u = mouse_handler s" "mouse_handled u = mouse_handled s"
    using handle_data_packet[OF assms] by blast
  have b: "unat (event_x (mouse_event u)) \<le> 1000" "unat (event_y (mouse_event u)) \<le> 750"
    using assms(1) u(2) by (simp_all add: mouse_inv_def)
  have ign: "packet_ignored ?p \<longleftrightarrow> bit fl 6 \<or> bit fl 7 \<or> 150 < \<bar>movement dx (bit fl 4)\<bar> \<or> 150 < \<bar>movement dy (bit fl 5)\<bar>"
    by (simp add: packet_ignored_def x_overflow_def y_overflow_def x_sign_def y_sign_def)
  note fields = process_packet(3)[OF b, of ?p, unfolded ign u(2-4)]
  show ?thesis
  proof (cases "bit fl 6 \<or> bit fl 7 \<or> 150 < \<bar>movement dx (bit fl 4)\<bar> \<or> 150 < \<bar>movement dy (bit fl 5)\<bar>")
    case True
    then show ?thesis using fields u by (auto simp: Let_def)
  next
    case False
    then show ?thesis
      using fields u(1) process_packet(1)[OF b, of ?p] unfolding Let_def if_not_P[OF False]
      by (auto simp: packet_left_def packet_right_def packet_middle_def x_sign_def y_sign_def)
  qed
qed

lemma mouse_start_inv: "mouse_inv (mouse_start h)" "packet_len (mouse_start h) = 0"
  by (simp_all add: mouse_inv_def mouse_start_def)

theorem mouse_packet_moves_pointer_witness:
  "\<exists>t. run mouse_handle_data [0x29, 100, 0xF6] (mouse_start True) = Some t \<and>
    int (unat (event_x (mouse_event t))) = 100 \<and> int (unat (event_y (mouse_event t))) = 10 \<and> left (mouse_event t)"
proof -
  have "bit (0x29 :: u8) 3" "\<not> bit (0x29 :: u8) 4" "bit (0x29 :: u8) 5" "\<not> bit (0x29 :: u8) 6" "\<not> bit (0x29 :: u8) 7"
    "bit (0x29 :: u8) 0"
    by simp_all
  moreover have "movement 100 False = 100" "movement 0xF6 True = - 10" by (simp_all add: movement_def)
  moreover have "mouse_event (mouse_start True) = \<lparr>event_x = 0, event_y = 0, screen_x = 0, screen_y = 0, left = False,
     right = False, middle = False\<rparr>" by (simp add: mouse_start_def)
  ultimately show ?thesis
    using mouse_packet_moves_pointer[OF mouse_start_inv[of True], where fl = "0x29" and dx = 100 and dy = "0xF6"]
    by (auto simp: Let_def clamp_def)
qed

lemma mouse_handle_data_inv:
  assumes "mouse_inv s"
  shows "\<exists>t. mouse_handle_data b s = Some t \<and> mouse_inv t"
proof -
  have buf: "length (packet_buf s) = 3" "packet_len s < 3" using assms by (simp_all add: mouse_inv_def)
  have "mouse_inv (mouse_process_packet p u)" if "mouse_event u = mouse_event s" "length (packet_buf u) = 3" for p u
  proof (cases "packet_ignored p")
    case True
    then show ?thesis using process_packet[of u p] assms that by (simp add: mouse_inv_def)
  next
    case False
    have b: "unat (event_x (mouse_event u)) \<le> 1000" "unat (event_y (mouse_event u)) \<le> 750"
      using assms that(1) by (simp_all add: mouse_inv_def)
    note f = process_packet(3)[OF b, of p, unfolded if_not_P[OF False]]
    let ?e = "mouse_event (mouse_process_packet p u)"
    have "int (unat (event_x ?e)) \<le> 1000" "int (unat (event_y ?e)) \<le> 750"
      and scr: "unat (screen_x ?e) = unat (event_x ?e) * 79 div 1000" "unat (screen_y ?e) = unat (event_y ?e) * 24 div 750"
      using f unfolding clamp_def by auto
    then have "unat (event_x ?e) \<le> 1000" "unat (event_y ?e) \<le> 750" by linarith+
    moreover from this have "unat (screen_x ?e) \<le> 79" "unat (screen_y ?e) \<le> 24" unfolding scr by linarith+
    ultimately show ?thesis using process_packet(1,2)[OF b, of p] that by (simp add: mouse_inv_def)
  qed
  then show ?thesis
    using assms buf by (auto simp: mouse_handle_data_def Let_def mouse_inv_def)
qed

interpretation packets: driven_machine mouse_handle_data mouse_inv
  by unfold_locales (rule mouse_handle_data_inv)

text \<open>
  C22: Whatever bytes arrive, the packet buffer is not left, and the pointer
  and its screen position stay within their ranges.
\<close>

theorem mouse_pointer_in_range:
  "\<exists>t. run mouse_handle_data bytes (mouse_start h) = Some t \<and> packet_len t < PACKET_LEN \<and>
    event_x (mouse_event t) \<le> x_max \<and> event_y (mouse_event t) \<le> y_max \<and>
    screen_x (mouse_event t) \<le> 79 \<and> screen_y (mouse_event t) \<le> 24"
  using packets.run_inv[OF mouse_start_inv(1), of bytes h] by (auto simp: mouse_inv_def word_le_nat_alt)

subsection \<open>The resolution\<close>

lemma resolution_loop_values:
  "resolution_loop 1 v = (0, v)" "resolution_loop 2 v = (0, v + 1)" "resolution_loop 4 v = (0, v + 2)"
  "resolution_loop 8 v = (0, v + 3)"
proof -
  have d: "drop_bit (Suc 0) (1 :: u8) = 0" "drop_bit (Suc 0) (2 :: u8) = 1" "drop_bit (Suc 0) (4 :: u8) = 2" "drop_bit (Suc 0) (8 :: u8) = 4"
    by simp_all
  show 1: "resolution_loop 1 v = (0, v)" for v by (subst resolution_loop.simps) (simp add: d)
  show 2: "resolution_loop 2 v = (0, v + 1)" for v by (subst resolution_loop.simps) (simp add: d 1)
  show 4: "resolution_loop 4 v = (0, v + 2)" for v by (subst resolution_loop.simps) (simp add: d 2)
  show "resolution_loop 8 v = (0, v + 3)" by (subst resolution_loop.simps) (simp add: d 4)
qed

text \<open>
  Setting a valid resolution sends its binary logarithm to the mouse, but the function returns 0, the value
  that stands for an invalid resolution: the loop that computes the logarithm has consumed its argument.
\<close>

theorem mouse_resolution_returns_0:
  assumes "n < 4"
  shows "mouse_resolution answer (pow2 n) = (0, [SET_RESOLUTION, of_nat n])"
proof -
  have "n = 0 \<or> n = 1 \<or> n = 2 \<or> n = 3" using assms by linarith
  then show ?thesis by (auto simp: pow2_def mouse_resolution_def resolution_loop_values)
qed

theorem mouse_resolution_returns_0_witness:
  "mouse_resolution (0, 0, 0) (pow2 2) = (0, [SET_RESOLUTION, of_nat 2])"
  by (rule mouse_resolution_returns_0) simp

end
