(* ===== verification/Timer.thy ===== *)
theory Timer
  imports Prelude
begin

unbundle bit_operations_syntax

text \<open>
  \<^verbatim>\<open>hardware/pit.c\<close> and \<^verbatim>\<open>hardware/io/speaker.c\<close>: programming the interval timer, the clock that its
  interrupt drives, the busy wait and the timeout objects. Port writes are a list in program
  order. A division by a zero frequency raises an exception and is \<open>None\<close>.
\<close>

subsection \<open>Programming a channel\<close>

definition PIT_INIT :: u16 where [simp]: "PIT_INIT = 0x43"
definition PIT_CHANNEL :: "u8 \<Rightarrow> u16" where [simp]: "PIT_CHANNEL c = 0x40 + ucast c"
definition PIT_FREQ :: u32 where [simp]: "PIT_FREQ = 1193182"
definition MODE_RATE :: u8 where [simp]: "MODE_RATE = 2"

text \<open>\<^verbatim>\<open>pit_init_t\<close>: \<^verbatim>\<open>fmt\<close> is bit 0, \<^verbatim>\<open>mode\<close> bits 1 to 3, \<^verbatim>\<open>byte\<close> bits 4 and 5, \<^verbatim>\<open>chan\<close> bits 6 and 7.\<close>

definition pit_init_byte :: "u8 \<Rightarrow> u8 \<Rightarrow> u8" where
  "pit_init_byte mode channel =
     push_bit 1 (mode AND 7) OR push_bit 4 3 OR push_bit 6 (channel AND 3)"

definition pit_init_channel :: "u8 \<Rightarrow> u8 \<Rightarrow> u32 \<Rightarrow> bool \<times> (u16 \<times> u8) list" where
  "pit_init_channel channel mode freq =
     (if freq < 19 \<or> PIT_FREQ div 2 < freq then (False, [])
      else let counter = ucast (PIT_FREQ div freq) :: u16
           in (True, [(PIT_INIT, pit_init_byte mode channel),
                      (PIT_CHANNEL channel, ucast (counter AND 0xFF)),
                      (PIT_CHANNEL channel, ucast (drop_bit 8 counter))]))"

text \<open>
  Programming a channel is refused exactly outside 19 to 596591 Hz. Otherwise the three writes
  select the channel and hand it, low byte first, the quotient of the base frequency and the requested
  one; it fits the 16-bit counter and is never one of the forbidden values 0 and 1.
\<close>

theorem pit_init_channel_counter:
  "case pit_init_channel channel mode freq of
     (False, outs) \<Rightarrow> outs = [] \<and> (freq < 19 \<or> 596591 < freq)
   | (True, outs) \<Rightarrow> 19 \<le> freq \<and> freq \<le> 596591 \<and>
       (\<exists>lo hi. outs = [(PIT_INIT, pit_init_byte mode channel), (PIT_CHANNEL channel, lo), (PIT_CHANNEL channel, hi)] \<and>
          unat lo + 256 * unat hi = 1193182 div unat freq \<and> 2 \<le> unat lo + 256 * unat hi \<and>
          unat lo + 256 * unat hi \<le> 62799)"
proof (cases "freq < 19 \<or> PIT_FREQ div 2 < freq")
  case True
  then show ?thesis by (auto simp: pit_init_channel_def)
next
  case False
  then have f: "19 \<le> unat freq" "unat freq \<le> 596591"
    by (simp_all add: word_less_nat_alt word_le_nat_alt not_less)
  have c: "unat (PIT_FREQ div freq) = 1193182 div unat freq" by (simp add: unat_div)
  have hi: "1193182 div unat freq \<le> 1193182 div 19" using f(1) by (intro div_le_mono2) simp_all
  have lo: "1193182 div 596591 \<le> 1193182 div unat freq" using f by (intro div_le_mono2) simp_all
  let ?c = "ucast (PIT_FREQ div freq) :: u16"
  have uc: "unat ?c = 1193182 div unat freq"
    using hi c by (simp add: unsigned_ucast_eq take_bit_eq_mod)
  have l: "unat (ucast (?c AND 0xFF) :: u8) = unat ?c mod 256"
  proof -
    have "?c AND 0xFF = take_bit 8 ?c" by (simp add: take_bit_eq_mask mask_eq_exp_minus_1)
    then have "unat (?c AND 0xFF) = unat ?c mod 256"
      by (simp only: unsigned_take_bit_eq) (simp add: take_bit_eq_mod)
    then show ?thesis by (simp add: unsigned_ucast_eq take_bit_eq_mod)
  qed
  have h: "unat (ucast (drop_bit 8 ?c) :: u8) = unat ?c div 256"
  proof -
    have "unat ?c div 256 < 256" using unat_bound[of ?c] by simp
    then show ?thesis by (simp add: unsigned_ucast_eq take_bit_eq_mod drop_bit_eq_div unat_div)
  qed
  have sum: "unat (ucast (?c AND 0xFF) :: u8) + 256 * unat (ucast (drop_bit 8 ?c) :: u8) = 1193182 div unat freq"
    unfolding l h uc by (rule mod_mult_div_eq)
  have "19 \<le> freq" "freq \<le> 596591" using f by (simp_all add: word_le_nat_alt)
  moreover have "pit_init_channel channel mode freq = (True, [(PIT_INIT, pit_init_byte mode channel),
      (PIT_CHANNEL channel, ucast (?c AND 0xFF)), (PIT_CHANNEL channel, ucast (drop_bit 8 ?c))])"
    using False by (simp add: pit_init_channel_def Let_def)
  ultimately show ?thesis using sum hi lo by auto
qed

subsection \<open>The clock\<close>

record pit =
  pit_freq :: u32
  pit_seconds :: u32
  pit_minutes :: u32
  pit_hours :: u32
  pit_ticks :: u32

text \<open>The body of \<^verbatim>\<open>pit_handle_interrupt\<close> up to the call of the scheduler.\<close>

definition pit_tick :: "pit \<Rightarrow> pit option" where
  "pit_tick s =
     (let s = s\<lparr>pit_ticks := pit_ticks s + 1\<rparr>
      in if pit_freq s = 0 then None
         else if pit_ticks s mod pit_freq s \<noteq> 0 then Some s
         else let s = s\<lparr>pit_seconds := pit_seconds s + 1\<rparr>
              in if pit_seconds s mod 60 \<noteq> 0 then Some s
                 else let s = s\<lparr>pit_seconds := 0, pit_minutes := pit_minutes s + 1\<rparr>
                      in if pit_minutes s mod 60 \<noteq> 0 then Some s
                         else Some (s\<lparr>pit_minutes := 0, pit_hours := pit_hours s + 1\<rparr>))"

definition pit_init :: "u32 \<Rightarrow> pit \<Rightarrow> bool \<times> (u16 \<times> u8) list \<times> pit" where
  "pit_init new_freq s =
     (let (ok, outs) = pit_init_channel 0 MODE_RATE new_freq
      in (ok, outs, if ok then s\<lparr>pit_freq := new_freq\<rparr> else s))"

primrec pit_run :: "nat \<Rightarrow> pit \<Rightarrow> pit option" where
  "pit_run 0 s = Some s"
| "pit_run (Suc n) s = do { s \<leftarrow> pit_run n s; pit_tick s }"

definition pit_start :: "u32 \<Rightarrow> pit" where
  "pit_start freq = \<lparr>pit_freq = freq, pit_seconds = 0, pit_minutes = 0, pit_hours = 0, pit_ticks = 0\<rparr>"

text \<open>The clock after \<open>n\<close> ticks: the time of day of \<open>n div f\<close> elapsed seconds.\<close>

definition clock_at :: "u32 \<Rightarrow> nat \<Rightarrow> pit" where
  "clock_at f n = (let t = n div unat f in
     \<lparr>pit_freq = f, pit_seconds = of_nat (t mod 60), pit_minutes = of_nat (t div 60 mod 60),
      pit_hours = of_nat (t div 3600), pit_ticks = of_nat n\<rparr>)"

lemma small_word_zero: "k < 4294967296 \<Longrightarrow> (of_nat k :: u32) = 0 \<longleftrightarrow> k = 0"
  using unat_of_nat_small[of k, where 'a = 32] by (auto simp: word_unat_eq_iff)

lemma mod_60_step:
  assumes "k < 60"
  shows "(of_nat k + 1 :: u32) mod 60 = 0 \<longleftrightarrow> k = 59"
proof -
  have "unat (of_nat k + 1 :: u32) = k + 1" using assms by (simp add: unat_add_small unat_of_nat_small)
  then have "unat ((of_nat k + 1 :: u32) mod 60) = (k + 1) mod 60" by (simp add: unat_mod)
  then show ?thesis using assms by (auto simp: word_unat_eq_iff mod_Suc)
qed

lemma pit_tick_clock:
  assumes f: "f \<noteq> 0" and n: "Suc n < 4294967296"
  shows "pit_tick (clock_at f n) = Some (clock_at f (Suc n))"
proof -
  let ?t = "n div unat f" and ?s = "n div unat f mod 60" and ?m = "n div unat f div 60 mod 60"
  have uf: "0 < unat f" using f by (simp add: unat_gt_0)
  have "unat (of_nat (Suc n) :: u32) = Suc n" using n by (subst unat_of_nat_small) simp_all
  then have "unat ((of_nat (Suc n) :: u32) mod f) = Suc n mod unat f" by (simp only: unat_mod)
  then have tick: "(of_nat (Suc n) :: u32) mod f = 0 \<longleftrightarrow> Suc n mod unat f = 0"
    by (simp only: word_unat_eq_iff) simp
  have ticks: "of_nat n + 1 = (of_nat (Suc n) :: u32)" by simp
  have div: "Suc n div unat f = (if Suc n mod unat f = 0 then Suc ?t else ?t)" by (rule div_Suc)
  have s: "?s < 60" "?m < 60" by simp_all
  note ms = mod_60_step[OF s(1)] mod_60_step[OF s(2)]
  show ?thesis
  proof (cases "Suc n mod unat f = 0")
    case False
    then show ?thesis
      using f tick div by (simp add: pit_tick_def clock_at_def Let_def ticks del: of_nat_Suc)
  next
    case True
    have d60: "Suc ?t div 60 = (if ?s = 59 then Suc (?t div 60) else ?t div 60)"
      "Suc ?t mod 60 = (if ?s = 59 then 0 else Suc ?s)" by (auto simp: div_Suc mod_Suc)
    have d3600: "x div 3600 = x div 60 div 60" for x :: nat by (simp add: div_mult2_eq[symmetric])
    have m60: "Suc (?t div 60) div 60 = (if ?m = 59 then Suc (?t div 60 div 60) else ?t div 60 div 60)"
      "Suc (?t div 60) mod 60 = (if ?m = 59 then 0 else Suc ?m)" by (auto simp: div_Suc mod_Suc)
    have suc: "of_nat k + 1 = (of_nat (Suc k) :: u32)" for k by simp
    show ?thesis
    proof (cases "?s = 59")
      case False
      then show ?thesis using f tick True div d60 ms(1) unfolding pit_tick_def clock_at_def
        by (simp add: Let_def d3600 suc del: of_nat_Suc)
    next
      case second: True
      show ?thesis
      proof (cases "?m = 59")
        case False
        then show ?thesis using f tick True second div d60 m60 ms unfolding pit_tick_def clock_at_def
          by (simp add: Let_def d3600 suc del: of_nat_Suc)
      next
        case minute: True
        then show ?thesis using f tick True second div d60 m60 ms unfolding pit_tick_def clock_at_def
          by (simp add: Let_def d3600 suc del: of_nat_Suc)
      qed
    qed
  qed
qed

text \<open>
  C36: The clock is right. With a frequency of \<open>f\<close> Hz, after \<open>n\<close> timer interrupts it shows the hours, minutes and seconds
  of \<open>n div f\<close> elapsed seconds, as long as the tick counter has not wrapped around.
\<close>

theorem pit_clock_correct:
  assumes "f \<noteq> 0" and "n < 4294967296"
  shows "pit_run n (pit_start f) = Some (let t = n div unat f in
     \<lparr>pit_freq = f, pit_seconds = of_nat (t mod 60), pit_minutes = of_nat (t div 60 mod 60),
      pit_hours = of_nat (t div 3600), pit_ticks = of_nat n\<rparr>)"
proof -
  have "pit_run n (pit_start f) = Some (clock_at f n)" using assms(2)
  proof (induction n)
    case 0
    then show ?case by (simp add: pit_start_def clock_at_def)
  next
    case (Suc n)
    then show ?case using pit_tick_clock[OF assms(1) Suc.prems] by simp
  qed
  then show ?thesis by (simp only: clock_at_def)
qed

theorem pit_clock_correct_witness:
  "pit_run 183300 (pit_start 50) =
     Some \<lparr>pit_freq = 50, pit_seconds = 6, pit_minutes = 1, pit_hours = 1, pit_ticks = 183300\<rparr>"
  using pit_clock_correct[of 50 183300] by simp

subsection \<open>Waiting\<close>

definition MS_TO_TICKS :: "u32 \<Rightarrow> u32 \<Rightarrow> u32" where
  "MS_TO_TICKS ms freq = freq * ms div 1000"

datatype timeout_state = PIT_INVALID | PIT_WAITING_UNTIL_OVERFLOW | PIT_WAITING_UNTIL_TIMEOUT | PIT_TIMED_OUT

record pit_timeout =
  wait_until :: u32
  state :: timeout_state

definition pit_make_timeout :: "u32 \<Rightarrow> pit \<Rightarrow> pit_timeout" where
  "pit_make_timeout ms s =
     \<lparr>wait_until = pit_ticks s + MS_TO_TICKS ms (pit_freq s), state = PIT_WAITING_UNTIL_OVERFLOW\<rparr>"

definition pit_timed_out :: "u32 \<Rightarrow> pit_timeout \<Rightarrow> int \<times> pit_timeout" where
  "pit_timed_out ticks t =
     (case state t of
        PIT_WAITING_UNTIL_OVERFLOW \<Rightarrow>
          (0, if \<not> wait_until t < ticks then t\<lparr>state := PIT_WAITING_UNTIL_TIMEOUT\<rparr> else t)
      | PIT_WAITING_UNTIL_TIMEOUT \<Rightarrow>
          if \<not> ticks < wait_until t then (1, t\<lparr>state := PIT_TIMED_OUT\<rparr>) else (0, t)
      | PIT_TIMED_OUT \<Rightarrow> (1, t)
      | PIT_INVALID \<Rightarrow> (- 1, t))"

text \<open>
  A timeout that is polled at the given tick counts, one after the other.
\<close>

definition poll :: "u32 list \<Rightarrow> pit_timeout \<Rightarrow> pit_timeout" where
  "poll ts t = fold (\<lambda>ticks t. snd (pit_timed_out ticks t)) ts t"

text \<open>
  \<^verbatim>\<open>pit_sleep\<close>: the two busy loops read the tick counter again and again. \<open>clock\<close> lists the values the
  counter has at the successive readings; the result is what is left of it after the loops, or
  \<open>None\<close> when the readings are used up while a loop is still waiting.
\<close>

definition spin :: "(u32 \<Rightarrow> bool) \<Rightarrow> u32 list \<Rightarrow> u32 list option" where
  "spin waiting clock = (case dropWhile waiting clock of [] \<Rightarrow> None | _ # rest \<Rightarrow> Some rest)"

definition pit_sleep :: "u32 \<Rightarrow> pit \<Rightarrow> u32 list \<Rightarrow> u32 list option" where
  "pit_sleep ms s clock =
     (let wait_until = pit_ticks s + MS_TO_TICKS ms (pit_freq s)
      in do { clock \<leftarrow> spin (\<lambda>ticks. wait_until < ticks) clock;
              spin (\<lambda>ticks. ticks < wait_until) clock })"

lemma poll_append: "poll (ts @ us) t = poll us (poll ts t)"
  by (simp add: poll_def)

lemma poll_Cons: "poll (a # ts) t = poll ts (snd (pit_timed_out a t))"
  by (simp add: poll_def)

lemma poll_waits_for_deadline:
  "state t = PIT_WAITING_UNTIL_TIMEOUT \<Longrightarrow> \<forall>x\<in>set ts. x < wait_until t \<Longrightarrow> poll ts t = t"
  by (induction ts) (auto simp: poll_def pit_timed_out_def)

lemma poll_waits_for_wrap:
  "state t = PIT_WAITING_UNTIL_OVERFLOW \<Longrightarrow> \<forall>x\<in>set ts. wait_until t < x \<Longrightarrow> poll ts t = t"
  by (induction ts) (auto simp: poll_def pit_timed_out_def)

text \<open>
  A timeout whose deadline does not wrap and that is polled at least once before it
  answers 0 at every poll before the deadline and 1 at the first poll from the deadline on.
\<close>

theorem pit_timed_out_at_deadline:
  fixes s :: pit and ts :: "u32 list" and late ms :: u32
  assumes "ts \<noteq> []" and "\<forall>x\<in>set ts. x < wait_until (pit_make_timeout ms s)"
    and "wait_until (pit_make_timeout ms s) \<le> late"
  shows "(\<forall>n < length ts. fst (pit_timed_out (ts ! n) (poll (take n ts) (pit_make_timeout ms s))) = 0) \<and>
    fst (pit_timed_out late (poll ts (pit_make_timeout ms s))) = 1"
proof -
  define t0 where "t0 = pit_make_timeout ms s"
  note early = assms(1) assms(2)[folded t0_def] and late = assms(3)[folded t0_def]
  have st: "state t0 = PIT_WAITING_UNTIL_OVERFLOW" by (simp add: t0_def pit_make_timeout_def)
  obtain a us where ts: "ts = a # us" using early(1) by (cases ts) auto
  let ?t = "t0\<lparr>state := PIT_WAITING_UNTIL_TIMEOUT\<rparr>"
  have "a < wait_until t0" using early(2) ts by simp
  then have a: "pit_timed_out a t0 = (0, ?t)" using st by (simp add: pit_timed_out_def)
  have run: "poll vs ?t = ?t" if "set vs \<subseteq> set us" for vs
    using early(2) ts that by (intro poll_waits_for_deadline) auto
  have "fst (pit_timed_out (ts ! n) (poll (take n ts) t0)) = 0" if "n < length ts" for n
  proof (cases n)
    case 0
    then show ?thesis using a ts by (simp add: poll_def)
  next
    case (Suc m)
    then have "poll (take n ts) t0 = ?t"
      using a ts run[of "take m us"] set_take_subset[of m us] by (simp add: poll_Cons)
    moreover have "ts ! n < wait_until t0" using early(2) that by simp
    ultimately show ?thesis by (simp add: pit_timed_out_def)
  qed
  moreover have "fst (pit_timed_out late (poll ts t0)) = 1"
    using a ts run[of us] late by (simp add: poll_Cons pit_timed_out_def)
  ultimately show ?thesis by (simp add: t0_def)
qed

theorem pit_timed_out_at_deadline_witness:
  "fst (pit_timed_out 18 (poll [12] (pit_make_timeout 1000 (pit_start 50)))) = 0 \<and>
   fst (pit_timed_out 60 (poll [12, 18] (pit_make_timeout 1000 (pit_start 50)))) = 1"
proof -
  let ?t = "pit_make_timeout 1000 (pit_start 50)"
  have "(\<forall>n < length [12, 18 :: u32]. fst (pit_timed_out ([12, 18] ! n) (poll (take n [12, 18]) ?t)) = 0) \<and>
     fst (pit_timed_out 60 (poll [12, 18] ?t)) = 1"
    by (rule pit_timed_out_at_deadline) (simp_all add: pit_make_timeout_def MS_TO_TICKS_def pit_start_def)
  then show ?thesis by (auto dest: spec[of _ 1])
qed

text \<open>
  A timeout whose first poll comes after its deadline does not expire: every
  poll answers 0 as long as the tick counter stays beyond the deadline, that is until it wraps around.
\<close>

theorem pit_timed_out_misses_deadline:
  assumes "\<forall>x\<in>set ts. wait_until (pit_make_timeout ms s) < x"
  shows "\<forall>n < length ts. fst (pit_timed_out (ts ! n) (poll (take n ts) (pit_make_timeout ms s))) = 0"
proof (intro allI impI)
  fix n assume "n < length ts"
  have st: "state (pit_make_timeout ms s) = PIT_WAITING_UNTIL_OVERFLOW" by (simp add: pit_make_timeout_def)
  have "poll (take n ts) (pit_make_timeout ms s) = pit_make_timeout ms s"
    using assms set_take_subset[of n ts] by (intro poll_waits_for_wrap[OF st]) auto
  then show "fst (pit_timed_out (ts ! n) (poll (take n ts) (pit_make_timeout ms s))) = 0"
    using st by (simp add: pit_timed_out_def)
qed

theorem pit_timed_out_misses_deadline_witness:
  "fst (pit_timed_out 1000000 (poll [51, 60] (pit_make_timeout 1000 (pit_start 50)))) = 0"
proof -
  let ?t = "pit_make_timeout 1000 (pit_start 50)"
  have "\<forall>n < length [51, 60, 1000000 :: u32]. fst (pit_timed_out ([51, 60, 1000000] ! n) (poll (take n [51, 60, 1000000]) ?t)) = 0"
    by (rule pit_timed_out_misses_deadline) (simp add: pit_make_timeout_def MS_TO_TICKS_def pit_start_def)
  then show ?thesis by (auto dest: spec[of _ 2])
qed

subsection \<open>The speaker\<close>

definition PIT_SPEAKER :: u16 where [simp]: "PIT_SPEAKER = 0x61"
definition MODE_SQUARE_WAVE :: u8 where [simp]: "MODE_SQUARE_WAVE = 3"
definition SPEAKER_ON :: u8 where [simp]: "SPEAKER_ON = 1"
definition SPEAKER_CHANNEL2 :: u8 where [simp]: "SPEAKER_CHANNEL2 = 2"

text \<open>\<open>gate\<close> is what \<^verbatim>\<open>inb(PIT_SPEAKER)\<close> reads.\<close>

definition speaker_on :: "u32 \<Rightarrow> u8 \<Rightarrow> (u16 \<times> u8) list" where
  "speaker_on freq gate =
     (let (ok, outs) = pit_init_channel 2 MODE_SQUARE_WAVE freq
      in if \<not> ok then [] else outs @ [(PIT_SPEAKER, gate OR SPEAKER_ON OR SPEAKER_CHANNEL2)])"

definition speaker_off :: "u8 \<Rightarrow> (u16 \<times> u8) list" where
  "speaker_off gate = [(PIT_SPEAKER, gate AND NOT (SPEAKER_ON OR SPEAKER_CHANNEL2))]"

lemma speaker_off_bits:
  "speaker_off gate = [(PIT_SPEAKER, v)] \<Longrightarrow> bit v k \<longleftrightarrow> bit gate k \<and> k \<noteq> 0 \<and> k \<noteq> 1"
proof -
  assume "speaker_off gate = [(PIT_SPEAKER, v)]"
  then have v: "v = gate AND NOT (mask 2)" by (auto simp: speaker_off_def mask_eq_exp_minus_1)
  have "k < 2 \<longleftrightarrow> k = 0 \<or> k = 1" by auto
  then show ?thesis unfolding v by (auto simp: bit_simps dest: bit_imp_le_length)
qed

end
