(* ===== verification/PS2.thy ===== *)
theory PS2
  imports Keyboard Mouse Timer
begin

unbundle bit_operations_syntax

text \<open>
  \<^verbatim>\<open>hardware/io/ps2.c\<close>: the polling protocol of the PS/2 controller, the initialisation of its devices
  and the interrupt handler that hands bytes to the keyboard and mouse drivers.
  The controller and the timer are hardware: \<open>ps2_hw\<close> collects what the driver can do with them, over an
  arbitrary type \<open>'w\<close> of hardware states. Reading or writing a port may change the hardware, and time
  passes with it, so the tick counter is a function of the hardware state. The polling loops may wait forever when
  the counter stands still; they are partial functions and not returning is \<open>None\<close>.
\<close>

record 'w ps2_hw =
  inb :: "u16 \<Rightarrow> 'w \<Rightarrow> u8 \<times> 'w"
  outb :: "u16 \<Rightarrow> u8 \<Rightarrow> 'w \<Rightarrow> 'w"
  ticks_now :: "'w \<Rightarrow> u32"
  timer_freq :: u32

definition PS2_DATA :: u16 where "PS2_DATA = 0x60"
definition PS2_CMD :: u16 where "PS2_CMD = 0x64"
definition PS2_TIMEOUT :: u32 where "PS2_TIMEOUT = 1000"

datatype ps2_port = PS2_ANY_PORT | PS2_PORT_1 | PS2_PORT_2
datatype ps2_error = PS2_NO_ERR | PS2_TIMEOUT_ERR | PS2_INVALID_PORT_ERR

text \<open>The commands and answers.\<close>

definition TEST_PS2 :: u8 where "TEST_PS2 = 0xAA"
definition READ_CONFIG :: u8 where "READ_CONFIG = 0x20"
definition WRITE_CONFIG :: u8 where "WRITE_CONFIG = 0x60"
definition DISABLE_PORT_1 :: u8 where "DISABLE_PORT_1 = 0xAD"
definition DISABLE_PORT_2 :: u8 where "DISABLE_PORT_2 = 0xA7"
definition ENABLE_PORT_1 :: u8 where "ENABLE_PORT_1 = 0xAE"
definition ENABLE_PORT_2 :: u8 where "ENABLE_PORT_2 = 0xA8"
definition TEST_PORT_1 :: u8 where "TEST_PORT_1 = 0xAB"
definition TEST_PORT_2 :: u8 where "TEST_PORT_2 = 0xA9"
definition SEND_TO_PORT_2 :: u8 where "SEND_TO_PORT_2 = 0xD4"
definition TEST_PS2_PASSED :: u8 where "TEST_PS2_PASSED = 0x55"
definition TEST_PORT_PASSED :: u8 where "TEST_PORT_PASSED = 0"
definition DEVICE_RESET :: u8 where "DEVICE_RESET = 0xFF"
definition DEVICE_ENABLE :: u8 where "DEVICE_ENABLE = 0xF4"
definition DEVICE_DISABLE :: u8 where "DEVICE_DISABLE = 0xF5"
definition DEVICE_ACK :: u8 where "DEVICE_ACK = 0xFA"
definition DEVICE_TEST_PASSED :: u8 where "DEVICE_TEST_PASSED = 0xAA"

definition PULSE_OUTPUT_LINES :: "bool \<Rightarrow> bool \<Rightarrow> bool \<Rightarrow> bool \<Rightarrow> u8" where
  "PULSE_OUTPUT_LINES b3 b2 b1 b0 =
     0xF0 + (if b3 then 0 else 8) + (if b2 then 0 else 4) + (if b1 then 0 else 2) + (if b0 then 0 else 1)"

subsection \<open>Polling\<close>

text \<open>\<^verbatim>\<open>ps2_status_t\<close>: bit 0 is \<^verbatim>\<open>outbuf_full\<close>, bit 1 \<^verbatim>\<open>inbuf_full\<close>, bit 5 \<^verbatim>\<open>outbuf_port2\<close>.\<close>

definition ps2_ready :: "'w ps2_hw \<Rightarrow> 'w \<Rightarrow> bool \<times> 'w" where
  "ps2_ready hw w = (let (status, w) = inb hw PS2_CMD w in (\<not> bit status 1, w))"

definition ps2_available :: "'w ps2_hw \<Rightarrow> ps2_port \<Rightarrow> 'w \<Rightarrow> bool \<times> 'w" where
  "ps2_available hw port w =
     (let (status, w) = inb hw PS2_CMD w
      in (case port of
            PS2_ANY_PORT \<Rightarrow> bit status 0
          | PS2_PORT_1 \<Rightarrow> bit status 0 \<and> \<not> bit status 5
          | PS2_PORT_2 \<Rightarrow> bit status 0 \<and> bit status 5, w))"

definition make_timeout :: "'w ps2_hw \<Rightarrow> 'w \<Rightarrow> pit_timeout" where
  "make_timeout hw w = pit_make_timeout PS2_TIMEOUT ((pit_start (timer_freq hw))\<lparr>pit_ticks := ticks_now hw w\<rparr>)"

definition timed_out :: "'w ps2_hw \<Rightarrow> 'w \<Rightarrow> pit_timeout \<Rightarrow> bool \<times> pit_timeout" where
  "timed_out hw w t = (let (r, t) = pit_timed_out (ticks_now hw w) t in (r \<noteq> 0, t))"

text \<open>The loop \<^verbatim>\<open>while (!test() && !pit_timed_out(&timeout))\<close> that reading and writing share.\<close>

partial_function (option) ps2_wait ::
  "'w ps2_hw \<Rightarrow> ('w \<Rightarrow> bool \<times> 'w) \<Rightarrow> pit_timeout \<Rightarrow> 'w \<Rightarrow> (pit_timeout \<times> 'w) option" where
  "ps2_wait hw test t w =
     (let (ok, w) = test w
      in if ok then Some (t, w)
         else let (late, t) = timed_out hw w t
              in if late then Some (t, w) else ps2_wait hw test t w)"

definition ps2_write :: "'w ps2_hw \<Rightarrow> u16 \<Rightarrow> u8 \<Rightarrow> 'w \<Rightarrow> (bool \<times> 'w) option" where
  "ps2_write hw io_port command w =
     do { (t, w) \<leftarrow> ps2_wait hw (ps2_ready hw) (make_timeout hw w) w;
          if fst (timed_out hw w t) then Some (False, w) else Some (True, outb hw io_port command w) }"

definition ps2_read :: "'w ps2_hw \<Rightarrow> ps2_port \<Rightarrow> 'w \<Rightarrow> (u8 \<times> ps2_error \<times> 'w) option" where
  "ps2_read hw port w =
     do { (t, w) \<leftarrow> ps2_wait hw (ps2_available hw port) (make_timeout hw w) w;
          if fst (timed_out hw w t) then Some (0, PS2_TIMEOUT_ERR, w)
          else let (d, w) = inb hw PS2_DATA w in Some (d, PS2_NO_ERR, w) }"

subsection \<open>State\<close>

record 'w ps2 =
  world :: 'w
  init_done :: bool
  port2_supported :: bool
  ps2_err :: ps2_error
  kb :: keyboard
  ms :: mouse

definition ps2_send :: "'w ps2_hw \<Rightarrow> u16 \<Rightarrow> u8 \<Rightarrow> 'w ps2 \<Rightarrow> 'w ps2 option" where
  "ps2_send hw io_port command s =
     do { (_, w) \<leftarrow> ps2_write hw io_port command (world s); Some (s\<lparr>world := w\<rparr>) }"

definition ps2_receive :: "'w ps2_hw \<Rightarrow> ps2_port \<Rightarrow> 'w ps2 \<Rightarrow> (u8 \<times> 'w ps2) option" where
  "ps2_receive hw port s =
     do { (d, e, w) \<leftarrow> ps2_read hw port (world s); Some (d, s\<lparr>world := w, ps2_err := e\<rparr>) }"

definition ps2_read_config :: "'w ps2_hw \<Rightarrow> 'w ps2 \<Rightarrow> (u8 \<times> 'w ps2) option" where
  "ps2_read_config hw s = do { s \<leftarrow> ps2_send hw PS2_CMD READ_CONFIG s; ps2_receive hw PS2_ANY_PORT s }"

definition ps2_write_config :: "'w ps2_hw \<Rightarrow> u8 \<Rightarrow> 'w ps2 \<Rightarrow> 'w ps2 option" where
  "ps2_write_config hw config s =
     do { s \<leftarrow> ps2_send hw PS2_CMD WRITE_CONFIG s; ps2_send hw PS2_DATA config s }"

definition ps2_test :: "'w ps2_hw \<Rightarrow> u8 \<Rightarrow> u8 \<Rightarrow> 'w ps2 \<Rightarrow> (bool \<times> 'w ps2) option" where
  "ps2_test hw test_command expected_result s =
     do { s \<leftarrow> ps2_send hw PS2_CMD test_command s;
          (res, s) \<leftarrow> ps2_receive hw PS2_ANY_PORT s;
          Some (res = expected_result, s) }"

definition ps2_valid_port :: "'w ps2 \<Rightarrow> ps2_port \<Rightarrow> bool" where
  "ps2_valid_port s port \<longleftrightarrow>
     \<not> (port \<noteq> PS2_PORT_1 \<and> port \<noteq> PS2_PORT_2 \<or> port = PS2_PORT_2 \<and> \<not> port2_supported s)"

partial_function (option) ps2_flush :: "'w ps2_hw \<Rightarrow> 'w ps2 \<Rightarrow> 'w ps2 option" where
  "ps2_flush hw s =
     (let (full, w) = ps2_available hw PS2_ANY_PORT (world s); s = s\<lparr>world := w\<rparr>
      in if \<not> full then Some s
         else Option.bind (ps2_receive hw PS2_ANY_PORT s) (\<lambda>(d, s). ps2_flush hw s))"

definition ps2_write_device_no_ack :: "'w ps2_hw \<Rightarrow> ps2_port \<Rightarrow> u8 \<Rightarrow> 'w ps2 \<Rightarrow> (bool \<times> 'w ps2) option" where
  "ps2_write_device_no_ack hw port command s =
     (if \<not> ps2_valid_port s port then Some (False, s)
      else do {
        s \<leftarrow> (if port = PS2_PORT_2 then ps2_send hw PS2_CMD SEND_TO_PORT_2 s else Some s);
        s \<leftarrow> ps2_send hw PS2_DATA command s;
        Some (True, s) })"

definition ps2_read_device :: "'w ps2_hw \<Rightarrow> ps2_port \<Rightarrow> 'w ps2 \<Rightarrow> (u8 \<times> 'w ps2) option" where
  "ps2_read_device hw port s =
     (if \<not> ps2_valid_port s port then Some (0, s\<lparr>ps2_err := PS2_INVALID_PORT_ERR\<rparr>)
      else ps2_receive hw port s)"

definition ps2_write_device :: "'w ps2_hw \<Rightarrow> ps2_port \<Rightarrow> u8 \<Rightarrow> 'w ps2 \<Rightarrow> (bool \<times> 'w ps2) option" where
  "ps2_write_device hw port command s =
     do { (ok, s) \<leftarrow> ps2_write_device_no_ack hw port command s;
          if \<not> ok then Some (False, s)
          else do { (d, s) \<leftarrow> ps2_read_device hw port s; Some (d = DEVICE_ACK, s) } }"

partial_function (option) ps2_reset_wait ::
  "'w ps2_hw \<Rightarrow> ps2_port \<Rightarrow> pit_timeout \<Rightarrow> 'w ps2 \<Rightarrow> (pit_timeout \<times> 'w ps2) option" where
  "ps2_reset_wait hw port t s =
     Option.bind (ps2_read_device hw port s) (\<lambda>(d, s).
       if d = DEVICE_TEST_PASSED then Some (t, s)
       else let (late, t) = timed_out hw (world s) t
            in if late then Some (t, s) else ps2_reset_wait hw port t s)"

definition ps2_reset_device :: "'w ps2_hw \<Rightarrow> ps2_port \<Rightarrow> 'w ps2 \<Rightarrow> (bool \<times> 'w ps2) option" where
  "ps2_reset_device hw port s =
     do { (_, s) \<leftarrow> ps2_write_device_no_ack hw port DEVICE_RESET s;
          (t, s) \<leftarrow> ps2_reset_wait hw port (make_timeout hw (world s)) s;
          Some (\<not> fst (timed_out hw (world s) t), s) }"

subsection \<open>Initialisation\<close>

text \<open>
  \<^verbatim>\<open>ps2_config_t\<close>: bits 0 and 1 are \<^verbatim>\<open>port1_intr\<close> and \<^verbatim>\<open>port2_intr\<close>, bit 5 \<^verbatim>\<open>port2_clock\<close>, bit 6 \<^verbatim>\<open>port1_transl\<close>.
\<close>

definition config_bit :: "nat \<Rightarrow> bool \<Rightarrow> u8 \<Rightarrow> u8" where
  "config_bit n b c = (if b then c OR pow2 n else c AND NOT (pow2 n))"

definition ps2_when :: "bool \<Rightarrow> ('w ps2 \<Rightarrow> 'w ps2 option) \<Rightarrow> 'w ps2 \<Rightarrow> 'w ps2 option" where
  "ps2_when c f s = (if c then f s else Some s)"

definition ps2_init_controller :: "'w ps2_hw \<Rightarrow> 'w ps2 \<Rightarrow> 'w ps2 option" where
  "ps2_init_controller hw s =
     do { s \<leftarrow> ps2_send hw PS2_CMD DISABLE_PORT_1 s;
          s \<leftarrow> ps2_send hw PS2_CMD DISABLE_PORT_2 s;
          s \<leftarrow> ps2_flush hw s;
          (config, s) \<leftarrow> ps2_read_config hw s;
          let s = (if \<not> bit config 5 then s\<lparr>port2_supported := False\<rparr> else s);
          s \<leftarrow> ps2_write_config hw (config_bit 0 False (config_bit 1 False (config_bit 6 False config))) s;
          (_, s) \<leftarrow> ps2_test hw TEST_PS2 TEST_PS2_PASSED s;
          s \<leftarrow> (if port2_supported s then do {
                  s \<leftarrow> ps2_send hw PS2_CMD ENABLE_PORT_2 s;
                  (config, s) \<leftarrow> ps2_read_config hw s;
                  if bit config 5 then Some (s\<lparr>port2_supported := False\<rparr>)
                  else ps2_send hw PS2_CMD DISABLE_PORT_2 s }
                else Some s);
          (_, s) \<leftarrow> ps2_test hw TEST_PORT_1 TEST_PORT_PASSED s;
          s \<leftarrow> ps2_when (port2_supported s) (\<lambda>s. map_option snd (ps2_test hw TEST_PORT_2 TEST_PORT_PASSED s)) s;
          s \<leftarrow> ps2_send hw PS2_CMD ENABLE_PORT_1 s;
          s \<leftarrow> ps2_when (port2_supported s) (ps2_send hw PS2_CMD ENABLE_PORT_2) s;
          (config, s) \<leftarrow> ps2_read_config hw s;
          ps2_write_config hw
            ((if port2_supported s then config_bit 1 True else id) (config_bit 0 True config)) s }"

text \<open>The device bytes a driver emits are sent one after the other.\<close>

primrec ps2_write_all :: "'w ps2_hw \<Rightarrow> ps2_port \<Rightarrow> u8 list \<Rightarrow> 'w ps2 \<Rightarrow> 'w ps2 option" where
  "ps2_write_all hw port [] s = Some s"
| "ps2_write_all hw port (b # bs) s =
     do { (_, s) \<leftarrow> ps2_write_device hw port b s; ps2_write_all hw port bs s }"

definition ps2_keyboard_init :: "'w ps2_hw \<Rightarrow> 'w ps2 \<Rightarrow> 'w ps2 option" where
  "ps2_keyboard_init hw s =
     (let k = keyboard_leds LED_ALL 0 (kb s); outs = drop (length (device_out (kb s))) (device_out k)
      in do { s \<leftarrow> ps2_write_all hw PS2_PORT_1 outs (s\<lparr>kb := k\<rparr>);
              let (_, outs, _) = keyboard_scancode_set 2 0 0;
              s \<leftarrow> ps2_write_all hw PS2_PORT_1 outs (s\<lparr>kb := (kb s)\<lparr>device_out := device_out (kb s) @ outs\<rparr>\<rparr>);
              (config, s) \<leftarrow> ps2_read_config hw s;
              let (_, _, config) = keyboard_scancode_set 2 0 config;
              ps2_write_config hw config s })"

definition ps2_mouse_init :: "'w ps2_hw \<Rightarrow> 'w ps2 \<Rightarrow> 'w ps2 option" where
  "ps2_mouse_init hw s = ps2_write_all hw PS2_PORT_2 (mouse_init (0, 0, 0)) s"

definition ps2_init_devices :: "'w ps2_hw \<Rightarrow> 'w ps2 \<Rightarrow> 'w ps2 option" where
  "ps2_init_devices hw s =
     do { (_, s) \<leftarrow> ps2_reset_device hw PS2_PORT_1 s;
          s \<leftarrow> ps2_when (port2_supported s) (\<lambda>s. map_option snd (ps2_reset_device hw PS2_PORT_2 s)) s;
          s \<leftarrow> ps2_flush hw s;
          (_, s) \<leftarrow> ps2_write_device hw PS2_PORT_1 DEVICE_DISABLE s;
          s \<leftarrow> ps2_flush hw s;
          s \<leftarrow> ps2_when (port2_supported s) (\<lambda>s. map_option snd (ps2_write_device hw PS2_PORT_2 DEVICE_DISABLE s)) s;
          s \<leftarrow> ps2_flush hw s;
          s \<leftarrow> ps2_keyboard_init hw s;
          s \<leftarrow> ps2_when (port2_supported s) (ps2_mouse_init hw) s;
          (_, s) \<leftarrow> ps2_write_device hw PS2_PORT_1 DEVICE_ENABLE s;
          s \<leftarrow> ps2_when (port2_supported s) (\<lambda>s. map_option snd (ps2_write_device hw PS2_PORT_2 DEVICE_ENABLE s)) s;
          ps2_flush hw (s\<lparr>init_done := True\<rparr>) }"

definition ps2_init :: "'w ps2_hw \<Rightarrow> 'w ps2 \<Rightarrow> 'w ps2 option" where
  "ps2_init hw s = do { s \<leftarrow> ps2_init_controller hw s; ps2_init_devices hw s }"

definition ps2_reboot :: "'w ps2_hw \<Rightarrow> 'w ps2 \<Rightarrow> 'w ps2 option" where
  "ps2_reboot hw s = ps2_send hw PS2_CMD (PULSE_OUTPUT_LINES False False False True) s"

subsection \<open>Interrupts\<close>

definition IRQ_KEYBOARD :: u32 where [simp]: "IRQ_KEYBOARD = 0x21"
definition IRQ_MOUSE :: u32 where [simp]: "IRQ_MOUSE = 0x2C"

text \<open>A byte for the keyboard driver; the commands for the lights that it emits go to port 1.\<close>

definition ps2_keyboard_data :: "'w ps2_hw \<Rightarrow> u8 \<Rightarrow> 'w ps2 \<Rightarrow> 'w ps2 option" where
  "ps2_keyboard_data hw data s =
     do { k \<leftarrow> keyboard_handle_data data (kb s);
          ps2_write_all hw PS2_PORT_1 (drop (length (device_out (kb s))) (device_out k)) (s\<lparr>kb := k\<rparr>) }"

definition ps2_handle_interrupt :: "'w ps2_hw \<Rightarrow> u32 \<Rightarrow> 'w ps2 \<Rightarrow> 'w ps2 option" where
  "ps2_handle_interrupt hw intr s =
     (if \<not> init_done s then Some s
      else if intr = IRQ_MOUSE \<and> \<not> port2_supported s then Some s
      else let (data, w) = inb hw PS2_DATA (world s); s = s\<lparr>world := w\<rparr>
           in if data = DEVICE_ACK then Some s
              else if intr = IRQ_KEYBOARD then ps2_keyboard_data hw data s
              else if intr = IRQ_MOUSE then map_option (\<lambda>m. s\<lparr>ms := m\<rparr>) (mouse_handle_data data (ms s))
              else Some s)"

subsection \<open>Polling, step by step\<close>

text \<open>
  \<open>ps2_polls hw test deadline w w'\<close>: starting in \<open>w\<close>, the test fails some number of times before the tick
  counter has reached the deadline, which leads to \<open>w'\<close>.
\<close>

inductive ps2_polls :: "'w ps2_hw \<Rightarrow> ('w \<Rightarrow> bool \<times> 'w) \<Rightarrow> u32 \<Rightarrow> 'w \<Rightarrow> 'w \<Rightarrow> bool" for hw test deadline where
  polls_refl: "ps2_polls hw test deadline w w"
| polls_step: "test w = (False, w1) \<Longrightarrow> ticks_now hw w1 < deadline \<Longrightarrow> ps2_polls hw test deadline w1 w2 \<Longrightarrow>
    ps2_polls hw test deadline w w2"

inductive_cases ps2_polls_stepE: "ps2_polls hw test deadline w w'"

lemma ps2_wait_ok: "test w = (True, w1) \<Longrightarrow> ps2_wait hw test t w = Some (t, w1)"
  by (subst ps2_wait.simps) simp

lemma ps2_wait_poll:
  "test w = (False, w1) \<Longrightarrow> timed_out hw w1 t = (False, t1) \<Longrightarrow> ps2_wait hw test t w = ps2_wait hw test t1 w1"
  by (subst ps2_wait.simps) simp

lemma ps2_wait_late:
  "test w = (False, w1) \<Longrightarrow> timed_out hw w1 t = (True, t1) \<Longrightarrow> ps2_wait hw test t w = Some (t1, w1)"
  by (subst ps2_wait.simps) simp

lemma timed_out_before:
  assumes "ticks_now hw w < wait_until t" "state t = PIT_WAITING_UNTIL_OVERFLOW \<or> state t = PIT_WAITING_UNTIL_TIMEOUT"
  shows "timed_out hw w t = (False, t\<lparr>state := PIT_WAITING_UNTIL_TIMEOUT\<rparr>)"
  using assms by (auto simp: timed_out_def pit_timed_out_def Let_def)

lemma timed_out_after:
  assumes "wait_until t \<le> ticks_now hw w" "state t = PIT_WAITING_UNTIL_TIMEOUT"
  shows "timed_out hw w t = (True, t\<lparr>state := PIT_TIMED_OUT\<rparr>)"
  using assms by (auto simp: timed_out_def pit_timed_out_def Let_def)

lemma timed_out_stays: "state t = PIT_TIMED_OUT \<Longrightarrow> timed_out hw w t = (True, t)"
  by (simp add: timed_out_def pit_timed_out_def)

text \<open>Failing tests before the deadline do not end the loop; afterwards the timeout is waiting for the deadline, unless there were none.\<close>

lemma ps2_wait_polls:
  assumes "ps2_polls hw test deadline w w'" "wait_until t = deadline"
    "state t = PIT_WAITING_UNTIL_OVERFLOW \<or> state t = PIT_WAITING_UNTIL_TIMEOUT"
  shows "\<exists>t'. ps2_wait hw test t w = ps2_wait hw test t' w' \<and> wait_until t' = wait_until t \<and>
    (state t' = PIT_WAITING_UNTIL_TIMEOUT \<or> w' = w \<and> state t' = state t)"
  using assms
proof (induction arbitrary: t rule: ps2_polls.induct)
  case (polls_refl w)
  then show ?case by blast
next
  case (polls_step w w1 w2)
  let ?t = "t\<lparr>state := PIT_WAITING_UNTIL_TIMEOUT\<rparr>"
  have "ps2_wait hw test t w = ps2_wait hw test ?t w1"
    using polls_step timed_out_before[of hw w1 t] by (intro ps2_wait_poll) auto
  moreover obtain t' where "ps2_wait hw test ?t w1 = ps2_wait hw test t' w2" "wait_until t' = wait_until ?t"
    "state t' = PIT_WAITING_UNTIL_TIMEOUT"
    using polls_step.IH[of ?t] polls_step.prems by auto
  ultimately show ?case by auto
qed

abbreviation ps2_deadline :: "'w ps2_hw \<Rightarrow> 'w \<Rightarrow> u32" where
  "ps2_deadline hw w \<equiv> wait_until (make_timeout hw w)"

lemma make_timeout_state: "state (make_timeout hw w) = PIT_WAITING_UNTIL_OVERFLOW"
  by (simp add: make_timeout_def pit_make_timeout_def)

lemma ps2_wait_ready:
  assumes "ps2_polls hw test (ps2_deadline hw w) w w'" "test w' = (True, w1)" "ticks_now hw w1 < ps2_deadline hw w"
  shows "\<exists>t. ps2_wait hw test (make_timeout hw w) w = Some (t, w1) \<and> \<not> fst (timed_out hw w1 t)"
proof -
  obtain t where t: "ps2_wait hw test (make_timeout hw w) w = ps2_wait hw test t w'" "wait_until t = ps2_deadline hw w"
    "state t = PIT_WAITING_UNTIL_OVERFLOW \<or> state t = PIT_WAITING_UNTIL_TIMEOUT"
    using ps2_wait_polls[OF assms(1) refl] make_timeout_state[of hw w] by auto
  have "timed_out hw w1 t = (False, t\<lparr>state := PIT_WAITING_UNTIL_TIMEOUT\<rparr>)"
    using t(2,3) assms(3) by (intro timed_out_before) simp_all
  then show ?thesis using t(1) ps2_wait_ok[of test, OF assms(2)] by auto
qed

lemma ps2_wait_times_out:
  assumes "test w = (False, w0)" "ticks_now hw w0 < ps2_deadline hw w" "ps2_polls hw test (ps2_deadline hw w) w0 w'"
    "test w' = (False, w1)" "ps2_deadline hw w \<le> ticks_now hw w1"
  shows "\<exists>t. ps2_wait hw test (make_timeout hw w) w = Some (t, w1) \<and> fst (timed_out hw w1 t)"
proof -
  let ?t = "(make_timeout hw w)\<lparr>state := PIT_WAITING_UNTIL_TIMEOUT\<rparr>"
  have "ps2_wait hw test (make_timeout hw w) w = ps2_wait hw test ?t w0"
    using assms(1,2) make_timeout_state[of hw w] by (intro ps2_wait_poll timed_out_before) simp_all
  moreover obtain t where t: "ps2_wait hw test ?t w0 = ps2_wait hw test t w'" "wait_until t = ps2_deadline hw w"
    "state t = PIT_WAITING_UNTIL_TIMEOUT"
    using ps2_wait_polls[OF assms(3), of ?t] by auto
  moreover have "ps2_wait hw test t w' = Some (t\<lparr>state := PIT_TIMED_OUT\<rparr>, w1)"
    using assms(4,5) t(2,3) by (intro ps2_wait_late timed_out_after) simp_all
  ultimately show ?thesis using timed_out_stays[of "t\<lparr>state := PIT_TIMED_OUT\<rparr>" hw w1] by auto
qed


text \<open>A controller that is busy for three tests: the hardware state counts the accesses, a tick each.\<close>

definition example_hw :: "nat ps2_hw" where
  "example_hw = \<lparr>inb = (\<lambda>port n. (if n < 3 then 0x02 else 0x01, Suc n)), outb = (\<lambda>port v n. Suc n),
     ticks_now = of_nat, timer_freq = 50\<rparr>"


subsection \<open>The interrupt handler\<close>

lemma ps2_write_all_keeps:
  "ps2_write_all hw port bs s = Some t \<Longrightarrow> kb t = kb s \<and> ms t = ms s \<and> init_done t = init_done s \<and>
   port2_supported t = port2_supported s"
proof (induction bs arbitrary: s)
  case (Cons b bs)
  then obtain ok u where u: "ps2_write_device hw port b s = Some (ok, u)" "ps2_write_all hw port bs u = Some t"
    by (auto split: bind_splits)
  have "kb u = kb s \<and> ms u = ms s \<and> init_done u = init_done s \<and> port2_supported u = port2_supported s"
    using u(1) by (auto simp: ps2_write_device_def ps2_write_device_no_ack_def ps2_read_device_def ps2_receive_def
        ps2_send_def split: bind_splits if_splits)
  then show ?case using Cons.IH[OF u(2)] by simp
qed simp

text \<open>
  C24: Interrupts keep both drivers in good states and reach only the driver of the line that fired:
  whatever the hardware delivers, an interrupt that is handled leaves the keyboard and the mouse driver within their
  invariants, IRQ 12 does not touch the keyboard driver and IRQ 1 not the mouse driver.
\<close>

theorem ps2_interrupts_keep_drivers:
  assumes "kb_ok (kb s)" "mouse_inv (ms s)" "ps2_handle_interrupt hw intr s = Some t"
  shows "kb_ok (kb t) \<and> mouse_inv (ms t) \<and> (intr \<noteq> IRQ_KEYBOARD \<longrightarrow> kb t = kb s) \<and> (intr \<noteq> IRQ_MOUSE \<longrightarrow> ms t = ms s)"
proof -
  obtain d w where dw: "inb hw PS2_DATA (world s) = (d, w)" by force
  obtain k where k: "keyboard_handle_data d (kb s) = Some k" "kb_ok k"
    using modifiers.step_inv[OF assms(1), of d] by blast
  obtain m where m: "mouse_handle_data d (ms s) = Some m" "mouse_inv m"
    using packets.step_inv[OF assms(2), of d] by blast
  show ?thesis
    using assms dw k m
    by (auto simp: ps2_handle_interrupt_def ps2_keyboard_data_def Let_def dest!: ps2_write_all_keeps split: if_splits)
qed

definition example_ps2 :: "nat ps2" where
  "example_ps2 = \<lparr>world = 3, init_done = True, port2_supported = True, ps2_err = PS2_NO_ERR,
     kb = keyboard_boot 0 0 False, ms = mouse_start False\<rparr>"

theorem ps2_interrupts_keep_drivers_witness:
  "\<exists>t. ps2_handle_interrupt example_hw IRQ_MOUSE example_ps2 = Some t \<and> mouse_inv (ms t) \<and> kb t = kb example_ps2"
proof -
  have ok: "kb_ok (kb example_ps2)" "mouse_inv (ms example_ps2)"
    by (simp_all add: example_ps2_def keyboard_boot_ok mouse_start_inv)
  obtain m where m: "mouse_handle_data 1 (ms example_ps2) = Some m" using packets.step_inv[OF ok(2)] by blast
  have "ps2_handle_interrupt example_hw IRQ_MOUSE example_ps2 = Some (example_ps2\<lparr>world := 4, ms := m\<rparr>)"
    using m by (simp add: ps2_handle_interrupt_def example_ps2_def example_hw_def DEVICE_ACK_def)
  then show ?thesis using ps2_interrupts_keep_drivers[OF ok, of example_hw IRQ_MOUSE] by auto
qed

text \<open>
  A data byte \<open>0xFA\<close> is taken for an acknowledgement even when it belongs to a mouse packet. A packet
  whose horizontal movement byte is \<open>0xFA\<close> (6 to the left) is lost, and the driver ends two bytes into a packet:
  it is out of step with the mouse, and its next packet starts with the third byte of this one.
\<close>

theorem ps2_movement_byte_taken_for_ack:
  assumes "init_done s" "port2_supported s" "mouse_inv (ms s)" "packet_len (ms s) = 0" "bit fl 3"
    and "inb hw PS2_DATA (world s) = (fl, w1)" "fl \<noteq> DEVICE_ACK" "inb hw PS2_DATA w1 = (0xFA, w2)"
    and "inb hw PS2_DATA w2 = (dy, w3)" "dy \<noteq> DEVICE_ACK"
  shows "\<exists>t. run (\<lambda>intr. ps2_handle_interrupt hw intr) [IRQ_MOUSE, IRQ_MOUSE, IRQ_MOUSE] s = Some t \<and>
    packet_len (ms t) = 2 \<and> take 2 (packet_buf (ms t)) = [fl, dy] \<and> mouse_event (ms t) = mouse_event (ms s)"
proof -
  obtain a b c where buf: "packet_buf (ms s) = [a, b, c]"
  proof -
    have "length (packet_buf (ms s)) = 3" using assms(3) by (simp add: mouse_inv_def)
    then show thesis using that by (auto simp: numeral_3_eq_3 length_Suc_conv)
  qed
  have "bit (fl AND FLAG_ALWAYS_ONE) 3" using assms(5) by (simp add: FLAG_ALWAYS_ONE_def bit_and_iff)
  then have fl: "fl AND FLAG_ALWAYS_ONE \<noteq> 0" by force
  have 1: "mouse_handle_data fl (ms s) = Some ((ms s)\<lparr>packet_buf := [fl, b, c], packet_len := 1\<rparr>)"
    using assms(4) buf fl by (simp add: mouse_handle_data_def Let_def)
  have 2: "mouse_handle_data dy ((ms s)\<lparr>packet_buf := [fl, b, c], packet_len := 1\<rparr>) =
      Some ((ms s)\<lparr>packet_buf := [fl, dy, c], packet_len := 2\<rparr>)"
    by (simp add: mouse_handle_data_def Let_def)
  show ?thesis
    using assms(1,2,6-10) 1 2 by (simp add: ps2_handle_interrupt_def Let_def DEVICE_ACK_def)
qed

theorem ps2_movement_byte_taken_for_ack_witness:
  "\<exists>t. run (\<lambda>intr. ps2_handle_interrupt
        (example_hw\<lparr>inb := \<lambda>port n. (if n = 0 then 0x18 else if n = 1 then 0xFA else 5, Suc n)\<rparr>) intr)
      [IRQ_MOUSE, IRQ_MOUSE, IRQ_MOUSE] (example_ps2\<lparr>world := 0\<rparr>) = Some t \<and> packet_len (ms t) = 2"
proof -
  let ?hw = "example_hw\<lparr>inb := \<lambda>port n. (if n = 0 then 0x18 else if n = 1 then 0xFA else 5, Suc n)\<rparr>"
  have "\<exists>t. run (\<lambda>intr. ps2_handle_interrupt ?hw intr) [IRQ_MOUSE, IRQ_MOUSE, IRQ_MOUSE] (example_ps2\<lparr>world := 0\<rparr>) = Some t \<and>
    packet_len (ms t) = 2 \<and> take 2 (packet_buf (ms t)) = [0x18, 5] \<and> mouse_event (ms t) = mouse_event (ms (example_ps2\<lparr>world := 0\<rparr>))"
    by (rule ps2_movement_byte_taken_for_ack[where ?w1.0 = 1 and ?w2.0 = 2 and ?w3.0 = 3])
       (simp_all add: example_ps2_def mouse_start_inv DEVICE_ACK_def)
  then show ?thesis by blast
qed

end
