(* ===== verification/Multiboot.thy ===== *)
theory Multiboot
  imports VMM_Refine Bytes
begin

unbundle bit_operations_syntax

text \<open>
  \<^verbatim>\<open>boot/multiboot.c\<close> and the initialisation of the frame allocator in \<^verbatim>\<open>mem/pmm.c\<close>: the boot loader's structures are read
  byte by byte from physical memory, as paging is still off. The memory map marks the free frames; then the
  structures and the modules are copied into frames of the kernel. The messages are left out. A walk that does not end or an access that
  fails is \<open>None\<close>.
\<close>

subsection \<open>boot/multiboot.h\<close>

definition MULTIBOOT_BOOTLOADER_MAGIC :: u32 where "MULTIBOOT_BOOTLOADER_MAGIC = 0x2BADB002"
definition MULTIBOOT_LOWER_MEMORY :: u32 where [simp]: "MULTIBOOT_LOWER_MEMORY = 0x100000"
definition MULTIBOOT_FIRST_PAGE_TABLE :: u32 where "MULTIBOOT_FIRST_PAGE_TABLE = 0x400000"

text \<open>The sizes of the structures and the offsets of the fields that the code reads.\<close>

definition MB_INFO_SIZE :: u32 where "MB_INFO_SIZE = 96"
definition MB_MODULE_SIZE :: u32 where "MB_MODULE_SIZE = 16"

definition mb_flags_mods :: "'a mm_scheme \<Rightarrow> ptr \<Rightarrow> bool option" where
  "mb_flags_mods s mb = map_option (\<lambda>f. bit f 3) (load32 s mb)"

definition mb_flags_mmap :: "'a mm_scheme \<Rightarrow> ptr \<Rightarrow> bool option" where
  "mb_flags_mmap s mb = map_option (\<lambda>f. bit f 6) (load32 s mb)"

definition mods_count :: "'a mm_scheme \<Rightarrow> ptr \<Rightarrow> u32 option" where "mods_count s mb = load32 s (mb + 20)"
definition mods_addr :: "'a mm_scheme \<Rightarrow> ptr \<Rightarrow> ptr option" where "mods_addr s mb = load32 s (mb + 24)"
definition mmap_length :: "'a mm_scheme \<Rightarrow> ptr \<Rightarrow> u32 option" where "mmap_length s mb = load32 s (mb + 44)"
definition mmap_addr :: "'a mm_scheme \<Rightarrow> ptr \<Rightarrow> ptr option" where "mmap_addr s mb = load32 s (mb + 48)"

definition mod_start :: "'a mm_scheme \<Rightarrow> ptr \<Rightarrow> ptr option" where "mod_start s m = load32 s m"
definition mod_end :: "'a mm_scheme \<Rightarrow> ptr \<Rightarrow> ptr option" where "mod_end s m = load32 s (m + 4)"
definition mod_string :: "'a mm_scheme \<Rightarrow> ptr \<Rightarrow> ptr option" where "mod_string s m = load32 s (m + 8)"

definition store32 :: "ptr \<Rightarrow> u32 \<Rightarrow> 'a mm_scheme \<Rightarrow> 'a mm_scheme option" where
  "store32 a v s = do { s \<leftarrow> store16 a (ucast v) s; store16 (a + 2) (ucast (drop_bit 16 v)) s }"

subsection \<open>boot/multiboot.c\<close>

text \<open>
  The static pointer \<^verbatim>\<open>mb_info\<close> is the argument \<open>mb\<close>. \<^verbatim>\<open>multiboot_init\<close> sets it before it looks at the magic
  number; the second result tells whether the number was right.
\<close>

definition multiboot_init :: "ptr \<Rightarrow> u32 \<Rightarrow> ptr \<times> bool" where
  "multiboot_init mb magic = (mb, magic = MULTIBOOT_BOOTLOADER_MAGIC)"

partial_function (option) get_module_loop :: "ptr \<Rightarrow> ptr \<Rightarrow> u32 \<Rightarrow> 'a mm_scheme \<Rightarrow> ptr option" where
  "get_module_loop str mb i s =
     Option.bind (mods_count s mb) (\<lambda>n.
       if i < n then
         Option.bind (mods_addr s mb) (\<lambda>a.
           let m = a + i * MB_MODULE_SIZE
           in Option.bind (mod_string s m) (\<lambda>name.
             Option.bind (strcmp s str name) (\<lambda>c.
               if c = 0 then mod_start s m else get_module_loop str mb (i + 1) s)))
       else Some 0)"

definition multiboot_get_module :: "ptr \<Rightarrow> ptr \<Rightarrow> 'a mm_scheme \<Rightarrow> ptr option" where
  "multiboot_get_module str mb s =
     (if mb = 0 then Some 0
      else do { mods \<leftarrow> mb_flags_mods s mb; if mods then get_module_loop str mb 0 s else Some 0 })"

text \<open>The walk along the memory map; an entry of size \<open>- 4\<close> makes it stand still.\<close>

partial_function (option) free_memory_loop :: "ptr \<Rightarrow> ptr \<Rightarrow> 'a mm_scheme \<Rightarrow> 'a mm_scheme option" where
  "free_memory_loop mmap mmap_end s =
     (if mmap < mmap_end then
        Option.bind (load32 s (mmap + 4)) (\<lambda>base_addr_low.
        Option.bind (load32 s (mmap + 12)) (\<lambda>length_low.
        Option.bind (load32 s (mmap + 20)) (\<lambda>type.
          let t = pmm_use base_addr_low length_low (if type = 1 then PMM_UNUSED else PMM_RESERVED) s
          in Option.bind (load32 t mmap) (\<lambda>size. free_memory_loop (mmap + (size + 4)) mmap_end t))))
      else Some s)"

definition multiboot_free_memory :: "ptr \<Rightarrow> 'a mm_scheme \<Rightarrow> (bool \<times> 'a mm_scheme) option" where
  "multiboot_free_memory mb s =
     (if mb = 0 then Some (False, s)
      else do {
        mmap \<leftarrow> mb_flags_mmap s mb;
        if \<not> mmap then Some (False, s)
        else do {
          a \<leftarrow> mmap_addr s mb;
          len \<leftarrow> mmap_length s mb;
          s \<leftarrow> free_memory_loop a (a + len) s;
          Some (True, s) } })"

definition copy_module :: "ptr \<Rightarrow> 'a mm_scheme \<Rightarrow> 'a mm_scheme option" where
  "copy_module m s =
     do { beg \<leftarrow> mod_start s m;
          fin \<leftarrow> mod_end s m;
          let module_length = fin - beg + 1;
          name \<leftarrow> mod_string s m;
          n \<leftarrow> strlen s name;
          let string_length = n + 1;
          let (dst, s) = pmm_alloc (module_length + string_length) PMM_KERNEL s;
          s \<leftarrow> memcpy dst beg module_length s;
          s \<leftarrow> store32 m dst s;
          name \<leftarrow> mod_string s m;
          s \<leftarrow> memcpy (dst + module_length) name string_length s;
          store32 (m + 8) (dst + module_length) s }"

partial_function (option) copy_modules_loop :: "ptr \<Rightarrow> u32 \<Rightarrow> 'a mm_scheme \<Rightarrow> 'a mm_scheme option" where
  "copy_modules_loop mb i s =
     Option.bind (mods_count s mb) (\<lambda>n.
       if i < n then
         Option.bind (mods_addr s mb) (\<lambda>a.
           Option.bind (copy_module (a + i * MB_MODULE_SIZE) s) (copy_modules_loop mb (i + 1)))
       else Some s)"

definition multiboot_copy_memory :: "ptr \<Rightarrow> 'a mm_scheme \<Rightarrow> (ptr \<times> 'a mm_scheme) option" where
  "multiboot_copy_memory mb s =
     do { len \<leftarrow> mmap_length s mb;
          mods \<leftarrow> mb_flags_mods s mb;
          n \<leftarrow> mods_count s mb;
          let modules_length = (if mods then n * MB_MODULE_SIZE else 0);
          let (dst, s) = pmm_alloc (MB_INFO_SIZE + len + modules_length) PMM_KERNEL s;
          s \<leftarrow> memcpy dst mb MB_INFO_SIZE s;
          let mb = dst;
          a \<leftarrow> mmap_addr s mb;
          s \<leftarrow> memcpy (dst + MB_INFO_SIZE) a len s;
          s \<leftarrow> store32 (mb + 48) (dst + MB_INFO_SIZE) s;
          mods \<leftarrow> mb_flags_mods s mb;
          if mods then do {
            a \<leftarrow> mods_addr s mb;
            s \<leftarrow> memcpy (dst + MB_INFO_SIZE + len) a modules_length s;
            s \<leftarrow> store32 (mb + 24) (dst + MB_INFO_SIZE + len) s;
            s \<leftarrow> copy_modules_loop mb 0 s;
            Some (mb, s) }
          else Some (mb, s) }"

subsection \<open>pmm.c\<close>

definition BITMAP_INIT :: u32 where "BITMAP_INIT = 0x55555555"
definition PAGES_PER_DWORD :: nat where "PAGES_PER_DWORD = 16"

text \<open>\<^verbatim>\<open>memset\<close> on the first double words of the bitmap, which holds the byte \<open>0x55\<close> in all four places.\<close>

definition bitmap_reserve :: "nat \<Rightarrow> 'a pmm_scheme \<Rightarrow> 'a pmm_scheme" where
  "bitmap_reserve n s = s\<lparr>bitmap := \<lambda>i. if unat i < n then BITMAP_INIT else bitmap s i\<rparr>"

text \<open>The addresses of the kernel sections are given by the linker script.\<close>

definition pmm_use_kernel_memory :: "ptr \<Rightarrow> ptr \<Rightarrow> 'a pmm_scheme \<Rightarrow> 'a pmm_scheme" where
  "pmm_use_kernel_memory kernel_start kernel_end = pmm_use kernel_start (kernel_end - kernel_start + 1) PMM_KERNEL"

definition pmm_init :: "ptr \<Rightarrow> ptr \<Rightarrow> ptr \<Rightarrow> 'a mm_scheme \<Rightarrow> (bool \<times> ptr \<times> 'a mm_scheme) option" where
  "pmm_init kernel_start kernel_end mb s =
     do { (found, s) \<leftarrow> multiboot_free_memory mb (bitmap_reserve (PAGE_NUMBER div PAGES_PER_DWORD) s);
          if \<not> found then Some (False, mb, s)
          else do {
            let s = bitmap_reserve (ENTRIES div PAGES_PER_DWORD) s;
            let s = pmm_use_kernel_memory kernel_start kernel_end s;
            (mb, s) \<leftarrow> multiboot_copy_memory mb s;
            Some (True, mb,
              pmm_use MULTIBOOT_LOWER_MEMORY (MULTIBOOT_FIRST_PAGE_TABLE - MULTIBOOT_LOWER_MEMORY) PMM_UNUSED s) } }"

subsection \<open>Which frames are free after the initialisation\<close>

text \<open>\<open>owned s t\<close>: no frame that had an owner got another one.\<close>

definition owned :: "'a pmm_scheme \<Rightarrow> 'a pmm_scheme \<Rightarrow> bool" where
  "owned s t \<longleftrightarrow> (\<forall>q<1048576. frame_state s q \<noteq> PMM_UNUSED \<longrightarrow> frame_state t q = frame_state s q)"

lemma owned_refl [simp]: "owned s s"
  by (simp add: owned_def)

lemma owned_trans [trans]: "owned s t \<Longrightarrow> owned t u \<Longrightarrow> owned s u"
  by (simp add: owned_def)

lemma owned_mono: "owned s t \<Longrightarrow> q < 1048576 \<Longrightarrow> frame_state s q \<le> frame_state t q"
  by (cases "frame_state s q = PMM_UNUSED") (simp_all add: owned_def)

lemma frame_state_bitmap: "bitmap t = bitmap s \<Longrightarrow> frame_state t = frame_state s"
  by (simp add: frame_state_def pmm_bitmap_get_def fun_eq_iff)

lemma owned_bitmap: "bitmap t = bitmap s \<Longrightarrow> owned s t"
  using frame_state_bitmap[of t s] by (simp add: owned_def)

lemma owned_alloc:
  assumes "pmm_alloc len flags s = (p, t)"
  shows "owned s t"
proof (cases "len = 0 \<or> \<not> (\<exists>q. free_run s q (unat (pmm_pages len)))")
  case True
  then have "pmm_find_free s len = 0" using pmm_find_free_spec[of len s] by (auto simp: pmm_find_free_def)
  then show ?thesis using assms by (auto simp: pmm_alloc_def Let_def)
next
  case False
  define n where "n = unat (pmm_pages len)"
  define q where "q = (LEAST q. free_run s q n)"
  have len: "len \<noteq> 0" and run: "free_run s q n" using False LeastI_ex[of "\<lambda>q. free_run s q n"] by (auto simp: n_def q_def)
  have p: "pmm_find_free s len = pmm_get_address (of_nat q) 0" using False pmm_find_free_spec[OF len, of s] by (simp add: n_def q_def)
  show ?thesis
  proof (cases "pmm_find_free s len = 0")
    case True
    then show ?thesis using assms by (auto simp: pmm_alloc_def Let_def)
  next
    case nz: False
    have t: "t = pmm_use (pmm_get_address (of_nat q) 0) len flags s" using assms nz p by (auto simp: pmm_alloc_def Let_def)
    show ?thesis unfolding owned_def
    proof (intro allI impI)
      fix x :: u32 assume x: "x < 1048576" "frame_state s x \<noteq> PMM_UNUSED"
      have "\<not> (q \<le> unat x \<and> unat x < q + n)"
      proof
        assume i: "q \<le> unat x \<and> unat x < q + n"
        then have "unat x - q < n" "q + (unat x - q) = unat x" by linarith+
        then have "frame_state s (of_nat (unat x)) = PMM_UNUSED" using run unfolding free_run_def by metis
        then show False using x by simp
      qed
      then show "frame_state t x = frame_state s x"
        using frame_state_use_run[OF len, of q x flags s] run x(1) by (auto simp: t free_run_def n_def)
    qed
  qed
qed

lemma bitmap_store8: "store8 a b s = Some t \<Longrightarrow> bitmap t = bitmap s"
  by (auto simp: store8_def poke_def)

lemma bitmap_copy: "copy_loop load8 store8 n d a s = Some t \<Longrightarrow> bitmap t = bitmap s"
  by (induction n arbitrary: d a s) (auto split: bind_splits dest!: bitmap_store8)

lemma bitmap_memcpy: "memcpy d a n s = Some t \<Longrightarrow> bitmap t = bitmap s"
  by (simp add: memcpy_def bitmap_copy)

lemma bitmap_store32: "store32 a v s = Some t \<Longrightarrow> bitmap t = bitmap s"
  by (auto simp: store32_def store16_def split: bind_splits dest!: bitmap_store8)


lemmas bitmap_kept = bitmap_memcpy bitmap_store32

lemma owned_alloc_then:
  "pmm_alloc len flags s = (dst, u) \<Longrightarrow> bitmap t = bitmap u \<Longrightarrow> owned s t"
  "pmm_alloc len flags s = (dst, u) \<Longrightarrow> bitmap v = bitmap u \<Longrightarrow> owned v t \<Longrightarrow> owned s t"
  using owned_trans[OF owned_alloc owned_bitmap] owned_trans by blast+

lemma owned_copy_module: "copy_module m s = Some t \<Longrightarrow> owned s t"
  by (auto simp: copy_module_def Let_def split: bind_splits prod.splits dest!: bitmap_kept intro: owned_alloc_then(1))

lemma owned_copy_modules:
  assumes "copy_modules_loop mb i s = Some t"
  shows "owned s t"
  by (rule copy_modules_loop.raw_induct[OF _ assms, where P = "\<lambda>mb i s t. owned s t"])
    (auto split: bind_splits if_splits dest!: owned_copy_module intro: owned_trans)

lemma owned_copy_memory: "multiboot_copy_memory mb s = Some (mb', t) \<Longrightarrow> owned s t"
  by (auto simp: multiboot_copy_memory_def Let_def split: bind_splits if_splits prod.splits
      dest!: bitmap_kept owned_copy_modules intro: owned_alloc_then)

text \<open>The frame states that are marked by \<open>bitmap_reserve\<close> and by a range of addresses.\<close>

lemma BITMAP_INIT_cell: "k < 16 \<Longrightarrow> drop_bit (2 * k) BITMAP_INIT AND 3 = 1"
proof -
  have "\<forall>k\<in>set [0..<16]. drop_bit (2 * k) BITMAP_INIT AND 3 = 1" unfolding BITMAP_INIT_def by code_simp
  then show "k < 16 \<Longrightarrow> drop_bit (2 * k) BITMAP_INIT AND 3 = 1" by simp
qed

lemma reserve_state:
  assumes "q < 1048576"
  shows "frame_state (bitmap_reserve n s) q = (if unat q div 16 < n then PMM_RESERVED else frame_state s q)"
proof -
  have q: "unat (q * 2) = unat q * 2" using page_bit_index[OF assms, of 0] by simp
  have "unat q * 2 mod 32 = 2 * (unat q mod 16)" using mult_mod_right[of 2 "unat q" 16] by (simp add: mult.commute)
  then have d: "unat (q * 2 div 32) = unat q div 16" "unat (q * 2 mod 32) = 2 * (unat q mod 16)"
    by (simp_all add: unat_div unat_mod q)
  show ?thesis
    using BITMAP_INIT_cell[of "unat q mod 16"] d
    by (simp add: frame_state_def pmm_bitmap_get_def Let_def bitmap_reserve_def pmm_flags_of_def)
qed


lemma lower_range: "pmm_get_page MULTIBOOT_LOWER_MEMORY 0 = 256"
  "pmm_get_page MULTIBOOT_LOWER_MEMORY (MULTIBOOT_FIRST_PAGE_TABLE - MULTIBOOT_LOWER_MEMORY - 1) = 1023"
  "MULTIBOOT_FIRST_PAGE_TABLE - MULTIBOOT_LOWER_MEMORY \<noteq> 0"
  by (simp_all add: word_unat_eq_iff unat_get_page MULTIBOOT_LOWER_MEMORY_def MULTIBOOT_FIRST_PAGE_TABLE_def)

text \<open>
  C12: After the initialisation of the frame allocator from the memory map, whatever the map says: the first megabyte is reserved,
  so frame 0 is never handed out; the frames between it and 4 MiB are free; and all frames
  of the kernel image belong to the kernel, although the boot loader's data was moved in the meantime.
\<close>

theorem pmm_init_frames:
  assumes "pmm_init kernel_start kernel_end mb s = Some (True, mb', t)"
    and "MULTIBOOT_FIRST_PAGE_TABLE \<le> kernel_start" "kernel_start \<le> kernel_end" "q < 1048576"
  shows "(q < 256 \<longrightarrow> frame_state t q = PMM_RESERVED) \<and>
    (256 \<le> q \<and> q < 1024 \<longrightarrow> frame_state t q = PMM_UNUSED) \<and>
    (pmm_get_page kernel_start 0 \<le> q \<and> q \<le> pmm_get_page kernel_end 0 \<longrightarrow> frame_state t q = PMM_KERNEL)"
proof -
  obtain s1 s4 where c: "multiboot_copy_memory mb (pmm_use_kernel_memory kernel_start kernel_end
      (bitmap_reserve (ENTRIES div PAGES_PER_DWORD) s1)) = Some (mb', s4)"
    and t: "t = pmm_use MULTIBOOT_LOWER_MEMORY (MULTIBOOT_FIRST_PAGE_TABLE - MULTIBOOT_LOWER_MEMORY) PMM_UNUSED s4"
    using assms(1) by (auto simp: pmm_init_def Let_def split: bind_splits if_splits)
  let ?s2 = "bitmap_reserve (ENTRIES div PAGES_PER_DWORD) s1"
  let ?s3 = "pmm_use_kernel_memory kernel_start kernel_end ?s2"
  let ?first = "pmm_get_page kernel_start 0" and ?last = "pmm_get_page kernel_end 0"
  have ks: "4194304 \<le> unat kernel_start" "unat kernel_start \<le> unat kernel_end"
    using assms(2,3) by (simp_all add: word_le_nat_alt MULTIBOOT_FIRST_PAGE_TABLE_def)
  then have first: "1024 \<le> unat ?first" by (simp add: unat_get_page)
  have len: "kernel_end - kernel_start + 1 \<noteq> 0"
  proof
    assume "kernel_end - kernel_start + 1 = 0"
    then have "kernel_end - kernel_start = - 1" by (simp add: eq_neg_iff_add_eq_0)
    moreover have "unat (kernel_end - kernel_start) = unat kernel_end - unat kernel_start" using assms(3) by (rule unat_sub)
    moreover have "unat (- 1 :: u32) = 4294967295" by (simp add: unsigned_minus_1_eq_mask mask_eq_exp_minus_1)
    ultimately show False using ks unat_bound[of kernel_end] by simp
  qed
  have s3: "frame_state ?s3 q = (if ?first \<le> q \<and> q \<le> ?last then PMM_KERNEL else frame_state ?s2 q)"
    using frame_state_pmm_use[OF len assms(4), of kernel_start PMM_KERNEL ?s2]
    by (simp add: pmm_use_kernel_memory_def pmm_get_page_def)
  have s2: "frame_state ?s2 q = PMM_RESERVED" if "q < 1024"
    using that reserve_state[OF assms(4), of "ENTRIES div PAGES_PER_DWORD" s1]
    by (simp add: PAGES_PER_DWORD_def ENTRIES_def word_less_nat_alt div_less_iff_less_mult)
  have s4: "frame_state s4 q = frame_state ?s3 q" if "frame_state ?s3 q \<noteq> PMM_UNUSED"
    using owned_copy_memory[OF c] that assms(4) by (simp add: owned_def)
  have t': "frame_state t q = (if 256 \<le> q \<and> q \<le> 1023 then PMM_UNUSED else frame_state s4 q)"
    unfolding t frame_state_pmm_use[OF lower_range(3) assms(4)] lower_range(1,2) ..
  show ?thesis
    using t' s4 s3 s2 first by (auto simp: word_le_nat_alt word_less_nat_alt)
qed


text \<open>
  For the witness, a memory in which every double word is \<open>0x40\<close>: read as multiboot information it has a memory map
  with one reserved entry and no modules, and no frame is free.
\<close>

definition dull_mm :: mm where
  "dull_mm = plain_mm\<lparr>pmem := \<lambda>_ _. 0x40\<rparr>"

lemma load8_dull: "\<not> cr0_pg s \<Longrightarrow> pmem s = (\<lambda>_ _. w) \<Longrightarrow> load8 s a = Some (get_byte w a)"
  by (simp add: load8_def mmu_translate_def)

lemma and_3_add_1:
  assumes "(d :: ptr) AND 3 = a AND 3"
  shows "(d + 1) AND 3 = (a + 1) AND 3"
proof -
  have m: "unat (x AND 3) = unat x mod 4" for x :: ptr
  proof -
    have "x AND 3 = take_bit 2 x" by (simp add: take_bit_eq_mask mask_eq_exp_minus_1)
    then show ?thesis by (simp add: unat_mod take_bit_eq_mod)
  qed
  have "unat (x + 1) mod 4 = Suc (unat x mod 4) mod 4" for x :: ptr
    by (simp add: unat_word_ariths(1) mod_mod_cancel mod_Suc_eq)
  then show ?thesis using assms by (simp add: word_unat_eq_iff m)
qed

lemma and_3_cases: "unat ((a :: ptr) AND 3) \<in> {0, 1, 2, 3}"
  using unat_and_3[of a] by auto

lemma put_get_dull: "put_byte a (get_byte 0x40 a) 0x40 = 0x40"
  using and_3_cases[of a] by (auto simp: put_byte_def get_byte_def byte_shift_def)

lemma copy_dull:
  assumes "\<not> cr0_pg s" "pmem s = (\<lambda>_ _. 0x40)" "d AND 3 = a AND 3"
  shows "copy_loop load8 store8 n d a s = Some s"
  using assms(3)
proof (induction n arbitrary: d a)
  case (Suc n)
  have "get_byte 0x40 a = get_byte 0x40 d" using Suc.prems by (simp add: get_byte_def byte_shift_def)
  moreover have "store8 d (get_byte 0x40 d) s = Some s"
    using assms(1,2) by (simp add: store8_def mmu_translate_def poke_def put_get_dull fun_upd_idem)
  ultimately show ?case using Suc.IH[OF and_3_add_1[OF Suc.prems]] load8_dull[OF assms(1,2)] by simp
qed simp

lemma load32_dull:
  assumes "\<not> cr0_pg s" "pmem s = (\<lambda>_ _. 0x40)" "a AND 3 = 0"
  shows "load32 s a = Some 0x40"
proof -
  have "(a + 1) AND 3 = 1" "(a + 1 + 1) AND 3 = 2" "(a + 1 + 1 + 1) AND 3 = 3"
    using and_3_add_1[of a 0] and_3_add_1[of "a + 1" 1] and_3_add_1[of "a + 1 + 1" 2] assms(3) by simp_all
  then show ?thesis
    using assms by (simp add: load32_def load16_def load8_dull[OF assms(1,2)] get_byte_def byte_shift_def add.assoc)
qed


lemma free_memory_dull: "multiboot_free_memory 0x1000 (bitmap_reserve n dull_mm) =
   Some (True, pmm_use 0x40 0x40 PMM_RESERVED (bitmap_reserve n dull_mm))"
proof -
  let ?s = "bitmap_reserve n dull_mm"
  have s: "\<not> cr0_pg ?s" "pmem ?s = (\<lambda>_ _. 0x40)" by (simp_all add: bitmap_reserve_def dull_mm_def plain_mm_def)
  note l = load32_dull[OF s]
  let ?t = "pmm_use 0x40 0x40 PMM_RESERVED ?s"
  have "load32 ?t 0x40 = Some 0x40" using s by (intro load32_dull) simp_all
  then have "free_memory_loop 0x40 0x80 ?s = free_memory_loop 0x84 0x80 ?t"
    by (subst free_memory_loop.simps) (simp add: l)
  moreover have "free_memory_loop 0x84 0x80 ?t = Some ?t" by (subst free_memory_loop.simps) simp
  ultimately show ?thesis
    by (simp add: multiboot_free_memory_def mb_flags_mmap_def mmap_addr_def mmap_length_def l bit_numeral_rec)
qed

lemma flat_unpaged: "\<not> cr0_pg s \<Longrightarrow> flat s UNIV"
  by (simp add: flat_def mmu_translate_def inj_on_def)

lemma store8_unpaged:
  assumes "\<not> cr0_pg s"
  shows "\<exists>t. store8 a b s = Some t \<and> \<not> cr0_pg t \<and> (\<forall>c. load8 t c = (if c = a then Some b else load8 s c))"
proof -
  note f = flat_unpaged[OF assms]
  obtain t where t: "store8 a b s = Some t" using store8_flat(1)[OF f] by blast
  moreover have "\<not> cr0_pg t" using t assms by (auto simp: store8_def)
  ultimately show ?thesis using store8_flat(3)[OF f UNIV_I t UNIV_I] by blast
qed

lemma store32_unpaged:
  assumes "\<not> cr0_pg s"
  shows "\<exists>t. store32 a v s = Some t \<and> (\<forall>c. c \<notin> {a, a + 1, a + 2, a + 3} \<longrightarrow> load8 t c = load8 s c)"
proof -
  let ?b = "\<lambda>n. ucast (drop_bit n v) :: u8"
  obtain t1 where 1: "store8 a (ucast (ucast v :: u16)) s = Some t1" "\<not> cr0_pg t1" "\<forall>c. c \<noteq> a \<longrightarrow> load8 t1 c = load8 s c"
    using store8_unpaged[OF assms] by metis
  obtain t2 where 2: "store8 (a + 1) (ucast (drop_bit 8 (ucast v :: u16))) t1 = Some t2" "\<not> cr0_pg t2"
      "\<forall>c. c \<noteq> a + 1 \<longrightarrow> load8 t2 c = load8 t1 c"
    using store8_unpaged[OF 1(2)] by metis
  obtain t3 where 3: "store8 (a + 2) (ucast (ucast (drop_bit 16 v) :: u16)) t2 = Some t3" "\<not> cr0_pg t3"
      "\<forall>c. c \<noteq> a + 2 \<longrightarrow> load8 t3 c = load8 t2 c"
    using store8_unpaged[OF 2(2)] by metis
  obtain t4 where 4: "store8 (a + 3) (ucast (drop_bit 8 (ucast (drop_bit 16 v) :: u16))) t3 = Some t4"
      "\<forall>c. c \<noteq> a + 3 \<longrightarrow> load8 t4 c = load8 t3 c"
    using store8_unpaged[OF 3(2)] by metis
  have "store32 a v s = Some t4"
    using 1 2 3 4 by (simp add: store32_def store16_def add.assoc)
  then show ?thesis using 1(3) 2(3) 3(3) 4(2) by auto
qed

lemma copy_memory_dull:
  assumes "\<not> cr0_pg s" "pmem s = (\<lambda>_ _. 0x40)" "\<forall>q<1048576. frame_state s q \<noteq> PMM_UNUSED"
  shows "\<exists>t. multiboot_copy_memory 0x1000 s = Some (0, t)"
proof -
  note l = load32_dull[OF assms(1,2)] and c = copy_dull[OF assms(1,2)]
  have "\<not> free_run s q (Suc n)" for q n
    using assms(3) by (auto simp: free_run_def word_less_nat_alt unat_of_nat_small dest!: spec[of _ "0::nat"])
  then have "pmm_find_free s 0xA0 = 0"
    using pmm_find_free_spec[of "0xA0" s] by (simp add: unat_pmm_pages)
  then have al: "pmm_alloc 0xA0 PMM_KERNEL s = (0, s)" by (simp add: pmm_alloc_def)
  obtain t where t: "store32 0x30 0x60 s = Some t" "\<forall>c. c \<notin> {0x30, 0x30 + 1, 0x30 + 2, 0x30 + 3} \<longrightarrow> load8 t c = load8 s c"
    using store32_unpaged[OF assms(1)] by blast
  then have "load32 t 0 = load32 s 0" by (simp add: load32_def load16_def)
  then have "load32 t 0 = Some 0x40" using l by simp
  then show ?thesis using al t(1)
    by (simp add: multiboot_copy_memory_def mb_flags_mods_def mmap_length_def mods_count_def mmap_addr_def l
      MB_INFO_SIZE_def memcpy_def c bit_numeral_rec)
qed

lemma reserve_all: "q < 1048576 \<Longrightarrow> frame_state (bitmap_reserve (PAGE_NUMBER div PAGES_PER_DWORD) s) q = PMM_RESERVED"
  using reserve_state[of q "PAGE_NUMBER div PAGES_PER_DWORD" s] unat_bound[of q]
  by (simp add: PAGES_PER_DWORD_def ENTRIES_def word_less_nat_alt div_less_iff_less_mult)

lemma pmm_init_dull: "\<exists>t. pmm_init 0x400000 0x410000 0x1000 dull_mm = Some (True, 0, t)"
proof -
  let ?s1 = "pmm_use 0x40 0x40 PMM_RESERVED (bitmap_reserve (PAGE_NUMBER div PAGES_PER_DWORD) dull_mm)"
  let ?s3 = "pmm_use_kernel_memory 0x400000 0x410000 (bitmap_reserve (ENTRIES div PAGES_PER_DWORD) ?s1)"
  have "frame_state ?s3 q \<noteq> PMM_UNUSED" if q: "q < 1048576" for q
    using q reserve_all[OF q, of dull_mm]
    by (simp add: pmm_use_kernel_memory_def frame_state_pmm_use reserve_state)
  moreover have "\<not> cr0_pg ?s3" "pmem ?s3 = (\<lambda>_ _. 0x40)"
    by (simp_all add: pmm_use_kernel_memory_def bitmap_reserve_def dull_mm_def plain_mm_def)
  ultimately obtain t where "multiboot_copy_memory 0x1000 ?s3 = Some (0, t)" using copy_memory_dull by blast
  then show ?thesis by (simp add: pmm_init_def free_memory_dull Let_def)
qed

theorem pmm_init_frames_witness:
  "\<exists>t. pmm_init 0x400000 0x410000 0x1000 dull_mm = Some (True, 0, t) \<and> frame_state t 0 = PMM_RESERVED \<and>
     frame_state t 0x100 = PMM_UNUSED \<and> frame_state t 0x400 = PMM_KERNEL"
proof -
  obtain t where t: "pmm_init 0x400000 0x410000 0x1000 dull_mm = Some (True, 0, t)" using pmm_init_dull by blast
  show ?thesis
    using t pmm_init_frames[OF t, of 0] pmm_init_frames[OF t, of "0x100"] pmm_init_frames[OF t, of "0x400"]
    by (simp add: MULTIBOOT_FIRST_PAGE_TABLE_def pmm_get_page_def)
qed

end
