(* ===== verification/VM86.thy ===== *)
theory VM86
  imports Schedule Multiboot
begin

unbundle bit_operations_syntax

text \<open>
  \<^verbatim>\<open>tasks/vm86.c\<close>: real mode addresses, the creation of virtual 8086 tasks and the monitor that emulates
  the instructions which fault in virtual 8086 mode. The monitor works on the CPU state that the
  interrupt saved and on the task's memory, the first MiB, which \<^verbatim>\<open>vm86_create_task\<close> maps to itself.
  Port I/O is hardware and a parameter: \<open>port_in\<close> and \<open>port_out\<close> take the width in bits.
\<close>

definition CODE_ADDRESS :: ptr where [simp]: "CODE_ADDRESS = 0x500"
definition IVT_ADDRESS :: ptr where [simp]: "IVT_ADDRESS = 0"
definition OPERAND_SIZE :: u8 where [simp]: "OPERAND_SIZE = 0x66"
definition OPCODE_PUSHF :: u16 where [simp]: "OPCODE_PUSHF = 0x9C"
definition OPCODE_POPF :: u16 where [simp]: "OPCODE_POPF = 0x9D"
definition OPCODE_INT_3 :: u16 where [simp]: "OPCODE_INT_3 = 0xCC"
definition OPCODE_INT :: u16 where [simp]: "OPCODE_INT = 0xCD"
definition OPCODE_IRET :: u16 where [simp]: "OPCODE_IRET = 0xCF"
definition OPCODE_CLI :: u16 where [simp]: "OPCODE_CLI = 0xFA"
definition OPCODE_STI :: u16 where [simp]: "OPCODE_STI = 0xFB"

subsection \<open>Far pointers\<close>

record vm86_farptr =
  offset :: u16
  segment :: u16

definition vm86_get_farptr :: "ptr \<Rightarrow> vm86_farptr" where
  "vm86_get_farptr addr =
     (if MULTIBOOT_LOWER_MEMORY \<le> addr then \<lparr>offset = 0, segment = 0\<rparr>
      else let off = ucast (addr AND 0xFFFF) :: u16
           in \<lparr>offset = off, segment = ucast (drop_bit 4 (addr - ucast off))\<rparr>)"

definition vm86_get_address :: "vm86_farptr \<Rightarrow> ptr" where
  "vm86_get_address fp = push_bit 4 (ucast (segment fp)) + ucast (offset fp)"

text \<open>
  \<^verbatim>\<open>vm86_write_farptr\<close> stores through \<^verbatim>\<open>uint16_t*\<close>; where the target is a 32-bit register only its lower half
  is written (\<open>set_low\<close>).
\<close>

definition set_low :: "u32 \<Rightarrow> u16 \<Rightarrow> u32" where
  "set_low x v = (x AND 0xFFFF0000) OR ucast v"

definition write_sssp :: "vm86_farptr \<Rightarrow> cpu_state \<Rightarrow> cpu_state" where
  "write_sssp fp c = c\<lparr>user_ss := set_low (user_ss c) (segment fp), user_esp := set_low (user_esp c) (offset fp)\<rparr>"

definition write_csip :: "vm86_farptr \<Rightarrow> cpu_state \<Rightarrow> cpu_state" where
  "write_csip fp c = c\<lparr>cs := segment fp, eip := set_low (eip c) (offset fp)\<rparr>"

definition sssp :: "cpu_state \<Rightarrow> vm86_farptr" where
  "sssp c = \<lparr>offset = ucast (user_esp c), segment = ucast (user_ss c)\<rparr>"

definition csip :: "cpu_state \<Rightarrow> vm86_farptr" where
  "csip c = \<lparr>offset = ucast (eip c), segment = cs c\<rparr>"

subsection \<open>Emulated stack and instruction pointer\<close>

definition vm86_push :: "u16 \<Rightarrow> cpu_state \<times> 'a mm_scheme \<Rightarrow> (cpu_state \<times> 'a mm_scheme) option" where
  "vm86_push v = (\<lambda>(c, s).
     let new_esp = vm86_get_address (sssp c) - 2
     in do { s \<leftarrow> store16 new_esp v s; Some (write_sssp (vm86_get_farptr new_esp) c, s) })"

definition vm86_pop :: "cpu_state \<times> 'a mm_scheme \<Rightarrow> (u16 \<times> cpu_state \<times> 'a mm_scheme) option" where
  "vm86_pop = (\<lambda>(c, s).
     let esp = vm86_get_address (sssp c)
     in do { v \<leftarrow> load16 s esp; Some (v, write_sssp (vm86_get_farptr (esp + 2)) c, s) })"

definition vm86_increment_eip :: "u32 \<Rightarrow> cpu_state \<Rightarrow> cpu_state" where
  "vm86_increment_eip inc c = write_csip (vm86_get_farptr (vm86_get_address (csip c) + inc)) c"

subsection \<open>The monitor\<close>

record 'w ports =
  port_in :: "nat \<Rightarrow> u16 \<Rightarrow> 'w \<Rightarrow> u32 \<times> 'w"
  port_out :: "nat \<Rightarrow> u16 \<Rightarrow> u32 \<Rightarrow> 'w \<Rightarrow> 'w"

text \<open>\<open>set_width\<close> assigns the lower 8, 16 or 32 bits of EAX.\<close>

definition set_width :: "nat \<Rightarrow> u32 \<Rightarrow> u32 \<Rightarrow> u32" where
  "set_width width x v = (x AND NOT (mask width)) OR (v AND mask width)"

definition case_in :: "'w ports \<Rightarrow> nat \<Rightarrow> u16 \<Rightarrow> u32 \<Rightarrow> cpu_state \<Rightarrow> 'w \<Rightarrow> cpu_state \<times> 'w" where
  "case_in io width operand inc c w =
     (let (v, w) = port_in io width operand w;
          c = c\<lparr>r := (r c)\<lparr>eax := set_width width (eax (r c)) v\<rparr>\<rparr>
      in (vm86_increment_eip inc c, w))"

definition case_out :: "'w ports \<Rightarrow> nat \<Rightarrow> u16 \<Rightarrow> u32 \<Rightarrow> cpu_state \<Rightarrow> 'w \<Rightarrow> cpu_state \<times> 'w" where
  "case_out io width operand inc c w =
     (let w = port_out io width operand (eax (r c) AND mask width) w in (vm86_increment_eip inc c, w))"

datatype 'b monitored = Not_VM86 | Exits | Emulated 'b

definition vm86_opcode :: "'a mm_scheme \<Rightarrow> ptr \<Rightarrow> u16 option" where
  "vm86_opcode s a =
     do { b \<leftarrow> load8 s a;
          if b = OPERAND_SIZE then do { b1 \<leftarrow> load8 s (a + 1); Some (push_bit 8 (ucast OPERAND_SIZE) OR ucast b1) }
          else Some (ucast b) }"

definition emulate_int :: "cpu_state \<times> 'a mm_scheme \<Rightarrow> (cpu_state \<times> 'a mm_scheme) option" where
  "emulate_int = (\<lambda>(c, s).
     let a = vm86_get_address (csip c); ret = vm86_get_farptr (a + 2)
     in do { (c, s) \<leftarrow> vm86_push (ucast (eflags c)) (c, s);
             (c, s) \<leftarrow> vm86_push (segment ret) (c, s);
             (c, s) \<leftarrow> vm86_push (offset ret) (c, s);
             n \<leftarrow> load8 s (a + 1);
             off \<leftarrow> load16 s (IVT_ADDRESS + 4 * ucast n);
             seg \<leftarrow> load16 s (IVT_ADDRESS + 4 * ucast n + 2);
             Some (write_csip \<lparr>offset = off, segment = seg\<rparr> c, s) })"

definition emulate_iret :: "cpu_state \<times> 'a mm_scheme \<Rightarrow> (cpu_state \<times> 'a mm_scheme) option" where
  "emulate_iret = (\<lambda>(c, s).
     do { (ip, c, s) \<leftarrow> vm86_pop (c, s);
          (seg, c, s) \<leftarrow> vm86_pop (c\<lparr>eip := ucast ip\<rparr>, s);
          (_, c, s) \<leftarrow> vm86_pop (c\<lparr>cs := seg\<rparr>, s);
          Some (c, s) })"

text \<open>
  \<open>emulate\<close> is the \<^verbatim>\<open>switch\<close> of \<^verbatim>\<open>vm86_monitor\<close>. \<open>Exits\<close>: the monitor issues the system call
  \<^verbatim>\<open>sys_exit(0)\<close>, which does not return. An unknown opcode panics (\<open>None\<close>).
\<close>

definition emulate ::
  "'w ports \<Rightarrow> u16 \<Rightarrow> cpu_state \<times> 'a mm_scheme \<Rightarrow> 'w \<Rightarrow> ((cpu_state \<times> 'a mm_scheme) \<times> 'w) monitored option" where
  "emulate io opcode = (\<lambda>(c, s) w.
     let a = vm86_get_address (csip c);
         dx = ucast (edx (r c)) :: u16;
         emulated = (\<lambda>(c, w). Some (Emulated ((c, s), w)));
         imm = (\<lambda>k f. do { b \<leftarrow> load8 s (a + k); emulated (f (ucast b)) })
     in if opcode = OPCODE_PUSHF then
          do { (c, s) \<leftarrow> vm86_push (ucast (eflags c)) (c, s); Some (Emulated ((vm86_increment_eip 1 c, s), w)) }
        else if opcode = OPCODE_POPF then
          do { (_, c, s) \<leftarrow> vm86_pop (c, s); Some (Emulated ((vm86_increment_eip 1 c, s), w)) }
        else if opcode = OPCODE_INT_3 then Some Exits
        else if opcode = OPCODE_INT then do { m \<leftarrow> emulate_int (c, s); Some (Emulated (m, w)) }
        else if opcode = OPCODE_IRET then do { m \<leftarrow> emulate_iret (c, s); Some (Emulated (m, w)) }
        else if opcode = 0xE4 then imm 1 (\<lambda>p. case_in io 8 p 2 c w)
        else if opcode = 0xE5 then imm 1 (\<lambda>p. case_in io 16 p 2 c w)
        else if opcode = 0x66E5 then imm 2 (\<lambda>p. case_in io 32 p 3 c w)
        else if opcode = 0xE6 then imm 1 (\<lambda>p. case_out io 8 p 2 c w)
        else if opcode = 0xE7 then imm 1 (\<lambda>p. case_out io 16 p 2 c w)
        else if opcode = 0x66E7 then imm 2 (\<lambda>p. case_out io 32 p 3 c w)
        else if opcode = 0xEC then emulated (case_in io 8 dx 1 c w)
        else if opcode = 0xED then emulated (case_in io 16 dx 1 c w)
        else if opcode = 0x66ED then emulated (case_in io 32 dx 2 c w)
        else if opcode = 0xEE then emulated (case_out io 8 dx 1 c w)
        else if opcode = 0xEF then emulated (case_out io 16 dx 1 c w)
        else if opcode = 0x66EF then emulated (case_out io 32 dx 2 c w)
        else if opcode = OPCODE_CLI \<or> opcode = OPCODE_STI then Some (Emulated ((vm86_increment_eip 1 c, s), w))
        else None)"

text \<open>The CPU state is the one stored at \<open>cpu\<close>; the monitor updates it there.\<close>

definition vm86_monitor :: "'w ports \<Rightarrow> ptr \<Rightarrow> 'a os_scheme \<Rightarrow> 'w \<Rightarrow> ('a os_scheme \<times> 'w) monitored option" where
  "vm86_monitor io cpu s w =
     do { vm \<leftarrow> task_get_vm86 s (schedule_get_current_task s);
          if \<not> vm then Some Not_VM86
          else do {
            let c = cpu_store s cpu;
            opcode \<leftarrow> vm86_opcode s (vm86_get_address (csip c));
            m \<leftarrow> emulate io opcode (c, s) w;
            Some (case m of
                Not_VM86 \<Rightarrow> Not_VM86
              | Exits \<Rightarrow> Exits
              | Emulated ((c, s), w) \<Rightarrow> Emulated (s\<lparr>cpu_store := (cpu_store s)(cpu := c)\<rparr>, w)) } }"

text \<open>A general protection fault that the monitor does not handle panics.\<close>

definition vm86_handle_gpf :: "'w ports \<Rightarrow> ptr \<Rightarrow> 'a os_scheme \<Rightarrow> 'w \<Rightarrow> ('a os_scheme \<times> 'w) monitored option" where
  "vm86_handle_gpf io cpu s w =
     do { m \<leftarrow> vm86_monitor io cpu s w; case m of Not_VM86 \<Rightarrow> None | _ \<Rightarrow> Some m }"

subsection \<open>Creating tasks\<close>

text \<open>The assignments to the task structure at \<open>t\<close> and to the CPU state at the top of its kernel stack.\<close>

definition vm86_prepare ::
  "ptr \<Rightarrow> ptr \<Rightarrow> ptr \<Rightarrow> u32 \<Rightarrow> ptr \<Rightarrow> u32 \<Rightarrow> registers \<Rightarrow> 'a os_scheme \<Rightarrow> 'a os_scheme" where
  "vm86_prepare t dir kstack kernel_len ustack user_len regs s =
     (let cpu = kstack + kernel_len - 1 - CPU_STATE_SIZE;
          data = gdt_get_selector (gdt_table s) GDT_RING3_DATA_SEG;
          entry = vm86_get_farptr CODE_ADDRESS;
          top = vm86_get_farptr (ustack + user_len - 1)
      in s\<lparr>task_store := (task_store s)(t := (task_store s t)
             \<lparr>task_page_directory := dir, task_state := TASK_RUNNING, task_vm86 := True,
              kernel_stack := kstack, user_stack := ustack,
              kernel_stack_len := kernel_len, user_stack_len := user_len, task_cpu := cpu\<rparr>),
           cpu_store := (cpu_store s)(cpu := (cpu_store s cpu)
             \<lparr>gs := data, fs := data, es := data, ds := data, r := regs,
              eip := ucast (offset entry), cs := segment entry,
              eflags := 0 OR EFLAGS_IF OR EFLAGS_RESERVED OR EFLAGS_VM,
              user_esp := ucast (offset top), user_ss := ucast (segment top),
              vm86_es := segment entry, vm86_ds := segment entry, vm86_fs := segment entry,
              vm86_gs := segment entry\<rparr>)\<rparr>)"

definition vm86_create_task ::
  "ptr \<Rightarrow> ptr \<Rightarrow> ptr \<Rightarrow> u32 \<Rightarrow> u32 \<Rightarrow> registers \<Rightarrow> 'a os_scheme \<Rightarrow> (pid \<times> 'a os_scheme) option" where
  "vm86_create_task code_start code_end dir kernel_len user_len regs s =
     do { let (old_intr, s) = isr_enable_interrupts False s;
          (t, s) \<leftarrow> vmm_alloc TASK_SIZE VMM_KERNEL s;
          (dir, s) \<leftarrow> (if dir \<noteq> 0 then Some (dir, s) else vmm_create_page_directory s);
          s \<leftarrow> vmm_modify_page_directory dir s;
          s \<leftarrow> vmm_map_range 0 0 MULTIBOOT_LOWER_MEMORY (VMM_USER OR VMM_WRITABLE) (vmm_enable_domain_check False s);
          let s = vmm_enable_domain_check True s;
          let code_length = code_end - code_start + 1;
          s \<leftarrow> memcpy CODE_ADDRESS code_start code_length s;
          (kstack, s) \<leftarrow> vmm_alloc kernel_len VMM_KERNEL s;
          s \<leftarrow> vmm_modified_page_directory
                 (vm86_prepare t dir kstack kernel_len (CODE_ADDRESS + code_length) user_len regs s);
          (p, s) \<leftarrow> task_add t s;
          Some (p, snd (isr_enable_interrupts old_intr s)) }"

text \<open>
  \<open>hook\<close> is the address of the \<^verbatim>\<open>INT\<close> instruction in the code between \<open>code_start\<close> and \<open>code_end\<close> (symbols of
  \<^verbatim>\<open>vm86_asm.S\<close>).
\<close>

definition vm86_call_bios :: "ptr \<Rightarrow> ptr \<Rightarrow> ptr \<Rightarrow> u8 \<Rightarrow> registers \<Rightarrow> 'a os_scheme \<Rightarrow> 'a os_scheme option" where
  "vm86_call_bios hook code_start code_end interrupt regs s =
     do { b \<leftarrow> load8 s hook;
          if ucast b \<noteq> OPCODE_INT then Some s
          else do {
            s \<leftarrow> store8 (hook + 1) interrupt s;
            (_, s) \<leftarrow> vm86_create_task code_start code_end 0 0x1000 0x1000 regs s;
            Some s } }"

subsection \<open>Far pointers and addresses\<close>

lemma unat_ucast_16_32: "unat (ucast (x :: u16) :: u32) = unat x"
  using unat_bound[of x] by (simp add: unsigned_ucast_eq take_bit_eq_mod)

lemma farptr_parts:
  assumes "a < 0x100000"
  shows "unat (segment (vm86_get_farptr a)) = 4096 * (unat a div 65536)"
    "unat (offset (vm86_get_farptr a)) = unat a mod 65536"
proof -
  have a: "unat a < 1048576" "\<not> 0x100000 \<le> a" using assms by (simp_all add: word_less_nat_alt not_le)
  have m: "a AND 0xFFFF = take_bit 16 a" by (simp add: take_bit_eq_mask mask_consts)
  have "unat (a AND 0xFFFF) = unat a mod 65536" unfolding m by (simp only: unsigned_take_bit_eq) (simp add: take_bit_eq_mod)
  then have off: "unat (ucast (a AND 0xFFFF) :: u16) = unat a mod 65536"
    by (simp only: unsigned_ucast_eq) (simp add: take_bit_eq_mod)
  show "unat (offset (vm86_get_farptr a)) = unat a mod 65536"
    using a(2) off by (simp add: vm86_get_farptr_def Let_def)
  have off32: "unat (ucast (ucast (a AND 0xFFFF) :: u16) :: ptr) = unat a mod 65536"
    using off by (simp only: unat_ucast_16_32)
  have "unat (a - ucast (ucast (a AND 0xFFFF) :: u16)) = unat a - unat a mod 65536"
    using off32 unat_sub_small[of "ucast (ucast (a AND 0xFFFF) :: u16)" a] mod_less_eq_dividend[of "unat a" 65536]
    by presburger
  then have d: "unat (drop_bit 4 (a - ucast (ucast (a AND 0xFFFF) :: u16))) = (unat a - unat a mod 65536) div 16"
    by (simp only: drop_bit_eq_div unat_div) simp
  have "(unat a - unat a mod 65536) div 16 = 4096 * (unat a div 65536)"
    by (simp add: minus_mod_eq_mult_div)
  moreover have "4096 * (unat a div 65536) < 65536" using a(1) by linarith
  ultimately have "unat (ucast (drop_bit 4 (a - ucast (ucast (a AND 0xFFFF) :: u16))) :: u16) = 4096 * (unat a div 65536)"
    using d by (simp only: unsigned_ucast_eq) (simp add: take_bit_eq_mod)
  then show "unat (segment (vm86_get_farptr a)) = 4096 * (unat a div 65536)"
    using a(2) by (simp add: vm86_get_farptr_def Let_def)
qed

lemma unat_farptr_address: "unat (vm86_get_address fp) = unat (segment fp) * 16 + unat (offset fp)"
proof -
  have b: "unat (segment fp) < 65536" "unat (offset fp) < 65536"
    using unat_bound[of "segment fp"] unat_bound[of "offset fp"] by simp_all
  note u = unat_ucast_16_32
  have "push_bit 4 (ucast (segment fp) :: u32) = ucast (segment fp) * 16" by (simp add: push_bit_eq_mult)
  then have "unat (push_bit 4 (ucast (segment fp) :: u32)) = unat (segment fp) * 16"
    using b u by (simp only:) (subst unat_mult_small; simp)
  then show ?thesis using b u by (simp add: vm86_get_address_def unat_add_small)
qed

lemma get_address_farptr: "a < 0x100000 \<Longrightarrow> vm86_get_address (vm86_get_farptr a) = a"
  by (simp add: word_unat_eq_iff unat_farptr_address farptr_parts)

lemma get_address_large: "0x100000 \<le> a \<Longrightarrow> vm86_get_address (vm86_get_farptr a) = 0"
  by (simp add: vm86_get_farptr_def vm86_get_address_def)

text \<open>
  Translating an address below 1 MiB into a far pointer and back is the identity, the segment is always a multiple of
  4096 paragraphs; an address from 1 MiB on becomes the null pointer.
\<close>

theorem vm86_farptr_roundtrip:
  "vm86_get_address (vm86_get_farptr a) = (if a < 0x100000 then a else 0) \<and>
   unat (segment (vm86_get_farptr a)) mod 4096 = 0"
proof (cases "a < 0x100000")
  case True
  then show ?thesis by (simp add: get_address_farptr farptr_parts)
next
  case False
  then have "0x100000 \<le> a" by (simp add: not_less)
  then show ?thesis using False get_address_large[of a] by (simp add: vm86_get_farptr_def)
qed

subsection \<open>The emulated stack\<close>

lemma bit_high_half: "bit (0xFFFF0000 :: u32) n \<longleftrightarrow> 16 \<le> n \<and> n < 32"
proof -
  have "(0xFFFF0000 :: u32) = push_bit 16 (mask 16)" by (simp add: mask_eq_exp_minus_1)
  moreover have "bit (push_bit 16 (mask 16) :: u32) n \<longleftrightarrow> 16 \<le> n \<and> n < 32"
    by (simp only: bit_push_bit_iff bit_mask_iff) auto
  ultimately show ?thesis by simp
qed

lemma bit_set_low: "bit (set_low x v) n \<longleftrightarrow> (if n < 16 then bit v n else bit x n)"
proof -
  have "bit (set_low x v) n \<longleftrightarrow> bit x n \<and> 16 \<le> n \<and> n < 32 \<or> n < 32 \<and> bit v n"
    by (simp only: set_low_def bit_or_iff bit_and_iff bit_high_half bit_unsigned_iff) simp
  then show ?thesis using bit_imp_le_length[of x n] bit_imp_le_length[of v n] by auto
qed

lemma low_set_low: "(ucast (set_low x v) :: u16) = v"
  by (rule bit_word_eqI) (simp add: bit_simps bit_set_low)

lemma set_low_twice: "set_low (set_low x v) w = set_low x w"
  by (rule bit_word_eqI) (simp add: bit_set_low)

lemma write_sssp_get [simp]: "sssp (write_sssp fp c) = fp" "csip (write_sssp fp c) = csip c"
  "r (write_sssp fp c) = r c" "eflags (write_sssp fp c) = eflags c"
  by (simp_all add: sssp_def write_sssp_def low_set_low csip_def)

lemma write_csip_get [simp]: "csip (write_csip fp c) = fp" "sssp (write_csip fp c) = sssp c"
  by (simp_all add: csip_def write_csip_def low_set_low sssp_def)

lemma join_halves: "(ucast (ucast (v :: u16) :: u8) :: u16) OR push_bit 8 (ucast (ucast (drop_bit 8 v) :: u8)) = v"
  by (rule word_eq_split[where k = 8 and l = 8]) (simp_all add: bit_simps bit_beyond)

lemma store16_flat:
  assumes "flat s A" "a \<in> A" "a + 1 \<in> A"
  shows "\<exists>t. store16 a v s = Some t \<and> flat t A \<and> load16 t a = Some v \<and>
    (\<forall>c\<in>A. c \<noteq> a \<longrightarrow> c \<noteq> a + 1 \<longrightarrow> load8 t c = load8 s c)"
proof -
  obtain t1 where t1: "store8 a (ucast v) s = Some t1" "flat t1 A"
    using store8_flat(1,2)[OF assms(1,2)] by blast
  obtain t where t: "store8 (a + 1) (ucast (drop_bit 8 v)) t1 = Some t" "flat t A"
    using store8_flat(1,2)[OF t1(2) assms(3)] by blast
  have l: "load8 t c = (if c = a + 1 then Some (ucast (drop_bit 8 v)) else if c = a then Some (ucast v) else load8 s c)"
    if "c \<in> A" for c
    using store8_flat(3)[OF t1(2) assms(3) t(1) that] store8_flat(3)[OF assms(1,2) t1(1) that] by simp
  then have "load16 t a = Some v" using assms(2,3) join_halves by (simp add: load16_def)
  then show ?thesis using t t1 l by (auto simp: store16_def)
qed

lemma load16_cong: "load8 t a = load8 s a \<Longrightarrow> load8 t (a + 1) = load8 s (a + 1) \<Longrightarrow> load16 t a = load16 s a"
  by (simp add: load16_def)

definition linear_sp :: "cpu_state \<Rightarrow> ptr" where "linear_sp c = vm86_get_address (sssp c)"
definition linear_ip :: "cpu_state \<Rightarrow> ptr" where "linear_ip c = vm86_get_address (csip c)"

lemma push_effect:
  assumes "flat s A" "linear_sp c - 2 \<in> A" "linear_sp c - 1 \<in> A" "linear_sp c - 2 < 0x100000"
  shows "\<exists>t. vm86_push v (c, s) = Some (write_sssp (vm86_get_farptr (linear_sp c - 2)) c, t) \<and> flat t A \<and>
    load16 t (linear_sp c - 2) = Some v \<and>
    (\<forall>a\<in>A. a \<noteq> linear_sp c - 2 \<longrightarrow> a \<noteq> linear_sp c - 1 \<longrightarrow> load8 t a = load8 s a)"
proof -
  have e: "linear_sp c - 2 + 1 = linear_sp c - 1" by simp
  show ?thesis using store16_flat[OF assms(1,2), of v] assms(3) unfolding e
    by (auto simp: vm86_push_def linear_sp_def Let_def)
qed

lemma pop_effect:
  assumes "load16 s (linear_sp c) = Some v" 
  shows "vm86_pop (c, s) = Some (v, write_sssp (vm86_get_farptr (linear_sp c + 2)) c, s)"
  using assms by (simp add: vm86_pop_def linear_sp_def Let_def)

lemma linear_write [simp]:
  "a < 0x100000 \<Longrightarrow> linear_sp (write_sssp (vm86_get_farptr a) c) = a"
  "linear_ip (write_sssp fp c) = linear_ip c"
  "a < 0x100000 \<Longrightarrow> linear_ip (write_csip (vm86_get_farptr a) c) = a"
  "linear_sp (write_csip fp c) = linear_sp c"
  by (simp_all add: linear_sp_def linear_ip_def get_address_farptr)


text \<open>
  A pushed word is what the next pop returns. The push moves the linear stack address down by 2, writes two
  bytes there and no other byte of the task's memory; the pop moves it back.
\<close>

theorem vm86_push_pop:
  assumes "flat s {..<0x100000}" "2 \<le> linear_sp c" "linear_sp c < 0x100000"
  shows "\<exists>c' t c''. vm86_push v (c, s) = Some (c', t) \<and> linear_sp c' = linear_sp c - 2 \<and>
    vm86_pop (c', t) = Some (v, c'', t) \<and> linear_sp c'' = linear_sp c \<and>
    (\<forall>a<0x100000. a \<noteq> linear_sp c - 2 \<longrightarrow> a \<noteq> linear_sp c - 1 \<longrightarrow> load8 t a = load8 s a)"
proof -
  have u: "unat (linear_sp c - 2) = unat (linear_sp c) - 2" "unat (linear_sp c - 1) = unat (linear_sp c) - 1"
    using assms(2) by (simp_all add: unat_sub_small word_le_nat_alt)
  then have lt: "linear_sp c - 2 < 0x100000" "linear_sp c - 1 < 0x100000"
    using assms(3) by (simp_all add: word_less_nat_alt)
  let ?c = "write_sssp (vm86_get_farptr (linear_sp c - 2)) c"
  obtain t where t: "vm86_push v (c, s) = Some (?c, t)" "load16 t (linear_sp c - 2) = Some v"
    "\<forall>a\<in>{..<0x100000}. a \<noteq> linear_sp c - 2 \<longrightarrow> a \<noteq> linear_sp c - 1 \<longrightarrow> load8 t a = load8 s a"
    using push_effect[OF assms(1), of c v] lt by auto
  have sp: "linear_sp ?c = linear_sp c - 2" using lt by simp
  have "vm86_pop (?c, t) = Some (v, write_sssp (vm86_get_farptr (linear_sp ?c + 2)) ?c, t)"
    using t(2) by (intro pop_effect) (simp add: sp)
  then show ?thesis using t sp assms(3) by auto
qed

text \<open>A task that runs at \<open>0x500\<close>, before paging is switched on.\<close>

definition example_cpu :: cpu_state where
  "example_cpu = \<lparr>gs = 0, fs = 0, es = 0, ds = 0,
     r = \<lparr>edi = 0, esi = 0, ebp = 0, esp = 0, ebx = 0, edx = 0, ecx = 0, eax = 0\<rparr>, intr = 0xD, error = 0,
     eip = 0x500, cs = 0, eflags = 0x20202, user_esp = 0x1503, user_ss = 0, vm86_es = 0, vm86_ds = 0,
     vm86_fs = 0, vm86_gs = 0\<rparr>"

lemma flat_plain: "flat plain_mm A"
  using flat_plain_mm unfolding flat_def by (auto intro: inj_on_subset)

lemma example_linear: "linear_sp example_cpu = 0x1503" "linear_ip example_cpu = 0x500"
  by (simp_all add: linear_sp_def linear_ip_def sssp_def csip_def example_cpu_def vm86_get_address_def)

theorem vm86_push_pop_witness:
  "\<exists>c t c'. vm86_push 0x1234 (example_cpu, plain_mm) = Some (c, t) \<and> vm86_pop (c, t) = Some (0x1234, c', t)"
  using vm86_push_pop[OF flat_plain, of example_cpu "0x1234"] unfolding example_linear by auto


subsection \<open>Interrupts\<close>

lemma sub_bounds:
  assumes "k \<le> unat (a :: ptr)"
  shows "unat (a - of_nat k) = unat a - k"
proof -
  have "k < 2 ^ 32" using assms unat_bound[of a] by simp
  then have "unat (of_nat k :: ptr) = k" by (intro unat_of_nat_small) simp
  then show ?thesis using assms by (simp add: unat_sub_small)
qed

text \<open>Three words on the stack, as \<^verbatim>\<open>INT\<close> leaves them.\<close>

lemma push_three:
  assumes "flat s {..<0x100000}" "6 \<le> unat (linear_sp c)" "linear_sp c < 0x100000"
  shows "\<exists>t. do { (c, s) \<leftarrow> vm86_push x (c, s); (c, s) \<leftarrow> vm86_push y (c, s); vm86_push z (c, s) } =
      Some (write_sssp (vm86_get_farptr (linear_sp c - 6)) c, t) \<and>
    load16 t (linear_sp c - 6) = Some z \<and> load16 t (linear_sp c - 4) = Some y \<and> load16 t (linear_sp c - 2) = Some x \<and>
    flat t {..<0x100000} \<and>
    (\<forall>a<0x100000. unat a < unat (linear_sp c) - 6 \<or> unat (linear_sp c) \<le> unat a \<longrightarrow> load8 t a = load8 s a)"
proof -
  let ?p = "linear_sp c"
  let ?A = "{..<0x100000} :: ptr set"
  have u: "unat (?p - of_nat k) = unat ?p - k" if "k \<le> 6" for k using that assms(2) by (intro sub_bounds) simp
  have u': "unat (?p - 1) = unat ?p - 1" "unat (?p - 2) = unat ?p - 2" "unat (?p - 3) = unat ?p - 3"
    "unat (?p - 4) = unat ?p - 4" "unat (?p - 5) = unat ?p - 5" "unat (?p - 6) = unat ?p - 6"
    using u[of 1] u[of 2] u[of 3] u[of 4] u[of 5] u[of 6] by simp_all
  have p: "unat ?p < 1048576" using assms(3) by (simp add: word_less_nat_alt)
  have A: "a \<in> ?A \<longleftrightarrow> unat a < 1048576" for a by (simp add: word_less_nat_alt)
  have ne: "a \<noteq> b \<longleftrightarrow> unat a \<noteq> unat b" for a b :: ptr by (simp add: word_unat_eq_iff)
  have A': "?p - k \<in> ?A" if "k \<in> {1, 2, 3, 4, 5, 6}" for k using that p u' unfolding A by auto
  let ?c1 = "write_sssp (vm86_get_farptr (?p - 2)) c"
  obtain t1 where 1: "vm86_push x (c, s) = Some (?c1, t1)" "flat t1 ?A" "load16 t1 (?p - 2) = Some x"
    "\<forall>a\<in>?A. a \<noteq> ?p - 2 \<longrightarrow> a \<noteq> ?p - 1 \<longrightarrow> load8 t1 a = load8 s a"
    using push_effect[OF assms(1), of c x] A'[of 1] A'[of 2] by auto
  have p1: "linear_sp ?c1 = ?p - 2" using A'[of 2] by simp
  let ?c2 = "write_sssp (vm86_get_farptr (?p - 4)) ?c1"
  obtain t2 where 2: "vm86_push y (?c1, t1) = Some (?c2, t2)" "flat t2 ?A" "load16 t2 (?p - 4) = Some y"
    "\<forall>a\<in>?A. a \<noteq> ?p - 4 \<longrightarrow> a \<noteq> ?p - 3 \<longrightarrow> load8 t2 a = load8 t1 a"
    using push_effect[OF 1(2), of ?c1 y] A'[of 3] A'[of 4] unfolding p1 by (auto simp: diff_diff_eq)
  have p2: "linear_sp ?c2 = ?p - 4" using A'[of 4] by simp
  let ?c3 = "write_sssp (vm86_get_farptr (?p - 6)) ?c2"
  obtain t3 where 3: "vm86_push z (?c2, t2) = Some (?c3, t3)" "flat t3 ?A" "load16 t3 (?p - 6) = Some z"
    "\<forall>a\<in>?A. a \<noteq> ?p - 6 \<longrightarrow> a \<noteq> ?p - 5 \<longrightarrow> load8 t3 a = load8 t2 a"
    using push_effect[OF 2(2), of ?c2 z] A'[of 5] A'[of 6] unfolding p2 by (auto simp: diff_diff_eq)
  have s1: "?p - 4 + 1 = ?p - 3" "?p - 2 + 1 = ?p - 1" by simp_all
  have "load16 t3 (?p - 4) = load16 t2 (?p - 4)"
    by (rule load16_cong) (use 3(4) A'[of 4] A'[of 3] u' assms(2) in \<open>auto simp: s1 ne\<close>)
  moreover have "load16 t3 (?p - 2) = load16 t1 (?p - 2)"
    by (rule load16_cong) (use 3(4) 2(4) A'[of 2] A'[of 1] u' assms(2) in \<open>auto simp: s1 ne\<close>)
  moreover have "load8 t3 a = load8 s a" if "a \<in> ?A" "unat a < unat ?p - 6 \<or> unat ?p \<le> unat a" for a
  proof -
    have "a \<noteq> ?p - k" if "k \<in> {1, 2, 3, 4, 5, 6}" for k
      using that \<open>unat a < unat ?p - 6 \<or> unat ?p \<le> unat a\<close> u' assms(2) unfolding ne by auto
    then show ?thesis using 1(4) 2(4) 3(4) that(1) by simp
  qed
  moreover have "write_sssp (vm86_get_farptr (?p - 6)) ?c2 = write_sssp (vm86_get_farptr (?p - 6)) c"
    by (simp add: write_sssp_def set_low_twice)
  ultimately show ?thesis using 1(1) 2(1,3) 1(3) 3 by auto
qed

lemma linear_field [simp]: "linear_sp (c\<lparr>eip := x\<rparr>) = linear_sp c" "linear_sp (c\<lparr>cs := y\<rparr>) = linear_sp c"
  by (simp_all add: linear_sp_def sssp_def)

lemma ucast_u16: "ucast (ucast (x :: u16) :: u32) = x"
  by (rule bit_word_eqI) (simp add: bit_simps)

text \<open>\<^verbatim>\<open>IRET\<close> takes the instruction pointer and the code segment from the stack and drops the flags.\<close>

lemma iret_effect:
  assumes "load16 t p = Some (offset ret)" "load16 t (p + 2) = Some (segment ret)" "load16 t (p + 4) = Some f"
    and "linear_sp c = p" "p + 2 < 0x100000" "p + 4 < 0x100000" "p + 6 < 0x100000"
  shows "\<exists>c'. emulate_iret (c, t) = Some (c', t) \<and> linear_ip c' = vm86_get_address ret \<and> linear_sp c' = p + 6"
proof -
  let ?c1 = "(write_sssp (vm86_get_farptr (p + 2)) c)\<lparr>eip := ucast (offset ret)\<rparr>"
  let ?c2 = "(write_sssp (vm86_get_farptr (p + 4)) ?c1)\<lparr>cs := segment ret\<rparr>"
  have sp: "linear_sp ?c1 = p + 2" "linear_sp ?c2 = p + 4" using assms(5,6) by simp_all
  have 1: "vm86_pop (c, t) = Some (offset ret, write_sssp (vm86_get_farptr (p + 2)) c, t)"
    using pop_effect[of t c] assms(1,4) by simp
  have 2: "vm86_pop (?c1, t) = Some (segment ret, write_sssp (vm86_get_farptr (p + 4)) ?c1, t)"
    using pop_effect[of t ?c1 "segment ret"] assms(2) unfolding sp by (simp add: add.assoc)
  have 3: "vm86_pop (?c2, t) = Some (f, write_sssp (vm86_get_farptr (p + 6)) ?c2, t)"
    using pop_effect[of t ?c2 f] assms(3) unfolding sp by (simp add: add.assoc)
  have "linear_ip ?c2 = vm86_get_address ret"
    by (simp add: linear_ip_def csip_def write_sssp_def ucast_u16 vm86_get_address_def)
  then show ?thesis using 1 2 3 assms(7) by (simp add: emulate_iret_def)
qed

text \<open>The far pointer an interrupt vector holds, when it can be read.\<close>

definition ivt_entry :: "'a mm_scheme \<Rightarrow> u8 \<Rightarrow> vm86_farptr option" where
  "ivt_entry s n = do { off \<leftarrow> load16 s (4 * ucast n); seg \<leftarrow> load16 s (4 * ucast n + 2);
     Some \<lparr>offset = off, segment = seg\<rparr> }"

lemma ivt_address: "unat (4 * ucast (n :: u8) + of_nat k :: ptr) = 4 * unat n + k" if "k < 4"
proof -
  have n: "unat (ucast n :: ptr) = unat n" "unat n < 256"
    using unat_bound[of n] by (simp_all add: unsigned_ucast_eq take_bit_eq_mod)
  have "unat (4 * ucast n :: ptr) = 4 * unat n" using n by (subst unat_mult_small) simp_all
  moreover have "unat (of_nat k :: ptr) = k" using that by (intro unat_of_nat_small) simp
  ultimately show ?thesis using n that by (subst unat_add_small) simp_all
qed

text \<open>
  C18: \<^verbatim>\<open>INT n\<close> and the \<^verbatim>\<open>IRET\<close> of its handler. The monitor enters the handler that the interrupt vector table names with a return
  address on the stack; when an \<^verbatim>\<open>IRET\<close> is later emulated with the same stack address and memory, the task continues
  behind the \<^verbatim>\<open>INT\<close> with its old stack address. Only the six bytes below the stack pointer are written.
\<close>

theorem vm86_int_iret:
  assumes "flat s {..<0x100000}" "0x406 \<le> unat (linear_sp c)" "linear_sp c < 0x100000" "linear_ip c + 2 < 0x100000"
    and "load8 s (linear_ip c + 1) = Some n"
    and "linear_ip c + 1 < 0x100000" "unat (linear_ip c + 1) < unat (linear_sp c) - 6 \<or> unat (linear_sp c) \<le> unat (linear_ip c + 1)"
  shows "\<exists>c1 t h. ivt_entry s n = Some h \<and> emulate_int (c, s) = Some (c1, t) \<and> csip c1 = h \<and>
    linear_sp c1 = linear_sp c - 6 \<and>
    (\<forall>a<0x100000. unat a < unat (linear_sp c) - 6 \<or> unat (linear_sp c) \<le> unat a \<longrightarrow> load8 t a = load8 s a) \<and>
    (\<forall>c2. linear_sp c2 = linear_sp c - 6 \<longrightarrow> (\<exists>c3. emulate_iret (c2, t) = Some (c3, t) \<and>
       linear_ip c3 = linear_ip c + 2 \<and> linear_sp c3 = linear_sp c))"
proof -
  let ?p = "linear_sp c" and ?ret = "vm86_get_farptr (linear_ip c + 2)"
  have u6: "unat (?p - 6) = unat ?p - 6" "unat (?p - 4) = unat ?p - 4" "unat (?p - 2) = unat ?p - 2"
    using sub_bounds[of 6 ?p] sub_bounds[of 4 ?p] sub_bounds[of 2 ?p] assms(2) by simp_all
  have lt: "?p - 6 < 0x100000" "?p - 4 < 0x100000" "?p - 2 < 0x100000"
    using u6 assms(3) by (simp_all add: word_less_nat_alt)
  let ?c1 = "write_sssp (vm86_get_farptr (?p - 6)) c"
  obtain t where t: "do { (c, s) \<leftarrow> vm86_push (ucast (eflags c)) (c, s); (c, s) \<leftarrow> vm86_push (segment ?ret) (c, s);
      vm86_push (offset ?ret) (c, s) } = Some (?c1, t)"
    and w: "load16 t (?p - 6) = Some (offset ?ret)" "load16 t (?p - 4) = Some (segment ?ret)"
      "load16 t (?p - 2) = Some (ucast (eflags c))"
    and fl: "flat t {..<0x100000}"
    and same: "\<forall>a<0x100000. unat a < unat ?p - 6 \<or> unat ?p \<le> unat a \<longrightarrow> load8 t a = load8 s a"
    using push_three[OF assms(1) _ assms(3), of "ucast (eflags c)" "segment ?ret" "offset ?ret"] assms(2) by auto
  have n8: "load8 t (linear_ip c + 1) = Some n" using same assms(5-7) by auto
  have ivt: "load8 t (4 * ucast n + of_nat k) = load8 s (4 * ucast n + of_nat k)"
    "(4 * ucast n + of_nat k :: ptr) < 0x100000" if "k < 4" for k
    using same ivt_address[OF that, of n] that unat_bound[of n] assms(2) by (simp_all add: word_less_nat_alt)
  have a: "4 * ucast n + 2 + 1 = 4 * ucast n + (of_nat 3 :: ptr)" by simp
  have l16: "load16 t (4 * ucast n) = load16 s (4 * ucast n)" "load16 t (4 * ucast n + 2) = load16 s (4 * ucast n + 2)"
    using ivt(1)[of 0] ivt(1)[of 1] ivt(1)[of 2] ivt(1)[of 3] unfolding load16_def a by simp_all
  have def: "\<exists>b. load8 s (4 * ucast n + of_nat k) = Some b" if "k < 4" for k
    using ivt(2)[OF that] by (intro load8_flat[OF assms(1)]) simp
  obtain h where h: "ivt_entry s n = Some h"
    using def[of 0] def[of 1] def[of 2] def[of 3] unfolding ivt_entry_def load16_def a by auto
  then obtain off seg where hh: "load16 s (4 * ucast n) = Some off" "load16 s (4 * ucast n + 2) = Some seg"
    "h = \<lparr>offset = off, segment = seg\<rparr>"
    by (auto simp: ivt_entry_def split: bind_splits)
  have "emulate_int (c, s) = do { (c, s) \<leftarrow> do { (c, s) \<leftarrow> vm86_push (ucast (eflags c)) (c, s);
      (c, s) \<leftarrow> vm86_push (segment ?ret) (c, s); vm86_push (offset ?ret) (c, s) };
    n \<leftarrow> load8 s i; off \<leftarrow> load16 s (4 * ucast n); seg \<leftarrow> load16 s (4 * ucast n + 2);
    Some (write_csip \<lparr>offset = off, segment = seg\<rparr> c, s) }" if "i = linear_ip c + 1" for i
    by (simp add: that emulate_int_def linear_ip_def Let_def split_def)
  then have int: "emulate_int (c, s) = Some (write_csip h ?c1, t)"
    using n8 l16 hh refl unfolding t by simp
  have iret: "\<exists>c3. emulate_iret (c2, t) = Some (c3, t) \<and> linear_ip c3 = linear_ip c + 2 \<and> linear_sp c3 = ?p"
    if "linear_sp c2 = ?p - 6" for c2
    using iret_effect[of t "?p - 6" ?ret "ucast (eflags c)" c2] that w lt assms(3,4)
    by (simp add: get_address_farptr linear_ip_def[of c])
  show ?thesis using h int iret same lt by auto
qed

theorem vm86_int_iret_witness:
  "\<exists>c1 t c3. emulate_int (example_cpu, plain_mm) = Some (c1, t) \<and> linear_sp c1 = 0x14FD \<and>
     emulate_iret (c1, t) = Some (c3, t) \<and> linear_ip c3 = 0x502"
proof -
  obtain n where n: "load8 plain_mm 0x501 = Some n" using load8_flat[OF flat_plain_mm, of "0x501"] by auto
  show ?thesis
    using vm86_int_iret[OF flat_plain, of example_cpu n] n unfolding example_linear by simp blast
qed

subsection \<open>The instruction pointer\<close>

text \<open>
  Stepping over an instruction moves the linear instruction pointer on by its length, as long as that stays
  below 1 MiB. The code segment is recomputed and becomes a multiple of \<open>0x1000\<close>.
\<close>

lemma vm86_increment_eip_moves:
  assumes "linear_ip c + n < 0x100000"
  shows "linear_ip (vm86_increment_eip n c) = linear_ip c + n" "linear_sp (vm86_increment_eip n c) = linear_sp c"
    "unat (cs (vm86_increment_eip n c)) mod 0x1000 = 0"
  using assms farptr_parts(1)[OF assms]
  by (simp_all add: vm86_increment_eip_def linear_ip_def[symmetric]) (simp add: write_csip_def linear_ip_def)

end
