(* ===== verification/Output.thy ===== *)
theory Output
  imports Prelude
begin

unbundle bit_operations_syntax

text \<open>
  \<^verbatim>\<open>lib/io.c\<close> and \<^verbatim>\<open>hardware/io/output.c\<close>: formatted output and the text screen. The functions of \<^verbatim>\<open>lib/io.c\<close>
  are called with a function that puts one character; it is a parameter here too (\<open>sink\<close>, over any type of states),
  together with \<^verbatim>\<open>io_attr_stub\<close>. Strings are lists of bytes without the terminator, and \<open>strs\<close> gives the string at an
  address. Reading behind the terminator of a format or behind the last argument is \<open>None\<close>.
\<close>

record 's sink =
  sink_put :: "u8 \<Rightarrow> 's \<Rightarrow> u16 \<times> 's"
  sink_attr :: "u8 \<Rightarrow> 's \<Rightarrow> 's"

definition chars :: "string \<Rightarrow> u8 list" where
  "chars = map of_char"

definition IO_DEFAULT :: u8 where "IO_DEFAULT = 7"

subsection \<open>Strings and numbers\<close>

primrec io_putstr :: "'s sink \<Rightarrow> u8 list \<Rightarrow> 's \<Rightarrow> u16 \<times> 's" where
  "io_putstr io [] s = (0, s)"
| "io_putstr io (c # cs) s =
     (let (k, s) = sink_put io c s; (count, s) = io_putstr io cs s in (k + count, s))"

definition digits :: "u8 list" where
  "digits = chars ''0123456789ABCDEFGHIJKLMNOPQRSTUVWXYZ''"

text \<open>
  The loop that fills the buffer from its end and counts the padding down. The radix is at
  least 2 here, \<^verbatim>\<open>io_putint\<close> has checked it.
\<close>

function digit_loop :: "u32 \<Rightarrow> u8 \<Rightarrow> u8 \<Rightarrow> u8 list \<Rightarrow> u8 list \<times> u8" where
  "digit_loop n radix pad buf =
     (if n = 0 \<or> radix < 2 then (buf, pad)
      else digit_loop (n div ucast radix) radix (pad - 1) (digits ! unat (n mod ucast radix) # buf))"
  by pat_completeness auto
termination
proof (relation "measure (\<lambda>(n, radix, pad, buf). unat n)")
  fix n :: u32 and radix pad :: u8 and buf
  assume a: "\<not> (n = 0 \<or> radix < 2)"
  then have "2 \<le> unat radix" by (simp add: word_less_nat_alt)
  moreover have "unat (ucast radix :: u32) = unat radix"
    using unat_bound[of radix] by (simp add: unsigned_ucast_eq take_bit_eq_mod)
  ultimately have "unat (n div ucast radix) < unat n" using a by (simp add: unat_div unat_gt_0)
  then show "((n div ucast radix, radix, pad - 1, digits ! unat (n mod ucast radix) # buf), (n, radix, pad, buf))
    \<in> measure (\<lambda>(n, radix, pad, buf). unat n)" by simp
qed simp

declare digit_loop.simps [simp del]

primrec pad_loop :: "'s sink \<Rightarrow> nat \<Rightarrow> u8 \<Rightarrow> u16 \<Rightarrow> 's \<Rightarrow> u16 \<times> 's" where
  "pad_loop io 0 pad_char count s = (count, s)"
| "pad_loop io (Suc n) pad_char count s =
     (let (k, s) = sink_put io pad_char s in pad_loop io n pad_char (count + k) s)"

text \<open>\<open>pad\<close> is a signed byte: the padding loop runs while it is positive.\<close>

definition io_putint :: "'s sink \<Rightarrow> u32 \<Rightarrow> u8 \<Rightarrow> u8 \<Rightarrow> u8 \<Rightarrow> 's \<Rightarrow> u16 \<times> 's" where
  "io_putint io n radix pad pad_char s =
     (if radix < 2 \<or> 36 < radix then io_putstr io (chars ''radix invalid'') s
      else let (buf, pad) = (if n = 0 then (chars ''0'', pad - 1) else digit_loop n radix pad []);
               (count, s) = pad_loop io (nat (sint pad)) pad_char 0 s;
               (k, s) = io_putstr io buf s
           in (count + k, s))"

subsection \<open>Formats\<close>

definition IS_DIGIT :: "u8 \<Rightarrow> bool" where
  "IS_DIGIT c \<longleftrightarrow> of_char CHR ''0'' \<le> c \<and> c \<le> of_char CHR ''9''"

text \<open>The flags behind a percent sign: the padding character, the width and what follows them.\<close>

definition vprint_flags :: "u8 list \<Rightarrow> u8 \<times> u8 \<times> u8 list" where
  "vprint_flags cs =
     (let (pad_char, cs) = (case cs of c # r \<Rightarrow> if c = of_char CHR ''0'' then (of_char CHR ''0'', r) else (of_char CHR '' '', cs)
                            | [] \<Rightarrow> (of_char CHR '' '', cs));
          pad = foldl (\<lambda>pad c. pad * 10 + (c - of_char CHR ''0'')) 0 (takeWhile IS_DIGIT cs)
      in (pad_char, pad, dropWhile IS_DIGIT cs))"

text \<open>The \<^verbatim>\<open>switch\<close>; it yields what is added to the count, the remaining arguments and the state.\<close>

definition vprint_convert ::
  "'s sink \<Rightarrow> (ptr \<Rightarrow> u8 list) \<Rightarrow> u8 \<Rightarrow> u8 \<Rightarrow> u8 \<Rightarrow> u32 list \<Rightarrow> 's \<Rightarrow> (u16 \<times> u32 list \<times> 's) option" where
  "vprint_convert io strs c pad_char pad args s =
     (let number = (\<lambda>radix. case args of [] \<Rightarrow> None
            | n # args \<Rightarrow> let (k, s) = io_putint io n radix pad pad_char s in Some (k, args, s))
      in if c = of_char CHR ''d'' then
           (case args of [] \<Rightarrow> None
            | n # args \<Rightarrow>
                let (n, pad, s) = (if n AND 0x80000000 \<noteq> 0
                      then (- n, pad - 1, snd (sink_put io (of_char CHR ''-'') s)) else (n, pad, s));
                    (k, s) = io_putint io n 10 pad pad_char s
                in Some (k, args, s))
         else if c = of_char CHR ''u'' then number 10
         else if c = of_char CHR ''x'' then number 16
         else if c = of_char CHR ''b'' then number 2
         else if c = of_char CHR ''o'' then number 8
         else if c = of_char CHR ''c'' then
           (case args of [] \<Rightarrow> None | n # args \<Rightarrow> let (k, s) = sink_put io (ucast n) s in Some (k, args, s))
         else if c = of_char CHR ''s'' then
           (case args of [] \<Rightarrow> None | n # args \<Rightarrow> let (k, s) = io_putstr io (strs n) s in Some (k, args, s))
         else if c = of_char CHR ''a'' then Some (0, args, sink_attr io (if pad = 0 then IO_DEFAULT else pad) s)
         else if c = of_char CHR ''%'' then let (k, s) = sink_put io (of_char CHR ''%'') s in Some (k, args, s)
         else Some (0, args, s))"

lemma vprint_flags_length: "vprint_flags cs = (pad_char, pad, rest) \<Longrightarrow> length rest \<le> length cs"
  by (auto simp: vprint_flags_def Let_def split: list.splits if_splits intro: le_SucI le_trans[OF length_dropWhile_le])

function vprint_loop ::
  "'s sink \<Rightarrow> (ptr \<Rightarrow> u8 list) \<Rightarrow> u8 list \<Rightarrow> u32 list \<Rightarrow> u16 \<Rightarrow> 's \<Rightarrow> (u16 \<times> 's) option" where
  "vprint_loop io strs [] args count s = Some (count, s)"
| "vprint_loop io strs (c # cs) args count s =
     (if c \<noteq> of_char CHR ''%'' then let (k, s) = sink_put io c s in vprint_loop io strs cs args (count + k) s
      else case vprint_flags cs of (pad_char, pad, rest) \<Rightarrow>
        (case rest of
           [] \<Rightarrow> None
         | c # rest \<Rightarrow>
             (case vprint_convert io strs c pad_char pad args s of
                None \<Rightarrow> None
              | Some (k, args, s) \<Rightarrow> vprint_loop io strs rest args (count + k) s)))"
  by pat_completeness auto
termination
  by (relation "measure (\<lambda>(io, strs, fmt, args, count, s). length fmt)")
    (auto dest!: sym[of _ "vprint_flags _"] vprint_flags_length)

definition vprint :: "'s sink \<Rightarrow> (ptr \<Rightarrow> u8 list) \<Rightarrow> u8 list \<Rightarrow> u32 list \<Rightarrow> 's \<Rightarrow> (u16 \<times> 's) option" where
  "vprint io strs fmt args s = vprint_loop io strs fmt args 0 s"

definition println :: "'s sink \<Rightarrow> (ptr \<Rightarrow> u8 list) \<Rightarrow> u8 list \<Rightarrow> u32 list \<Rightarrow> 's \<Rightarrow> (u16 \<times> 's) option" where
  "println io strs fmt args s =
     do { (count, s) \<leftarrow> vprint io strs fmt args s;
          let (k, s) = sink_put io (of_char CHR ''\<newline>'') s;
          Some (count + k, s) }"

subsection \<open>The screen\<close>

definition IO_COLS :: u32 where "IO_COLS = 80"
definition IO_ROWS :: u32 where "IO_ROWS = 25"
definition IO_CHARS :: u32 where "IO_CHARS = IO_COLS * IO_ROWS"
definition IO_COORD :: "u32 \<Rightarrow> u32 \<Rightarrow> u32" where "IO_COORD x y = y * IO_COLS + x"
definition IO_LEN :: nat where "IO_LEN = 4000"
definition TAG_LENGTH :: u16 where "TAG_LENGTH = 8"

text \<open>
  \<open>video\<close> are the bytes at the address \<^verbatim>\<open>video\<close>; an access outside the \<^verbatim>\<open>IO_LEN\<close> bytes that are mapped there is no
  access to the screen. \<open>debug_out\<close> is what went to the debug port of the emulator.
\<close>

record console =
  video :: "nat \<Rightarrow> u8"
  console_attr :: u8
  console_cursor :: u32
  logging_enabled :: bool
  debug_out :: "u8 list"

definition io_setchar :: "u8 \<Rightarrow> u32 \<Rightarrow> console \<Rightarrow> console" where
  "io_setchar c pos s = s\<lparr>video := (video s)(unat ((pos mod IO_CHARS) * 2) := c)\<rparr>"

definition io_setattr :: "u8 \<Rightarrow> u32 \<Rightarrow> console \<Rightarrow> console" where
  "io_setattr a pos s = s\<lparr>video := (video s)(unat ((pos mod IO_CHARS) * 2 + 1) := a)\<rparr>"

definition io_attr :: "u8 \<Rightarrow> console \<Rightarrow> u8 \<times> console" where
  "io_attr new_attr s = (console_attr s, s\<lparr>console_attr := new_attr\<rparr>)"

definition io_cursor :: "u32 \<Rightarrow> console \<Rightarrow> u32 \<times> console" where
  "io_cursor new_cursor s =
     (console_cursor s, if 0 \<le> sint new_cursor then s\<lparr>console_cursor := new_cursor\<rparr> else s)"

definition io_putchar :: "u8 \<Rightarrow> console \<Rightarrow> u16 \<times> console" where
  "io_putchar c s =
     (1, if c = of_char CHR ''\<newline>''
         then s\<lparr>console_cursor := console_cursor s + IO_COLS - console_cursor s mod IO_COLS\<rparr>
         else let s = io_setattr (console_attr s) (console_cursor s) (io_setchar c (console_cursor s) s)
              in s\<lparr>console_cursor := (console_cursor s + 1) mod IO_CHARS\<rparr>)"

primrec io_clear_loop :: "(u8 \<Rightarrow> console \<Rightarrow> u16 \<times> console) \<Rightarrow> nat \<Rightarrow> console \<Rightarrow> console" where
  "io_clear_loop putchar 0 s = s"
| "io_clear_loop putchar (Suc n) s = io_clear_loop putchar n (snd (putchar 0 s))"

definition io_clear :: "(u8 \<Rightarrow> console \<Rightarrow> u16 \<times> console) \<Rightarrow> console \<Rightarrow> console" where
  "io_clear putchar s = io_clear_loop putchar (unat IO_CHARS) (snd (io_cursor 0 s))"

definition io_set_logging :: "bool \<Rightarrow> console \<Rightarrow> console" where
  "io_set_logging enabled s = s\<lparr>logging_enabled := enabled\<rparr>"

definition bochs_log :: "u8 \<Rightarrow> console \<Rightarrow> u16 \<times> console" where
  "bochs_log c s = (1, s\<lparr>debug_out := debug_out s @ [c]\<rparr>)"

text \<open>The two places characters go to; \<^verbatim>\<open>lib_init\<close> installs \<^verbatim>\<open>io_putchar\<close> and \<^verbatim>\<open>io_attr\<close> in the kernel.\<close>

definition screen :: "console sink" where
  "screen = \<lparr>sink_put = io_putchar, sink_attr = (\<lambda>a s. snd (io_attr a s))\<rparr>"

definition debug_port :: "console sink" where
  "debug_port = \<lparr>sink_put = bochs_log, sink_attr = (\<lambda>a s. snd (io_attr a s))\<rparr>"

definition print :: "(ptr \<Rightarrow> u8 list) \<Rightarrow> u8 list \<Rightarrow> u32 list \<Rightarrow> console \<Rightarrow> (u16 \<times> console) option" where
  "print = vprint screen"

text \<open>
  The operands of the sums in \<^verbatim>\<open>log\<close> and \<^verbatim>\<open>logln\<close> have effects; they are evaluated from left to right, one of the
  orders the language allows.
\<close>

text \<open>\<^verbatim>\<open>log\<close> and \<^verbatim>\<open>logln\<close>; \<open>tag\<close> is the address of the tag or 0. \<^verbatim>\<open>bochs_log\<close> returns 1, so the padding loop
  runs until the count exceeds \<^verbatim>\<open>TAG_LENGTH\<close>.\<close>

function log_pad :: "u16 \<Rightarrow> console \<Rightarrow> u16 \<times> console" where
  "log_pad count s =
     (if count \<le> TAG_LENGTH then let (k, s) = bochs_log (of_char CHR '' '') s in log_pad (count + k) s else (count, s))"
  by pat_completeness auto
termination
proof (relation "measure (\<lambda>(count, s). 9 - unat count)")
  have "9 - unat (count + 1) < 9 - unat count" if "count \<le> TAG_LENGTH" for count :: u16
    using that unat_add_small[of count 1] by (simp add: word_le_nat_alt TAG_LENGTH_def)
  then show "count \<le> TAG_LENGTH \<Longrightarrow> x = bochs_log (of_char CHR '' '') s \<Longrightarrow> (k, t) = x \<Longrightarrow>
    ((count + k, t), (count, s)) \<in> measure (\<lambda>(count, s). 9 - unat count)" for count k :: u16 and s t x
    by (simp add: bochs_log_def)
qed simp

definition log :: "(ptr \<Rightarrow> u8 list) \<Rightarrow> ptr \<Rightarrow> u8 list \<Rightarrow> u32 list \<Rightarrow> console \<Rightarrow> (u16 \<times> console) option" where
  "log strs tag fmt args s =
     (if \<not> logging_enabled s then Some (0, s)
      else if tag = 0 then vprint debug_port strs fmt args s
      else do {
        (count, s) \<leftarrow> vprint debug_port strs (chars ''[%s'') (tag # args) s;
        let (count, s) = log_pad count s;
        (k, s) \<leftarrow> vprint debug_port strs (chars ''] '') (tag # args) s;
        (l, s) \<leftarrow> vprint debug_port strs fmt args s;
        Some (count + k + l, s) })"

definition logln :: "(ptr \<Rightarrow> u8 list) \<Rightarrow> ptr \<Rightarrow> u8 list \<Rightarrow> u32 list \<Rightarrow> console \<Rightarrow> (u16 \<times> console) option" where
  "logln strs tag fmt args s =
     (if \<not> logging_enabled s then Some (0, s)
      else do { (count, s) \<leftarrow> log strs tag fmt args s;
                let (k, s) = bochs_log (of_char CHR ''\<newline>'') s;
                Some (count + k, s) })"

subsection \<open>Sinks\<close>

text \<open>
  What the library relies on: putting a character yields 1. Then everything it prints is a text that is put character
  by character, and the count it returns is the length of the text.
\<close>

definition put_all :: "'s sink \<Rightarrow> u8 list \<Rightarrow> 's \<Rightarrow> 's" where
  "put_all io cs s = fold (\<lambda>c s. snd (sink_put io c s)) cs s"

lemma put_all_simps [simp]:
  "put_all io [] s = s" "put_all io (c # cs) s = put_all io cs (snd (sink_put io c s))"
  "put_all io (cs @ ds) s = put_all io ds (put_all io cs s)"
  by (simp_all add: put_all_def)

text \<open>The digits of a number, most significant first.\<close>

fun nat_digits :: "nat \<Rightarrow> nat \<Rightarrow> nat list" where
  "nat_digits b n = (if n = 0 \<or> b < 2 then [] else nat_digits b (n div b) @ [n mod b])"

declare nat_digits.simps [simp del]

lemma nat_digits_0 [simp]: "nat_digits b 0 = []"
  by (subst nat_digits.simps) simp

lemma nat_digits_value: "2 \<le> b \<Longrightarrow> foldl (\<lambda>v d. v * b + d) 0 (nat_digits b n) = n"
proof (induction b n rule: nat_digits.induct)
  case (1 b n)
  then show ?case by (cases "n = 0") (simp_all add: nat_digits.simps[of b n])
qed

lemma nat_digits_bound: "2 \<le> b \<Longrightarrow> list_all (\<lambda>d. d < b) (nat_digits b n)"
proof (induction b n rule: nat_digits.induct)
  case (1 b n)
  then show ?case by (cases "n = 0") (simp_all add: nat_digits.simps[of b n])
qed

lemma nat_digits_Nil: "2 \<le> b \<Longrightarrow> nat_digits b n = [] \<longleftrightarrow> n = 0"
  by (simp add: nat_digits.simps[of b n])

lemma nat_digits_hd: "2 \<le> b \<Longrightarrow> n \<noteq> 0 \<Longrightarrow> hd (nat_digits b n) \<noteq> 0"
proof (induction b n rule: nat_digits.induct)
  case (1 b n)
  show ?case
  proof (cases "n div b = 0")
    case True
    have "n mod b < b" using "1.prems"(1) by simp
    then have "n < b" using True div_mult_mod_eq[of n b] by simp
    then have "nat_digits b n = [n]" unfolding nat_digits.simps[of b n] using "1.prems" True by simp
    then show ?thesis using "1.prems" by simp
  next
    case False
    then have "nat_digits b (n div b) \<noteq> []" using nat_digits_Nil[OF "1.prems"(1)] by simp
    moreover have "nat_digits b n = nat_digits b (n div b) @ [n mod b]"
      using "1.prems" by (simp add: nat_digits.simps[of b n])
    ultimately show ?thesis using 1 False by (simp add: hd_append)
  qed
qed

lemma nat_digits_length: "2 \<le> b \<Longrightarrow> n < 2 ^ k \<Longrightarrow> length (nat_digits b n) \<le> k"
proof (induction k arbitrary: n)
  case 0
  then show ?case by simp
next
  case (Suc k)
  show ?case
  proof (cases "n = 0")
    case False
    have "n div b \<le> n div 2" using Suc.prems(1) by (intro div_le_mono2) simp_all
    also have "n div 2 < 2 ^ k" using Suc.prems(2) by (simp add: less_mult_imp_div_less)
    finally have "length (nat_digits b (n div b)) \<le> k" using Suc.IH Suc.prems(1) by blast
    then show ?thesis using False by (simp add: nat_digits.simps[of b n])
  qed simp
qed

lemma digit_loop_0 [simp]: "digit_loop 0 radix pad buf = (buf, pad)"
  by (subst digit_loop.simps) simp

lemma digit_loop_eq:
  "2 \<le> radix \<Longrightarrow> digit_loop n radix pad buf =
     (map (nth digits) (nat_digits (unat radix) (unat n)) @ buf, pad - of_nat (length (nat_digits (unat radix) (unat n))))"
proof (induction n radix pad buf rule: digit_loop.induct)
  case (1 n radix pad buf)
  have r: "2 \<le> unat radix" "\<not> radix < 2" "unat (ucast radix :: u32) = unat radix"
    using "1.prems" unat_bound[of radix]
    by (simp_all add: word_le_nat_alt not_less unsigned_ucast_eq take_bit_eq_mod)
  show ?case
  proof (cases "n = 0")
    case True
    then show ?thesis by simp
  next
    case False
    then have "nat_digits (unat radix) (unat n) =
        nat_digits (unat radix) (unat (n div ucast radix)) @ [unat (n mod ucast radix)]"
      using r by (simp add: nat_digits.simps[of _ "unat n"] unat_div unat_mod unat_eq_0)
    then show ?thesis using 1 False r(2) by (simp add: digit_loop.simps[of n])
  qed
qed

text \<open>The text of a number.\<close>

definition number_digits :: "u32 \<Rightarrow> u8 \<Rightarrow> nat list" where
  "number_digits n radix = (if n = 0 then [0] else nat_digits (unat radix) (unat n))"

definition number_text :: "u32 \<Rightarrow> u8 \<Rightarrow> u8 \<Rightarrow> u8 \<Rightarrow> u8 list" where
  "number_text n radix pad pad_char =
     (let ds = number_digits n radix
      in replicate (nat (sint pad) - length ds) pad_char @ map (nth digits) ds)"

lemma number_digits_length: "2 \<le> radix \<Longrightarrow> length (number_digits n radix) \<le> 32"
  using nat_digits_length[of "unat radix" "unat n" 32] unat_bound[of n]
  by (simp add: number_digits_def word_le_nat_alt)

lemma sint_byte: "- 128 \<le> k \<Longrightarrow> k < 128 \<Longrightarrow> sint (word_of_int k :: u8) = k"
  by (simp add: signed_of_int signed_take_bit_int_eq_self)

lemma sint_sub_nat:
  assumes "k \<le> 32" "- 96 \<le> sint (pad :: u8)"
  shows "nat (sint (pad - of_nat k)) = nat (sint pad) - k"
proof -
  have b: "sint pad < 128" using sint_lt[of pad] by simp
  have "sint (pad - of_nat k) = sint pad - int k"
  proof -
    have "word_of_int (sint pad - int k) = (word_of_int (sint pad) :: u8) - word_of_int (int k)"
      by (rule wi_hom_sub[symmetric])
    then have "pad - of_nat k = word_of_int (sint pad - int k)" by (metis of_int_of_nat_eq of_int_sint scast_id)
    then show ?thesis using assms b by (simp only:) (rule sint_byte, simp_all)
  qed
  then show ?thesis by simp
qed

locale char_sink =
  fixes io :: "'s sink"
  assumes put_one: "fst (sink_put io c s) = 1"
begin

lemma putstr_text: "io_putstr io cs s = (of_nat (length cs), put_all io cs s)"
  by (induction cs arbitrary: s) (simp_all add: Let_def split_def put_one)

lemma pad_text: "pad_loop io n c k s = (k + of_nat n, put_all io (replicate n c) s)"
  by (induction n arbitrary: k s) (simp_all add: Let_def split_def put_one)

lemma putint_text:
  assumes "2 \<le> radix" "radix \<le> 36" "- 96 \<le> sint pad"
  shows "io_putint io n radix pad pad_char s =
    (of_nat (length (number_text n radix pad pad_char)), put_all io (number_text n radix pad pad_char) s)"
proof -
  let ?ds = "number_digits n radix"
  have "(if n = 0 then (chars ''0'', pad - 1) else digit_loop n radix pad []) =
      (map (nth digits) ?ds, pad - of_nat (length ?ds))"
    using digit_loop_eq[OF assms(1), of n pad "[]"]
    by (simp add: number_digits_def chars_def digits_def)
  then show ?thesis
    using assms sint_sub_nat[OF number_digits_length[OF assms(1)] assms(3), of n]
    by (simp add: io_putint_def Let_def putstr_text pad_text number_text_def not_less[symmetric])
qed

end

interpretation on_screen: char_sink screen
  by unfold_locales (simp add: screen_def io_putchar_def)

interpretation on_debug: char_sink debug_port
  by unfold_locales (simp add: debug_port_def bochs_log_def)

lemma put_all_debug: "put_all debug_port cs s = s\<lparr>debug_out := debug_out s @ cs\<rparr>"
  by (induction cs arbitrary: s) (simp_all add: debug_port_def bochs_log_def)

text \<open>
  C30: Printing a number. For every radix from 2 to 36 the output is the number in positional notation, without leading
  zeroes: read back, the digits give the number. At most 32 digits are produced, so the buffer of 33 bytes is never overrun.
  The digits are filled up on the left to the width that was asked for, and the result is the number of characters put.
\<close>

theorem io_putint_roundtrip:
  assumes "2 \<le> radix" "radix \<le> 36" "- 96 \<le> sint pad"
  shows "\<exists>ds. list_all (\<lambda>d. d < unat radix) ds \<and> foldl (\<lambda>v d. v * unat radix + d) 0 ds = unat n \<and>
    length ds \<le> 32 \<and> (ds = [0] \<or> ds \<noteq> [] \<and> hd ds \<noteq> 0) \<and>
    (let text = replicate (nat (sint pad) - length ds) pad_char @ map (nth digits) ds
     in io_putint debug_port n radix pad pad_char s = (of_nat (length text), s\<lparr>debug_out := debug_out s @ text\<rparr>))"
proof (intro exI conjI)
  let ?ds = "number_digits n radix"
  have r: "2 \<le> unat radix" using assms(1) by (simp add: word_le_nat_alt)
  show "list_all (\<lambda>d. d < unat radix) ?ds" using nat_digits_bound[OF r] r by (simp add: number_digits_def)
  show "foldl (\<lambda>v d. v * unat radix + d) 0 ?ds = unat n" using nat_digits_value[OF r] by (simp add: number_digits_def)
  show "length ?ds \<le> 32" by (rule number_digits_length[OF assms(1)])
  show "?ds = [0] \<or> ?ds \<noteq> [] \<and> hd ?ds \<noteq> 0"
    using nat_digits_hd[OF r, of "unat n"] nat_digits_Nil[OF r, of "unat n"] by (simp add: number_digits_def unat_eq_0)
  show "let text = replicate (nat (sint pad) - length ?ds) pad_char @ map (nth digits) ?ds
     in io_putint debug_port n radix pad pad_char s = (of_nat (length text), s\<lparr>debug_out := debug_out s @ text\<rparr>)"
    unfolding Let_def on_debug.putint_text[OF assms] put_all_debug by (simp add: number_text_def Let_def)
qed

text \<open>A console that has printed nothing.\<close>

definition example_console :: console where
  "example_console = \<lparr>video = (\<lambda>_. 0), console_attr = 7, console_cursor = 1999, logging_enabled = True, debug_out = []\<rparr>"

theorem io_putint_roundtrip_witness:
  "\<exists>ds. foldl (\<lambda>v d. v * 16 + d) 0 ds = 0xBEEF \<and>
     snd (io_putint debug_port 0xBEEF 16 8 48 example_console) = example_console\<lparr>debug_out := replicate (8 - length ds) 48 @ map (nth digits) ds\<rparr>"
  using io_putint_roundtrip[of 16 8 "0xBEEF" 48 example_console] by (auto simp: Let_def example_console_def)

subsection \<open>Text on the screen\<close>

text \<open>How far cell \<open>q\<close> is behind cell \<open>p\<close> in the order in which the screen is filled.\<close>

definition cell_distance :: "nat \<Rightarrow> nat \<Rightarrow> nat" where
  "cell_distance p q = (q + 2000 - p) mod 2000"

lemma cell_distance_less: "p < 2000 \<Longrightarrow> q < 2000 \<Longrightarrow> cell_distance p q = (if p \<le> q then q - p else q + 2000 - p)"
  by (auto simp: cell_distance_def mod_if)

lemma cell_distance_next:
  assumes "p < 2000" "q < 2000"
  shows "cell_distance ((p + 1) mod 2000) q = (if q = p then 1999 else cell_distance p q - 1)"
    "q \<noteq> p \<Longrightarrow> 0 < cell_distance p q"
  using assms by (auto simp: cell_distance_less mod_if)

lemma unat_cell:
  assumes "a < 2"
  shows "unat ((pos mod IO_CHARS) * 2 + of_nat a) = 2 * (unat pos mod 2000) + a"
proof -
  have m: "unat (pos mod IO_CHARS) = unat pos mod 2000" by (simp add: unat_mod IO_CHARS_def IO_COLS_def IO_ROWS_def)
  have "unat pos mod 2000 < 2000" by simp
  then have "unat ((pos mod IO_CHARS) * 2) = 2 * (unat pos mod 2000)"
    using m by (subst unat_mult_small) simp_all
  moreover have "unat (of_nat a :: u32) = a" using assms by (intro unat_of_nat_small) simp
  ultimately show ?thesis using \<open>unat pos mod 2000 < 2000\<close> assms by (subst unat_add_small) simp_all
qed

lemma putchar_screen:
  assumes "c \<noteq> 10" "unat (console_cursor s) + 1 < 2 ^ 32"
  defines "p \<equiv> unat (console_cursor s) mod 2000"
  shows "video (snd (io_putchar c s)) = (video s)(2 * p := c, 2 * p + 1 := console_attr s)"
    "unat (console_cursor (snd (io_putchar c s))) = (p + 1) mod 2000"
    "console_attr (snd (io_putchar c s)) = console_attr s"
proof -
  have nl: "c \<noteq> of_char CHR ''\<newline>''" using assms(1) by simp
  show "video (snd (io_putchar c s)) = (video s)(2 * p := c, 2 * p + 1 := console_attr s)"
    using nl unat_cell[of 0] unat_cell[of 1]
    by (simp add: io_putchar_def Let_def io_setattr_def io_setchar_def p_def)
  show "unat (console_cursor (snd (io_putchar c s))) = (p + 1) mod 2000"
    using nl assms(2) by (simp add: io_putchar_def Let_def io_setattr_def io_setchar_def unat_mod unat_add_small
        IO_CHARS_def IO_COLS_def IO_ROWS_def p_def mod_Suc_eq)
  show "console_attr (snd (io_putchar c s)) = console_attr s"
    by (simp add: io_putchar_def Let_def io_setattr_def io_setchar_def)
qed

lemma put_all_screen:
  assumes "10 \<notin> set cs" "length cs \<le> 2000" "unat (console_cursor s) + 1 < 2 ^ 32"
  defines "p \<equiv> unat (console_cursor s) mod 2000"
  shows "video (put_all screen cs s) k =
      (if k < 4000 \<and> cell_distance p (k div 2) < length cs
       then if even k then cs ! cell_distance p (k div 2) else console_attr s else video s k) \<and>
    (cs \<noteq> [] \<longrightarrow> unat (console_cursor (put_all screen cs s)) = (p + length cs) mod 2000) \<and>
    console_attr (put_all screen cs s) = console_attr s"
  using assms(1-3) unfolding p_def
proof (induction cs arbitrary: s)
  case (Cons c cs)
  let ?p = "unat (console_cursor s) mod 2000" and ?s = "snd (io_putchar c s)" and ?q = "k div 2"
  have "c \<noteq> 10" using Cons.prems(1) by simp
  note s = putchar_screen[OF this Cons.prems(3)]
  have p: "?p < 2000" by simp
  have cur: "unat (console_cursor ?s) mod 2000 = (?p + 1) mod 2000" "unat (console_cursor ?s) + 1 < 2 ^ 32"
    using s(2) mod_less_divisor[of 2000 "?p + 1"] by simp_all
  have put: "put_all screen (c # cs) s = put_all screen cs ?s" by (simp add: screen_def)
  have IH: "video (put_all screen cs ?s) k =
      (if k < 4000 \<and> cell_distance ((?p + 1) mod 2000) ?q < length cs
       then if even k then cs ! cell_distance ((?p + 1) mod 2000) ?q else console_attr s else video ?s k)"
    "cs \<noteq> [] \<Longrightarrow> unat (console_cursor (put_all screen cs ?s)) = ((?p + 1) mod 2000 + length cs) mod 2000"
    "console_attr (put_all screen cs ?s) = console_attr s"
    using Cons.IH[of ?s] Cons.prems(1,2) cur s(3) by simp_all
  have "video (put_all screen cs ?s) k =
      (if k < 4000 \<and> cell_distance ?p ?q < length (c # cs)
       then if even k then (c # cs) ! cell_distance ?p ?q else console_attr s else video s k)"
  proof (cases "k < 4000")
    case True
    then have q: "?q < 2000" by simp
    note d = cell_distance_next[OF p q]
    show ?thesis
    proof (cases "?q = ?p")
      case True
      then have "cell_distance ?p ?q = 0" using p by (simp add: cell_distance_less)
      moreover have "video ?s k = (if even k then c else console_attr s)"
      proof (cases "even k")
        case even: True
        then have "k = 2 * ?p" using True by (metis dvd_mult_div_cancel)
        then show ?thesis using even s(1) by simp
      next
        case False
        then have "k = 2 * ?p + 1" using True by (metis odd_two_times_div_two_succ)
        then show ?thesis using False s(1) by simp
      qed
      ultimately show ?thesis using IH(1) d True \<open>k < 4000\<close> Cons.prems(2) by simp
    next
      case False
      then have "k \<noteq> 2 * ?p" "k \<noteq> 2 * ?p + 1" by auto
      then have "video ?s k = video s k" using s(1) by simp
      then show ?thesis using IH(1) d False \<open>k < 4000\<close> by (cases "cell_distance ?p ?q") simp_all
    qed
  next
    case False
    then have "k \<noteq> 2 * ?p" "k \<noteq> 2 * ?p + 1" using p by auto
    then show ?thesis using IH(1) False s(1) by simp
  qed
  moreover have "unat (console_cursor (put_all screen cs ?s)) = (?p + length (c # cs)) mod 2000"
  proof (cases "cs = []")
    case False
    have "((?p + 1) mod 2000 + length cs) mod 2000 = (?p + 1 + length cs) mod 2000" by (rule mod_add_left_eq)
    then show ?thesis using IH(2)[OF False] by (simp only: list.size) (simp only: add.assoc add.commute[of "Suc 0"] One_nat_def)
  qed (use s(2) in simp)
  ultimately show ?case using IH(3) unfolding put by simp
qed simp

text \<open>
  Printing a string on the screen. A string without line breaks that fits on the screen appears, in the current
  attribute, in the cells from the cursor on, continuing at the top left corner; the cursor ends
  behind it, no other cell changes and nothing is written outside the 4000 bytes of video memory.
\<close>

theorem io_putstr_on_screen:
  assumes "10 \<notin> set cs" "length cs \<le> 2000" "cs \<noteq> []" "unat (console_cursor s) + 1 < 2 ^ 32"
  shows "\<exists>t. io_putstr screen cs s = (of_nat (length cs), t) \<and>
    unat (console_cursor t) = (unat (console_cursor s) + length cs) mod 2000 \<and>
    (\<forall>k. video t k = (let d = cell_distance (unat (console_cursor s) mod 2000) (k div 2)
       in if k < 4000 \<and> d < length cs then if even k then cs ! d else console_attr s else video s k))"
  using put_all_screen[OF assms(1,2,4)] assms(3) by (simp add: on_screen.putstr_text mod_simps Let_def)

theorem io_putstr_on_screen_witness:
  "\<exists>t. io_putstr screen (chars ''ab'') example_console = (2, t) \<and> unat (console_cursor t) = 1 \<and>
     video t 3998 = 97 \<and> video t 3999 = 7 \<and> video t 0 = 98"
proof -
  have "\<exists>t. io_putstr screen (chars ''ab'') example_console = (of_nat (length (chars ''ab'')), t) \<and>
    unat (console_cursor t) = (unat (console_cursor example_console) + length (chars ''ab'')) mod 2000 \<and>
    (\<forall>k. video t k = (let d = cell_distance (unat (console_cursor example_console) mod 2000) (k div 2)
       in if k < 4000 \<and> d < length (chars ''ab'') then if even k then chars ''ab'' ! d else console_attr example_console
          else video example_console k))"
    by (rule io_putstr_on_screen) (simp_all add: chars_def example_console_def)
  then show ?thesis by (auto simp: chars_def example_console_def cell_distance_def Let_def)
qed

end
