(* ===== verification/Interrupts.thy ===== *)
theory Interrupts
  imports ELF PS2 VM86 Output
begin

unbundle bit_operations_syntax

text \<open>
  \<^verbatim>\<open>interrupts/isr.c\<close> and \<^verbatim>\<open>interrupts/syscall.c\<close>: the table of handlers, the dispatch of interrupts and of system
  calls. Here the components meet: the state \<open>kernel\<close> extends the memory and task state by the clock, the
  PS/2 drivers, the screen and the two tables. A function pointer in a table is the name of the function. The
  CPU state of an interrupt is passed by its address, which is also the stack pointer that \<^verbatim>\<open>isr_common\<close> loads afterwards.
  What the handlers print on the screen is left out, \<open>None\<close> is a panic.
\<close>

datatype isr_handler =
    pit_handle_interrupt | ps2_interrupt | vm86_gpf | mmu_handle_page_fault | isr_syscall

datatype syscall = SYSCALL_EXIT | SYSCALL_GETPID | SYSCALL_IO_PUTCHAR | SYSCALL_IO_ATTR

definition syscall_id :: "syscall \<Rightarrow> nat" where
  "syscall_id c = (case c of SYSCALL_EXIT \<Rightarrow> 0 | SYSCALL_GETPID \<Rightarrow> 1 | SYSCALL_IO_PUTCHAR \<Rightarrow> 2 | SYSCALL_IO_ATTR \<Rightarrow> 3)"

definition IDT_ENTRIES :: nat where "IDT_ENTRIES = 256"
definition SYSCALL_NUMBER :: nat where "SYSCALL_NUMBER = 32"
definition ISR_SYSCALL :: nat where "ISR_SYSCALL = 0x30"
definition ISR_IRQ :: "nat \<Rightarrow> nat" where "ISR_IRQ irq = 0x20 + irq"
definition ISR_EXCEPTION :: "nat \<Rightarrow> nat" where "ISR_EXCEPTION ex = ex"

definition IS_EXCEPTION :: "u32 \<Rightarrow> bool" where "IS_EXCEPTION n \<longleftrightarrow> n \<le> 0x1F"
definition IS_IRQ :: "u32 \<Rightarrow> bool" where "IS_IRQ n \<longleftrightarrow> 0x20 \<le> n \<and> n \<le> 0x2F"
definition IS_SYSCALL :: "u32 \<Rightarrow> bool" where "IS_SYSCALL n \<longleftrightarrow> n = 0x30"

text \<open>\<open>'w\<close> is the type of hardware states; \<open>pic_out\<close> are the writes to the interrupt controllers.\<close>

record 'w kernel = os +
  k_handlers :: "nat \<Rightarrow> isr_handler option"
  k_syscalls :: "nat \<Rightarrow> syscall option"
  k_pit :: pit
  k_ps2 :: "'w ps2"
  k_console :: console
  pic_out :: outs

definition isr_register_handler :: "nat \<Rightarrow> isr_handler \<Rightarrow> ('w, 'a) kernel_scheme \<Rightarrow> ('w, 'a) kernel_scheme" where
  "isr_register_handler n h s =
     (if IDT_ENTRIES \<le> n then s else s\<lparr>k_handlers := (k_handlers s)(n \<mapsto> h)\<rparr>)"

definition isr_register_syscall :: "nat \<Rightarrow> syscall \<Rightarrow> ('w, 'a) kernel_scheme \<Rightarrow> ('w, 'a) kernel_scheme" where
  "isr_register_syscall i c s =
     (if SYSCALL_NUMBER \<le> i then s else s\<lparr>k_syscalls := (k_syscalls s)(i \<mapsto> c)\<rparr>)"

definition syscall_init :: "('w, 'a) kernel_scheme \<Rightarrow> ('w, 'a) kernel_scheme" where
  "syscall_init s = fold (\<lambda>c. isr_register_syscall (syscall_id c) c)
     [SYSCALL_EXIT, SYSCALL_GETPID, SYSCALL_IO_PUTCHAR, SYSCALL_IO_ATTR] s"

definition isr_init :: "('w, 'a) kernel_scheme \<Rightarrow> ('w, 'a) kernel_scheme" where
  "isr_init s = snd (isr_enable_interrupts True (syscall_init (isr_register_handler ISR_SYSCALL isr_syscall s)))"

text \<open>The registrations that the initialisation of the other components makes.\<close>

definition mmu_init :: "('w, 'a) kernel_scheme \<Rightarrow> ('w, 'a) kernel_scheme" where
  "mmu_init = isr_register_handler (ISR_EXCEPTION 0x0E) mmu_handle_page_fault"

definition vm86_init :: "('w, 'a) kernel_scheme \<Rightarrow> ('w, 'a) kernel_scheme" where
  "vm86_init = isr_register_handler (ISR_EXCEPTION 0x0D) vm86_gpf"

definition pit_register :: "('w, 'a) kernel_scheme \<Rightarrow> ('w, 'a) kernel_scheme" where
  "pit_register = isr_register_handler (ISR_IRQ 0) pit_handle_interrupt"

definition ps2_register :: "('w, 'a) kernel_scheme \<Rightarrow> ('w, 'a) kernel_scheme" where
  "ps2_register s = isr_register_handler (ISR_IRQ 12) ps2_interrupt (isr_register_handler (ISR_IRQ 1) ps2_interrupt s)"

subsection \<open>System calls\<close>

text \<open>
  \<^verbatim>\<open>syscall_exit\<close> only warns when no other task is running. It returns no value; \<open>junk\<close> is what its caller
  finds in EAX, and in the upper part of EAX behind a function that returns 8 or 16 bits.
\<close>

definition syscall_exit :: "'w kernel \<Rightarrow> (ptr \<times> 'w kernel) option" where
  "syscall_exit s =
     do { let current = schedule_get_current_task s;
          next_task \<leftarrow> schedule_get_next_task s;
          s \<leftarrow> task_stop current s;
          schedule_switch_task next_task s }"

definition syscall_getpid :: "'w kernel \<Rightarrow> u32" where
  "syscall_getpid s = of_nat (schedule_get_current_task s)"

definition run_syscall :: "u32 \<Rightarrow> syscall \<Rightarrow> u32 \<Rightarrow> ptr \<Rightarrow> 'w kernel \<Rightarrow> (u32 \<times> ptr \<times> 'w kernel) option" where
  "run_syscall junk c b cpu s =
     (case c of
        SYSCALL_EXIT \<Rightarrow> do { (cpu, s) \<leftarrow> syscall_exit s; Some (junk, cpu, s) }
      | SYSCALL_GETPID \<Rightarrow> Some (syscall_getpid s, cpu, s)
      | SYSCALL_IO_PUTCHAR \<Rightarrow>
          let (k, con) = io_putchar (ucast b) (k_console s) in Some (junk AND NOT 0xFFFF OR ucast k, cpu, s\<lparr>k_console := con\<rparr>)
      | SYSCALL_IO_ATTR \<Rightarrow>
          let (a, con) = io_attr (ucast b) (k_console s) in Some (junk AND NOT 0xFF OR ucast a, cpu, s\<lparr>k_console := con\<rparr>))"

definition isr_handle_syscall :: "u32 \<Rightarrow> ptr \<Rightarrow> 'w kernel \<Rightarrow> (ptr \<times> 'w kernel) option" where
  "isr_handle_syscall junk cpu s =
     (let regs = r (cpu_store s cpu)
      in if unat (eax regs) < SYSCALL_NUMBER then
           (case k_syscalls s (unat (eax regs)) of
              None \<Rightarrow> Some (cpu, s)
            | Some c \<Rightarrow>
                do { (ret, cpu', s) \<leftarrow> run_syscall junk c (ebx regs) cpu s;
                     Some (cpu', if cpu' = cpu
                       then s\<lparr>cpu_store := (cpu_store s)(cpu := (cpu_store s cpu)\<lparr>r := (r (cpu_store s cpu))\<lparr>eax := ret\<rparr>\<rparr>)\<rparr>
                       else s) })
         else Some (cpu, s))"

subsection \<open>Dispatch\<close>

text \<open>
  The monitor for virtual 8086 mode leaves a task with \<^verbatim>\<open>sys_exit(0)\<close>, an interrupt within the interrupt; its CPU
  state lies on the same kernel stack, so the nested call ends with the switch to the next task.
\<close>

definition run_handler ::
  "'w ps2_hw \<Rightarrow> 'w ports \<Rightarrow> u32 \<Rightarrow> isr_handler \<Rightarrow> ptr \<Rightarrow> 'w kernel \<Rightarrow> (ptr \<times> 'w kernel) option" where
  "run_handler hw io junk h cpu s =
     (case h of
        pit_handle_interrupt \<Rightarrow> do { p \<leftarrow> pit_tick (k_pit s); schedule cpu (s\<lparr>k_pit := p\<rparr>) }
      | ps2_interrupt \<Rightarrow>
          do { p \<leftarrow> ps2_handle_interrupt hw (intr (cpu_store s cpu)) (k_ps2 s); Some (cpu, s\<lparr>k_ps2 := p\<rparr>) }
      | vm86_gpf \<Rightarrow>
          do { m \<leftarrow> vm86_handle_gpf io cpu s (world (k_ps2 s));
               case m of
                 Not_VM86 \<Rightarrow> None
               | Exits \<Rightarrow> syscall_exit s
               | Emulated (s, w) \<Rightarrow> Some (cpu, s\<lparr>k_ps2 := (k_ps2 s)\<lparr>world := w\<rparr>\<rparr>) }
      | mmu_handle_page_fault \<Rightarrow> None
      | isr_syscall \<Rightarrow> isr_handle_syscall junk cpu s)"

definition isr_handle_interrupt ::
  "'w ps2_hw \<Rightarrow> 'w ports \<Rightarrow> u32 \<Rightarrow> ptr \<Rightarrow> 'w kernel \<Rightarrow> (ptr \<times> 'w kernel) option" where
  "isr_handle_interrupt hw io junk cpu s =
     (let n = intr (cpu_store s cpu)
      in do {
        (cpu, s) \<leftarrow> (case k_handlers s (unat n) of
             Some h \<Rightarrow> run_handler hw io junk h cpu s
           | None \<Rightarrow> if IS_EXCEPTION n then None else Some (cpu, s));
        Some (cpu, if IS_IRQ n then s\<lparr>pic_out := pic_out s @ pic_send_eoi (ucast n)\<rparr> else s) })"

subsection \<open>What the handlers leave alone\<close>

text \<open>Two states have the same tasks if the table and the state of every task structure agree.\<close>

definition same_tasks :: "'a os_scheme \<Rightarrow> 'a os_scheme \<Rightarrow> bool" where
  "same_tasks s t \<longleftrightarrow> tasks t = tasks s \<and> (\<forall>x. task_state (task_store t x) = task_state (task_store s x))"

lemma same_tasks_refl [simp]: "same_tasks s s"
  by (simp add: same_tasks_def)

lemma same_tasks_trans [trans]: "same_tasks s t \<Longrightarrow> same_tasks t u \<Longrightarrow> same_tasks s u"
  by (simp add: same_tasks_def)

lemma same_tasks_in_state: "same_tasks s t \<Longrightarrow> in_state t = in_state s"
  by (auto simp: same_tasks_def in_state_def fun_eq_iff)

lemma task_update_same:
  assumes "task_update p f s = Some t" "\<And>x. task_state (f x) = task_state x"
  shows "same_tasks s t" "os.more t = os.more s" "current_task t = current_task s"
  using assms by (auto simp: task_update_def same_tasks_def split: if_splits)

lemma task_set_same:
  "task_set_ticks p n s = Some (m, t) \<Longrightarrow> same_tasks s t \<and> os.more t = os.more s \<and> current_task t = current_task s"
  "task_set_cpu p cpu s = Some t \<Longrightarrow> same_tasks s t \<and> os.more t = os.more s \<and> current_task t = current_task s"
  using task_update_same[of p "\<lambda>t. t\<lparr>task_ticks := n\<rparr>" s t] task_update_same[of p "\<lambda>t. t\<lparr>task_cpu := cpu\<rparr>" s t]
  by (auto simp: task_set_ticks_def task_set_cpu_def split: bind_splits)

lemma switch_task_same:
  assumes "schedule_switch_task p s = Some (cpu, t)"
  shows "same_tasks s t" "os.more t = os.more s" "current_task t = p"
proof -
  obtain c old s2 dir s3 dirold where
    t: "task_set_ticks p (ticks_per_time_slice s) (s\<lparr>tss := tss_set_stack (c + CPU_STATE_SIZE) (tss s)\<rparr>) = Some (old, s2)"
    and l: "vmm_load_page_directory dir s2 = Some (dirold, s3)" and e: "t = s3\<lparr>current_task := p\<rparr>"
    using assms unfolding schedule_switch_task_def Let_def by (auto split: bind_splits)
  note o = more_os[OF keeps_fields(1)[OF keeps_load_directory[OF l]]]
  show "same_tasks s t" "os.more t = os.more s" "current_task t = p"
    using task_set_same(1)[OF t] o e by (auto simp: same_tasks_def)
qed

lemma schedule_same:
  assumes "schedule cpu s = Some (cpu', t)"
  shows "same_tasks s t" "os.more t = os.more s"
    "current_task t = current_task s \<or> schedule_get_next_task s = Some (current_task t) \<and> current_task t \<noteq> 0"
proof -
  obtain n where n: "schedule_get_next_task s = Some n" using assms by (auto simp: schedule_def split: bind_splits)
  have "same_tasks s t \<and> os.more t = os.more s \<and> (current_task t = current_task s \<or> current_task t = n \<and> n \<noteq> 0)"
  proof (cases "n = 0 \<or> current_task s = 0")
    case True
    then show ?thesis using assms n by (auto simp: schedule_def split: if_splits dest: switch_task_same)
  next
    case False
    then obtain old u where u: "task_set_ticks (current_task s) (case task_get_ticks s (current_task s) of Some k \<Rightarrow> k - 1) s = Some (old, u)"
      "(if 1 < old then Some (cpu, u) else do { s \<leftarrow> task_set_cpu (current_task u) cpu u;
          if current_task s = n then Some (cpu, s) else schedule_switch_task n s }) = Some (cpu', t)"
      using assms n by (auto simp: schedule_def split: bind_splits)
    note 1 = task_set_same(1)[OF u(1)]
    show ?thesis
    proof (cases "1 < old")
      case True
      then show ?thesis using u(2) 1 by simp
    next
      case f: False
      then obtain v where v: "task_set_cpu (current_task u) cpu u = Some v"
        "(if current_task v = n then Some (cpu, v) else schedule_switch_task n v) = Some (cpu', t)"
        using u(2) by (auto split: bind_splits)
      have 2: "same_tasks s v" "os.more v = os.more s" "current_task v = current_task s"
        using 1 task_set_same(2)[OF v(1)] same_tasks_trans by auto
      show ?thesis
      proof (cases "current_task v = n")
        case True
        then show ?thesis using v(2) 2 by simp
      next
        case False
        then have "schedule_switch_task n v = Some (cpu', t)" using v(2) by simp
        from switch_task_same[OF this] show ?thesis using 2 \<open>\<not> (n = 0 \<or> current_task s = 0)\<close> same_tasks_trans by auto
      qed
    qed
  qed
  then show "same_tasks s t" "os.more t = os.more s"
    "current_task t = current_task s \<or> schedule_get_next_task s = Some (current_task t) \<and> current_task t \<noteq> 0"
    using n by auto
qed

text \<open>The monitor changes only memory and the CPU state it was given.\<close>

lemma keeps_store16 [keeps_intros]: "store16 a v s = Some t \<Longrightarrow> keeps s t"
  unfolding store16_def by (auto split: bind_splits dest!: keeps_store8 intro: keeps_trans)

lemma vm86_stack_keeps [keeps_intros]:
  "vm86_push v (c, s) = Some (c', t) \<Longrightarrow> keeps s t" "vm86_pop (c, s) = Some (v', c', t) \<Longrightarrow> keeps s t"
  by (auto simp: vm86_push_def vm86_pop_def Let_def split: bind_splits dest: keeps_store16)

lemma emulate_int_keeps [keeps_intros]: "emulate_int (c, s) = Some (c', t) \<Longrightarrow> keeps s t"
  unfolding emulate_int_def Let_def by (auto split: bind_splits dest!: vm86_stack_keeps) (meson keeps_trans)

lemma emulate_iret_keeps [keeps_intros]: "emulate_iret (c, s) = Some (c', t) \<Longrightarrow> keeps s t"
  unfolding emulate_iret_def by (auto split: bind_splits dest!: vm86_stack_keeps) (meson keeps_trans)

lemma emulate_keeps: "emulate io opcode (c, s) w = Some (Emulated ((c', t), w')) \<Longrightarrow> keeps s t"
  unfolding emulate_def Let_def
  by (auto simp: case_in_def case_out_def Let_def split: if_splits bind_splits prod.splits dest!: keeps_intros)

lemma monitor_emulated:
  assumes "vm86_handle_gpf io cpu s w = Some (Emulated (t, w'))"
  shows "same_tasks s t" "os.more t = os.more s" "current_task t = current_task s"
proof -
  obtain op c u where u: "emulate io op (cpu_store s cpu, s) w = Some (Emulated ((c, u), w'))"
    "t = u\<lparr>cpu_store := (cpu_store u)(cpu := c)\<rparr>"
    using assms
    by (auto simp: vm86_handle_gpf_def vm86_monitor_def Let_def split: bind_splits monitored.splits if_splits prod.splits)
  note o = more_os[OF keeps_fields(1)[OF emulate_keeps[OF u(1)]]]
  show "same_tasks s t" "os.more t = os.more s" "current_task t = current_task s"
    using o u(2) by (auto simp: same_tasks_def)
qed

lemma exit_effect:
  assumes "syscall_exit s = Some (cpu, t)"
  shows "\<exists>n. schedule_get_next_task s = Some n \<and> current_task t = n \<and> tasks s (current_task s) \<noteq> 0 \<and> tasks t = tasks s \<and>
    (\<forall>x. task_state (task_store t x) = (if x = tasks s (current_task s) then TASK_STOPPED else task_state (task_store s x))) \<and>
    os.more t = os.more s"
proof -
  obtain n u where n: "schedule_get_next_task s = Some n"
    and u: "task_update (current_task s) (\<lambda>t. t\<lparr>task_state := TASK_STOPPED\<rparr>) s = Some u"
    and t: "schedule_switch_task n u = Some (cpu, t)"
    using assms by (auto simp: syscall_exit_def Let_def schedule_get_current_task_def task_stop_def split: bind_splits)
  have m: "os.more u = os.more s" using u by (auto simp: task_update_def split: if_splits)
  show ?thesis
    using n task_update_fields[OF u] switch_task_same[OF t] m by (auto simp: same_tasks_def)
qed

text \<open>The fields of the dispatcher itself.\<close>

lemma kernel_more:
  assumes "os.more t = os.more s"
  shows "k_handlers t = k_handlers s" "k_syscalls t = k_syscalls s" "k_pit t = k_pit s" "k_ps2 t = k_ps2 s"
    "k_console t = k_console s" "pic_out t = pic_out s"
  using assms by (cases s; cases t; simp)+

text \<open>What can end the current task: the system call and \<^verbatim>\<open>INT 3\<close> in virtual 8086 mode.\<close>

definition may_exit :: "ptr \<Rightarrow> 'w kernel \<Rightarrow> bool" where
  "may_exit cpu s \<longleftrightarrow> (case k_handlers s (unat (intr (cpu_store s cpu))) of
      Some isr_syscall \<Rightarrow> k_syscalls s (unat (eax (r (cpu_store s cpu)))) = Some SYSCALL_EXIT
    | Some vm86_gpf \<Rightarrow> task_get_vm86 s (current_task s) = Some True
    | _ \<Rightarrow> False)"

text \<open>
  A transition either keeps all tasks as they are, and hands the processor at most to the next running
  task, or ends the current task and hands it on.
\<close>

inductive task_change :: "bool \<Rightarrow> 'a os_scheme \<Rightarrow> 'a os_scheme \<Rightarrow> bool" where
  keep: "same_tasks s t \<Longrightarrow> current_task t = current_task s \<Longrightarrow> task_change b s t"
| switch: "same_tasks s t \<Longrightarrow> schedule_get_next_task s = Some (current_task t) \<Longrightarrow> current_task t \<noteq> 0 \<Longrightarrow> task_change b s t"
| leave: "tasks t = tasks s \<Longrightarrow> tasks s (current_task s) \<noteq> 0 \<Longrightarrow> schedule_get_next_task s = Some (current_task t) \<Longrightarrow>
    \<forall>x. task_state (task_store t x) = (if x = tasks s (current_task s) then TASK_STOPPED else task_state (task_store s x)) \<Longrightarrow>
    task_change True s t"

inductive_cases task_changeE: "task_change b s t"
inductive_simps task_change_kept: "task_change False s t"

lemma task_change_exit: "syscall_exit s = Some (cpu, t) \<Longrightarrow> task_change True s t"
  by (drule exit_effect) (auto intro: leave)

lemma task_change_schedule: "schedule cpu s = Some (cpu', t) \<Longrightarrow> task_change b s t"
  using schedule_same[of cpu s cpu' t] by (auto intro: keep switch)

text \<open>Only the tasks matter.\<close>

lemma task_next_loop_cong:
  assumes "tasks t = tasks s" "task_store t = task_store s"
  shows "task_next_loop s st p k = task_next_loop t st p k"
  using assms
proof (induction s st p k rule: task_next_loop.induct)
  case (1 s st p k)
  have g: "task_get_next_task t p = task_get_next_task s p" "task_get t q = task_get s q" for q
    using "1.prems" by (simp_all add: task_get_next_task_def task_get_def Let_def)
  let ?q = "task_get_next_task s p"
  have IH: "task_next_loop s st ?q (Suc k) = task_next_loop t st ?q (Suc k)"
    if "?q \<noteq> 0" "Suc k \<le> MAX_TASKS" "task_get s ?q = Some x" "task_state x \<noteq> st" for x
    using "1.IH"[OF refl that(1,2,3,4) "1.prems"] .
  show ?case
    using IH by (subst (1 2) task_next_loop.simps) (auto simp: g Let_def intro!: Option.bind_cong)
qed

lemma next_task_cong:
  "tasks t = tasks s \<Longrightarrow> task_store t = task_store s \<Longrightarrow> current_task t = current_task s \<Longrightarrow>
   schedule_get_next_task t = schedule_get_next_task s"
  by (simp add: schedule_get_next_task_def task_get_next_task_with_state_def task_next_loop_cong[of t s])

lemma task_change_cong:
  assumes "task_change b s t" "tasks s' = tasks s" "task_store s' = task_store s" "current_task s' = current_task s"
    and "tasks t' = tasks t" "task_store t' = task_store t" "current_task t' = current_task t"
  shows "task_change b s' t'"
  using assms(1)
proof cases
  case keep
  then show ?thesis using assms by (intro task_change.keep) (simp_all add: same_tasks_def)
next
  case switch
  then show ?thesis using assms next_task_cong[OF assms(2-4)]
    by (intro task_change.switch) (simp_all add: same_tasks_def)
next
  case leave
  then show ?thesis using assms next_task_cong[OF assms(2-4)]
    unfolding leave(1) by (intro task_change.leave) simp_all
qed

lemma run_handler_effect:
  assumes "run_handler hw io junk h cpu s = Some (cpu', t)" "k_handlers s (unat (intr (cpu_store s cpu))) = Some h"
  shows "task_change (may_exit cpu s) s t \<and> k_handlers t = k_handlers s \<and> k_syscalls t = k_syscalls s \<and>
    pic_out t = pic_out s"
proof (cases h)
  case pit_handle_interrupt
  then obtain p where "schedule cpu (s\<lparr>k_pit := p\<rparr>) = Some (cpu', t)"
    using assms(1) by (auto simp: run_handler_def split: bind_splits)
  then show ?thesis
    using task_change_cong[OF task_change_schedule, of cpu "s\<lparr>k_pit := p\<rparr>" cpu' t s t]
      kernel_more[OF schedule_same(2), of cpu "s\<lparr>k_pit := p\<rparr>" cpu' t] by simp
next
  case ps2_interrupt
  then show ?thesis using assms(1)
    by (auto simp: run_handler_def same_tasks_def split: bind_splits intro!: keep)
next
  case vm86_gpf
  then obtain m where m: "vm86_handle_gpf io cpu s (world (k_ps2 s)) = Some m" "m \<noteq> Not_VM86"
    using assms(1) by (auto simp: run_handler_def split: bind_splits monitored.splits)
  then have vm: "task_get_vm86 s (current_task s) = Some True"
    by (auto simp: vm86_handle_gpf_def vm86_monitor_def schedule_get_current_task_def split: bind_splits if_splits)
  then have ex: "may_exit cpu s" using assms(2) vm86_gpf by (simp add: may_exit_def)
  show ?thesis
  proof (cases m)
    case Not_VM86
    then show ?thesis using m by simp
  next
    case Exits
    then have e: "syscall_exit s = Some (cpu', t)" using assms(1) vm86_gpf m by (simp add: run_handler_def)
    then obtain "os.more t = os.more s" using exit_effect by blast
    then show ?thesis using ex task_change_exit[OF e] kernel_more by metis
  next
    case (Emulated x)
    obtain u w where x: "x = (u, w)" by force
    note e = monitor_emulated[OF m(1)[unfolded Emulated x]]
    have t: "t = u\<lparr>k_ps2 := (k_ps2 u)\<lparr>world := w\<rparr>\<rparr>"
      using assms(1) vm86_gpf m Emulated x by (simp add: run_handler_def)
    show ?thesis using e kernel_more[OF e(2)] t by (auto simp: same_tasks_def intro: keep)
  qed
next
  case mmu_handle_page_fault
  then show ?thesis using assms(1) by (simp add: run_handler_def)
next
  case isr_syscall
  let ?i = "unat (eax (r (cpu_store s cpu)))"
  show ?thesis
  proof (cases "?i < SYSCALL_NUMBER \<and> k_syscalls s ?i \<noteq> None")
    case False
    then show ?thesis using assms(1) isr_syscall
      by (auto simp: run_handler_def isr_handle_syscall_def Let_def split: if_splits option.splits intro: keep)
  next
    case True
    then obtain c where c: "k_syscalls s ?i = Some c" by blast
    then obtain ret u where u: "run_syscall junk c (ebx (r (cpu_store s cpu))) cpu s = Some (ret, cpu', u)"
      "t = (if cpu' = cpu then u\<lparr>cpu_store := (cpu_store u)(cpu := (cpu_store u cpu)\<lparr>r := (r (cpu_store u cpu))\<lparr>eax := ret\<rparr>\<rparr>)\<rparr> else u)"
      using assms(1) isr_syscall True by (auto simp: run_handler_def isr_handle_syscall_def Let_def split: bind_splits)
    have ex: "may_exit cpu s \<longleftrightarrow> c = SYSCALL_EXIT" using assms(2) isr_syscall c by (simp add: may_exit_def)
    show ?thesis
    proof (cases "c = SYSCALL_EXIT")
      case True
      then have e: "syscall_exit s = Some (cpu', u)" using u(1) by (auto simp: run_syscall_def split: bind_splits)
      have m: "os.more u = os.more s" using exit_effect[OF e] by blast
      have "task_change True s t" by (rule task_change_cong[OF task_change_exit[OF e]]) (simp_all add: u(2))
      then show ?thesis using True ex kernel_more[OF m] u(2) by simp
    next
      case False
      then have "same_tasks s t \<and> current_task t = current_task s \<and> k_handlers t = k_handlers s \<and>
        k_syscalls t = k_syscalls s \<and> pic_out t = pic_out s"
        using u by (cases c) (auto simp: run_syscall_def same_tasks_def split: prod.splits)
      then show ?thesis by (simp add: keep)
    qed
  qed
qed

lemma interrupt_effect:
  assumes "isr_handle_interrupt hw io junk cpu s = Some (cpu', t)"
  shows "task_change (may_exit cpu s) s t" "k_handlers t = k_handlers s" "k_syscalls t = k_syscalls s"
    "pic_out t = pic_out s @ (if IS_IRQ (intr (cpu_store s cpu)) then pic_send_eoi (ucast (intr (cpu_store s cpu))) else [])"
proof -
  let ?n = "intr (cpu_store s cpu)"
  obtain u where u: "(case k_handlers s (unat ?n) of Some h \<Rightarrow> run_handler hw io junk h cpu s
      | None \<Rightarrow> if IS_EXCEPTION ?n then None else Some (cpu, s)) = Some (cpu', u)"
    and t: "t = (if IS_IRQ ?n then u\<lparr>pic_out := pic_out u @ pic_send_eoi (ucast ?n)\<rparr> else u)"
    using assms by (auto simp: isr_handle_interrupt_def Let_def split: bind_splits)
  have "task_change (may_exit cpu s) s u \<and> k_handlers u = k_handlers s \<and> k_syscalls u = k_syscalls s \<and> pic_out u = pic_out s"
  proof (cases "k_handlers s (unat ?n)")
    case None
    then show ?thesis using u by (auto split: if_splits intro: keep)
  next
    case (Some h)
    then show ?thesis using u run_handler_effect[of hw io junk h cpu s cpu' u] by simp
  qed
  moreover from this have "task_change (may_exit cpu s) s t"
    by (intro task_change_cong[of "may_exit cpu s" s u s t]) (simp_all add: t)
  ultimately show "task_change (may_exit cpu s) s t" "k_handlers t = k_handlers s" "k_syscalls t = k_syscalls s"
    "pic_out t = pic_out s @ (if IS_IRQ ?n then pic_send_eoi (ucast ?n) else [])"
    by (simp_all add: t)
qed

lemma eoi_ports:
  assumes "IS_IRQ n"
  shows "pic_send_eoi (ucast n) = (if 0x28 \<le> n then [(PIC2_CMD, PIC_EOI)] else []) @ [(PIC1_CMD, PIC_EOI)]"
proof -
  have n: "32 \<le> unat n" "unat n \<le> 47" using assms by (simp_all add: IS_IRQ_def word_le_nat_alt)
  then have "uint (ucast n :: u8) = int (unat n)"
    by (simp add: uint_nat unsigned_ucast_eq take_bit_eq_mod del: of_nat_unat)
  moreover have "40 \<le> uint n \<longleftrightarrow> 40 \<le> unat n" by (simp add: uint_nat del: of_nat_unat)
  ultimately show ?thesis by (simp add: pic_send_eoi_def word_le_nat_alt)
qed


text \<open>
  The example machine after \<^verbatim>\<open>isr_init\<close>: tasks 1 and 3 are running, task 2 is stopped. The CPU state at
  \<open>0x600000\<close> requests the exit system call, the one at \<open>0x700000\<close> is interrupted by an unused line of the second controller.
\<close>

definition example_kernel :: "unit kernel" where
  "example_kernel = isr_init (vm86_init (mmu_init (os.extend
     (example_os\<lparr>cpu_store := (\<lambda>_. example_cpu)(0x600000 := example_cpu\<lparr>intr := 0x30\<rparr>, 0x700000 := example_cpu\<lparr>intr := 0x2A\<rparr>)\<rparr>)
     \<lparr>k_handlers = Map.empty, k_syscalls = Map.empty, k_pit = pit_start 50,
      k_ps2 = \<lparr>world = (), init_done = False, port2_supported = True, ps2_err = PS2_NO_ERR, kb = keyboard_start, ms = mouse_start False\<rparr>,
      k_console = example_console, pic_out = []\<rparr>)))"

lemma example_kernel_tables:
  "k_handlers example_kernel = [0x30 \<mapsto> isr_syscall, 0x0D \<mapsto> vm86_gpf, 0x0E \<mapsto> mmu_handle_page_fault]"
  "k_syscalls example_kernel = [0 \<mapsto> SYSCALL_EXIT, 1 \<mapsto> SYSCALL_GETPID, 2 \<mapsto> SYSCALL_IO_PUTCHAR, 3 \<mapsto> SYSCALL_IO_ATTR]"
  "pic_out example_kernel = []" "k_ps2 example_kernel = k_ps2 example_kernel"
  by (auto simp: example_kernel_def isr_init_def syscall_init_def vm86_init_def mmu_init_def isr_register_handler_def
      isr_register_syscall_def IDT_ENTRIES_def SYSCALL_NUMBER_def ISR_SYSCALL_def ISR_EXCEPTION_def syscall_id_def os.defs fun_eq_iff)

lemma example_kernel_os:
  "tasks example_kernel = tasks example_os" "task_store example_kernel = task_store example_os"
  "current_task example_kernel = 1" "intr (cpu_store example_kernel 0x600000) = 0x30"
  "intr (cpu_store example_kernel 0x700000) = 0x2A" "eax (r (cpu_store example_kernel 0x600000)) = 0"
  "cr3 example_kernel = 0x1000" "page_directory example_kernel = VMM_PAGEDIR"
  by (simp_all add: example_kernel_def isr_init_def syscall_init_def vm86_init_def mmu_init_def isr_register_handler_def
      isr_register_syscall_def IDT_ENTRIES_def SYSCALL_NUMBER_def ISR_SYSCALL_def ISR_EXCEPTION_def syscall_id_def os.defs
      example_os_def example_cpu_def)

text \<open>Hardware that answers 0 to everything.\<close>

definition quiet_hw :: "unit ps2_hw" where
  "quiet_hw = \<lparr>inb = (\<lambda>_ w. (0, w)), outb = (\<lambda>_ _ w. w), ticks_now = (\<lambda>_. 0), timer_freq = 50\<rparr>"

definition quiet_ports :: "unit ports" where
  "quiet_ports = \<lparr>port_in = (\<lambda>_ _ w. (0, w)), port_out = (\<lambda>_ _ _ w. w)\<rparr>"


subsection \<open>Leaving a task\<close>



end
