(* ===== verification/Kernel.thy ===== *)
theory Kernel
  imports Interrupts
begin

unbundle bit_operations_syntax

text \<open>
  The kernel as a transition system over the entry points that change its tasks: the common interrupt handler of \<^verbatim>\<open>isr.c\<close> (with
  the scheduler, the drivers, the system calls and the virtual 8086 monitor behind it), the finalization loop of the main
  task, and the creation of kernel, user, ELF and virtual 8086 tasks. The invariant is that the processor is always with a
  running task.
\<close>

subsection \<open>Creating tasks\<close>

text \<open>\<open>adds_task s t p s'\<close>: the structure at \<open>t\<close> is a new running task in the slot \<open>p\<close>; all others are as before.\<close>

definition adds_task :: "'a os_scheme \<Rightarrow> ptr \<Rightarrow> pid \<Rightarrow> 'a os_scheme \<Rightarrow> bool" where
  "adds_task s t p s' \<longleftrightarrow> 1 \<le> p \<and> p < MAX_TASKS \<and> tasks s p = 0 \<and> tasks s' = (tasks s)(p := t) \<and>
     task_state (task_store s' t) = TASK_RUNNING \<and> (\<forall>x. x \<noteq> t \<longrightarrow> task_store s' x = task_store s x) \<and>
     current_task s' = current_task s"

lemma create_detailed_adds:
  assumes "task_create_detailed entry dir klen ulen elf cseg dseg s = Some (p, s')"
  shows "\<exists>t. adds_task s t p s'"
  using create_detailed_effect[OF assms] by (auto simp: adds_task_def Let_def)

lemma adds_task_more:
  assumes "adds_task u t p s'" "mm.more u = mm.more s"
  shows "adds_task s t p s'"
  using assms(1) more_os[OF assms(2)] by (simp add: adds_task_def)

lemma elf_create_adds:
  assumes "elf_create_task elf klen ulen s = Some (p, s')" "elf \<noteq> 0"
  shows "\<exists>t. adds_task s t p s'"
proof -
  obtain dir u entry v w where d: "vmm_create_page_directory (s\<lparr>eflags_if := False\<rparr>) = Some (dir, u)"
    and l: "elf_load elf dir u = Some (entry, v)"
    and c: "task_create_user entry dir klen ulen elf v = Some (p, w)" and s': "s' = w\<lparr>eflags_if := eflags_if s\<rparr>"
    using assms by (auto simp: elf_create_task_def Let_def split: bind_splits)
  have m: "mm.more v = mm.more s" using keeps_fields(1)[OF keeps_create_directory[OF d]] elf_load_more[OF l] by simp
  obtain t where a: "adds_task v t p w" using create_detailed_adds[OF c[unfolded task_create_user_def]] by blast
  have "adds_task s t p w" by (rule adds_task_more[OF a m])
  then have "adds_task s t p s'" using s' by (simp add: adds_task_def)
  then show ?thesis by blast
qed

lemma vm86_create_adds:
  assumes "vm86_create_task code_start code_end dir klen ulen regs s = Some (p, s')"
  shows "\<exists>t. adds_task s t p s'"
proof -
  obtain t s1 dir' s2 s3 s4 s5 ks s6 s7 s8 where
    a: "vmm_alloc TASK_SIZE VMM_KERNEL (s\<lparr>eflags_if := False\<rparr>) = Some (t, s1)"
    and b: "(if dir \<noteq> 0 then Some (dir, s1) else vmm_create_page_directory s1) = Some (dir', s2)"
    and c: "vmm_modify_page_directory dir' s2 = Some s3"
    and d: "vmm_map_range 0 0 MULTIBOOT_LOWER_MEMORY (VMM_USER OR VMM_WRITABLE) (vmm_enable_domain_check False s3) = Some s4"
    and e: "memcpy CODE_ADDRESS code_start (code_end - code_start + 1) (vmm_enable_domain_check True s4) = Some s5"
    and f: "vmm_alloc klen VMM_KERNEL s5 = Some (ks, s6)"
    and g: "vmm_modified_page_directory
       (vm86_prepare t dir' ks klen (CODE_ADDRESS + (code_end - code_start + 1)) ulen regs s6) = Some s7"
    and h: "task_add t s7 = Some (p, s8)"
    and s': "s' = s8\<lparr>eflags_if := eflags_if s\<rparr>"
    using assms unfolding vm86_create_task_def Let_def
    by (auto simp del: VMM_KERNEL_def VMM_USER_def VMM_WRITABLE_def CODE_ADDRESS_def MULTIBOOT_LOWER_MEMORY_def
        split: bind_splits prod.splits)
  have "mm.more s2 = mm.more s1"
    using b keeps_fields(1)[OF keeps_create_directory, of s1 dir' s2] by (auto split: if_splits)
  moreover have "mm.more s4 = mm.more s3" "mm.more s5 = mm.more s4"
    using keeps_fields(1)[OF keeps_map_range(1)[OF d]] keeps_fields(1)[OF keeps_bytes(2)[OF e]]
    by (simp_all add: vmm_enable_domain_check_def)
  ultimately have m: "mm.more s6 = mm.more s"
    using vm_more(3)[OF a] vm_more(1)[OF c] vm_more(3)[OF f] by simp
  note o6 = more_os[OF m] and o7 = more_os[OF vm_more(2)[OF g]] and add = task_add_spec[OF h]
  have ts: "tasks s7 = tasks s" "current_task s7 = current_task s"
    using o7 o6 by (simp_all add: vm86_prepare_def Let_def)
  have st: "task_store s7 = (task_store s)(t := task_store s7 t)" "task_state (task_store s7 t) = TASK_RUNNING"
    using o7 o6 by (simp_all add: vm86_prepare_def Let_def)
  have "task_store s7 x = task_store s x" if "x \<noteq> t" for x by (subst st(1)) (simp add: that)
  then show ?thesis using add ts st(2) s' by (auto simp: adds_task_def)
qed

subsection \<open>Transitions\<close>

text \<open>
  What happens to the tasks while the kernel runs. \<open>m\<close> is the task of \<^verbatim>\<open>main2\<close>: it is the one that finalizes
  stopped tasks, and neither asks to leave nor runs in virtual 8086 mode. A new task structure lies in memory that no other
  task structure uses, as the allocator promises, and the allocation did not fail.
\<close>

inductive kernel_step :: "'w ps2_hw \<Rightarrow> 'w ports \<Rightarrow> pid \<Rightarrow> 'w kernel \<Rightarrow> 'w kernel \<Rightarrow> bool" for hw io m where
  interrupt: "isr_handle_interrupt hw io junk cpu s = Some (cpu', t) \<Longrightarrow> (may_exit cpu s \<Longrightarrow> current_task s \<noteq> m) \<Longrightarrow>
    kernel_step hw io m s t"
| finalize: "current_task s = m \<Longrightarrow> schedule_finalize_tasks s = Some t \<Longrightarrow> kernel_step hw io m s t"
| create: "task_create_detailed entry dir klen ulen elf cseg dseg s = Some (p, t) \<Longrightarrow>
    tasks t p \<noteq> 0 \<Longrightarrow> tasks t p \<notin> range (tasks s) \<Longrightarrow> kernel_step hw io m s t"
| create_elf: "elf_create_task elf klen ulen s = Some (p, t) \<Longrightarrow> elf \<noteq> 0 \<Longrightarrow>
    tasks t p \<noteq> 0 \<Longrightarrow> tasks t p \<notin> range (tasks s) \<Longrightarrow> kernel_step hw io m s t"
| create_vm86: "vm86_create_task code_start code_end dir klen ulen regs s = Some (p, t) \<Longrightarrow>
    tasks t p \<noteq> 0 \<Longrightarrow> tasks t p \<notin> range (tasks s) \<Longrightarrow> kernel_step hw io m s t"

text \<open>The main task and the current task are running; task structures are not shared.\<close>

definition kernel_ok :: "pid \<Rightarrow> 'a os_scheme \<Rightarrow> bool" where
  "kernel_ok m s \<longleftrightarrow> 1 \<le> m \<and> m < MAX_TASKS \<and> in_state s TASK_RUNNING m \<and> tasks s 0 = 0 \<and>
     (current_task s = 0 \<or> current_task s < MAX_TASKS \<and> in_state s TASK_RUNNING (current_task s)) \<and>
     inj_on (tasks s) {p. tasks s p \<noteq> 0}"

lemma kernel_ok_current: "kernel_ok m s \<Longrightarrow> current_task s < MAX_TASKS"
  by (auto simp: kernel_ok_def)

lemma next_task_running:
  assumes "kernel_ok m s" "schedule_get_next_task s = Some q"
  shows "q \<noteq> 0" "q < MAX_TASKS" "in_state s TASK_RUNNING q" "current_task s \<noteq> m \<Longrightarrow> q \<noteq> current_task s"
proof -
  let ?P = "in_state s TASK_RUNNING" and ?c = "current_task s"
  note c = kernel_ok_current[OF assms(1)]
  have q: "q = first_after ?P ?c"
    using assms(2) next_with_state_first[OF c, of s TASK_RUNNING] by (simp add: schedule_get_next_task_def)
  have m: "m \<in> set (after ?P ?c)" using assms(1) set_after[OF c, of ?P] by (simp add: kernel_ok_def)
  then have "q \<in> set (after ?P ?c)" unfolding q by (intro first_after_in) auto
  then show "q \<noteq> 0" "q < MAX_TASKS" "?P q" using set_after[OF c, of ?P] by auto
  show "q \<noteq> ?c" if "?c \<noteq> m"
  proof
    assume qc: "q = ?c"
    have split: "after ?P ?c = filter ?P [Suc ?c..<MAX_TASKS] @ filter ?P [1..<?c] @ filter ?P [?c]"
      using \<open>q \<noteq> 0\<close> qc by (simp add: after_def upt_Suc_append)
    have hd: "hd (after ?P ?c) = ?c" using q qc \<open>m \<in> _\<close> by (cases "after ?P ?c") (simp_all add: first_after_def)
    have "filter ?P [Suc ?c..<MAX_TASKS] = []"
    proof (cases "filter ?P [Suc ?c..<MAX_TASKS]")
      case (Cons x xs)
      then have "x = ?c" using hd split by simp
      then show ?thesis using filter_bounded[OF Cons] by simp
    qed
    moreover have "filter ?P [1..<?c] = []"
    proof (cases "filter ?P [1..<?c]")
      case (Cons x xs)
      then have "x = ?c" using hd split calculation by simp
      then show ?thesis using filter_bounded[OF Cons] by simp
    qed
    ultimately have "set (after ?P ?c) \<subseteq> {?c}" using split by auto
    then show False using m that by blast
  qed
qed

lemma task_change_ok:
  assumes "kernel_ok m s" "task_change b s t" "b \<Longrightarrow> current_task s \<noteq> m"
  shows "kernel_ok m t"
  using assms(2)
proof cases
  case keep
  then show ?thesis using assms(1) same_tasks_in_state[of s t] by (simp add: kernel_ok_def same_tasks_def)
next
  case switch
  then show ?thesis using assms(1) same_tasks_in_state[of s t] next_task_running[OF assms(1) switch(2)]
    by (simp add: kernel_ok_def same_tasks_def)
next
  case leave
  have c: "current_task s \<noteq> m" using assms(3) leave(1) by simp
  note n = next_task_running[OF assms(1) leave(4)]
  have "in_state t TASK_RUNNING x \<longleftrightarrow> in_state s TASK_RUNNING x \<and> x \<noteq> current_task s" for x
    using leave assms(1) by (auto simp: in_state_def kernel_ok_def inj_on_def)
  then show ?thesis using assms(1) leave(2) n c by (simp add: kernel_ok_def)
qed

lemma adds_task_ok:
  assumes "kernel_ok m s" "adds_task s t p s'" "t \<noteq> 0" "t \<notin> range (tasks s)"
  shows "kernel_ok m s'"
proof -
  have ne: "tasks s x \<noteq> t" for x using assms(4) by auto
  have st: "in_state s' st x \<longleftrightarrow> (if x = p then st = TASK_RUNNING else in_state s st x)" for x st
    using assms(2,3) ne by (auto simp: adds_task_def in_state_def)
  have "inj_on (tasks s') {p. tasks s' p \<noteq> 0}"
    using assms(1,2) ne by (auto simp: kernel_ok_def adds_task_def inj_on_def dest: sym)
  then show ?thesis using assms(1,2) st by (auto simp: kernel_ok_def adds_task_def in_state_def[of s])
qed

lemma finalize_ok:
  assumes "kernel_ok m s" "current_task s = m" "schedule_finalize_tasks s = Some t"
  shows "kernel_ok m t"
proof -
  have f: "tasks t q = (if in_state s TASK_STOPPED q \<and> q \<in> {1..<MAX_TASKS} then 0 else tasks s q)"
    "task_store t = task_store s" "current_task t = current_task s" for q
    using finalize_tasks_run[of s] assms(3) by simp_all
  have "in_state t TASK_RUNNING q \<longleftrightarrow> in_state s TASK_RUNNING q" for q
    using f by (auto simp: in_state_def)
  moreover have "inj_on (tasks t) {p. tasks t p \<noteq> 0}"
    using assms(1) f(1) by (auto simp: kernel_ok_def inj_on_def split: if_splits)
  ultimately show ?thesis using assms(1) f by (auto simp: kernel_ok_def)
qed

lemma kernel_steps_ok:
  assumes "(kernel_step hw io m)\<^sup>*\<^sup>* s t" "kernel_ok m s"
  shows "kernel_ok m t"
  using assms
proof (induction rule: rtranclp_induct)
  case (step t u)
  have ok: "kernel_ok m t" using step by blast
  from step.hyps(2) show ?case
  proof cases
    case (interrupt junk cpu cpu')
    show ?thesis by (rule task_change_ok[OF ok interrupt_effect(1)[OF interrupt(1)] interrupt(2)])
  next
    case finalize
    then show ?thesis by (intro finalize_ok[OF ok])
  next
    case (create entry dir klen ulen elf cseg dseg p)
    then show ?thesis using create_detailed_adds[OF create(1)] adds_task_ok[OF ok] by (auto simp: adds_task_def)
  next
    case (create_elf elf klen ulen p)
    then show ?thesis using elf_create_adds[OF create_elf(1,2)] adds_task_ok[OF ok] by (auto simp: adds_task_def)
  next
    case (create_vm86 cs ce dir klen ulen regs p)
    then show ?thesis using vm86_create_adds[OF create_vm86(1)] adds_task_ok[OF ok] by (auto simp: adds_task_def)
  qed
qed

text \<open>
  C8: While the kernel runs, through any sequence of interrupts, system calls, task creations and finalizations, the current task is
  always one that is running and the main task stays alive: no task that has left or was destroyed gets the processor, and the
  exit system call always finds another task.
\<close>

theorem kernel_runs_running_tasks:
  assumes "(kernel_step hw io m)\<^sup>*\<^sup>* s t" "kernel_ok m s"
  shows "kernel_ok m t"
  using assms by (rule kernel_steps_ok)

lemma example_kernel_ok: "kernel_ok 3 example_kernel"
proof -
  have "in_state example_kernel st = in_state example_os st" for st
    by (simp add: in_state_def fun_eq_iff example_kernel_os)
  then show ?thesis
    by (auto simp: kernel_ok_def example_kernel_os example_os_running MAX_TASKS_def inj_on_def)
      (auto simp: example_os_def split: if_splits)
qed

theorem kernel_runs_running_tasks_witness:
  "\<exists>t. isr_handle_interrupt quiet_hw quiet_ports 0 0x700000 example_kernel = Some (0x700000, t) \<and> kernel_ok 3 t"
proof -
  obtain t where t: "isr_handle_interrupt quiet_hw quiet_ports 0 0x700000 example_kernel = Some (0x700000, t)"
    by (simp add: isr_handle_interrupt_def example_kernel_os example_kernel_tables IS_EXCEPTION_def)
  have n: "\<not> may_exit 0x700000 example_kernel"
    by (simp add: may_exit_def example_kernel_os example_kernel_tables)
  have "kernel_step quiet_hw quiet_ports 3 example_kernel t" by (rule kernel_step.interrupt [OF t]) (simp add: n)
  then show ?thesis using kernel_runs_running_tasks[OF r_into_rtranclp example_kernel_ok] t by blast
qed

subsection \<open>System calls of a program\<close>

text \<open>
  The stubs of \<^verbatim>\<open>lib/syscall.c\<close>, by what they leave in the CPU state that \<^verbatim>\<open>int $0x30\<close> saves; their result is
  EAX when the program goes on.
\<close>

definition SYSCALL_0 :: "syscall \<Rightarrow> cpu_state \<Rightarrow> cpu_state" where
  "SYSCALL_0 c cpu = cpu\<lparr>intr := 0x30, r := (r cpu)\<lparr>eax := of_nat (syscall_id c)\<rparr>\<rparr>"

definition SYSCALL_1 :: "syscall \<Rightarrow> u32 \<Rightarrow> cpu_state \<Rightarrow> cpu_state" where
  "SYSCALL_1 c b cpu = cpu\<lparr>intr := 0x30, r := (r cpu)\<lparr>eax := of_nat (syscall_id c), ebx := b\<rparr>\<rparr>"

definition SYSCALL_2 :: "syscall \<Rightarrow> u32 \<Rightarrow> u32 \<Rightarrow> cpu_state \<Rightarrow> cpu_state" where
  "SYSCALL_2 c b x cpu = cpu\<lparr>intr := 0x30, r := (r cpu)\<lparr>eax := of_nat (syscall_id c), ebx := b, ecx := x\<rparr>\<rparr>"

definition SYSCALL_3 :: "syscall \<Rightarrow> u32 \<Rightarrow> u32 \<Rightarrow> u32 \<Rightarrow> cpu_state \<Rightarrow> cpu_state" where
  "SYSCALL_3 c b x d cpu =
     cpu\<lparr>intr := 0x30, r := (r cpu)\<lparr>eax := of_nat (syscall_id c), ebx := b, ecx := x, edx := d\<rparr>\<rparr>"

definition sys_exit :: "u32 \<Rightarrow> cpu_state \<Rightarrow> cpu_state" where "sys_exit = SYSCALL_1 SYSCALL_EXIT"
definition sys_getpid :: "cpu_state \<Rightarrow> cpu_state" where "sys_getpid = SYSCALL_0 SYSCALL_GETPID"
definition sys_io_putchar :: "u8 \<Rightarrow> cpu_state \<Rightarrow> cpu_state" where "sys_io_putchar c = SYSCALL_1 SYSCALL_IO_PUTCHAR (ucast c)"
definition sys_io_attr :: "u8 \<Rightarrow> cpu_state \<Rightarrow> cpu_state" where "sys_io_attr a = SYSCALL_1 SYSCALL_IO_ATTR (ucast a)"

definition returns :: "u32 \<Rightarrow> ptr \<Rightarrow> 'w kernel \<Rightarrow> 'w kernel" where
  "returns ret cpu s = s\<lparr>cpu_store := (cpu_store s)(cpu := (cpu_store s cpu)\<lparr>r := (r (cpu_store s cpu))\<lparr>eax := ret\<rparr>\<rparr>)\<rparr>"

text \<open>
  C13: The system calls as a program sees them, from the stub through the interrupt, the dispatch and the table to the result: the
  program goes on with its own CPU state, in which only EAX has changed. It gets its PID; a character is printed at the cursor and the
  low half of EAX is the number of characters; the attribute is exchanged and the low byte is the old one.
\<close>

theorem system_calls_return:
  assumes "k_handlers s 0x30 = Some isr_syscall"
    and "k_syscalls s = [0 \<mapsto> SYSCALL_EXIT, 1 \<mapsto> SYSCALL_GETPID, 2 \<mapsto> SYSCALL_IO_PUTCHAR, 3 \<mapsto> SYSCALL_IO_ATTR]"
  shows "(cpu_store s cpu = sys_getpid c \<longrightarrow>
      isr_handle_interrupt hw io junk cpu s = Some (cpu, returns (of_nat (current_task s)) cpu s)) \<and>
    (cpu_store s cpu = sys_io_putchar ch c \<longrightarrow>
      isr_handle_interrupt hw io junk cpu s = Some (cpu, returns (junk AND 0xFFFF0000 OR 1) cpu
        (s\<lparr>k_console := snd (io_putchar ch (k_console s))\<rparr>))) \<and>
    (cpu_store s cpu = sys_io_attr a c \<longrightarrow>
      isr_handle_interrupt hw io junk cpu s = Some (cpu, returns (junk AND 0xFFFFFF00 OR ucast (console_attr (k_console s))) cpu
        (s\<lparr>k_console := (k_console s)\<lparr>console_attr := a\<rparr>\<rparr>)))"
proof -
  have u: "(ucast (ucast x :: u32) :: u8) = x" for x :: u8 by (auto intro!: bit_word_eqI simp: bit_simps)
  have n: "(0xFFFF0000 :: u32) = NOT 0xFFFF" "(0xFFFFFF00 :: u32) = NOT 0xFF" by simp_all
  have p: "fst (io_putchar ch k) = 1" for k by (simp add: io_putchar_def)
  have h: "isr_handle_interrupt hw io junk cpu s = do { (ret, cpu', t) \<leftarrow> run_syscall junk y b cpu s;
      Some (cpu', if cpu' = cpu then returns ret cpu t else t) }"
    if x: "cpu_store s cpu = x" "intr x = 0x30" "eax (r x) = of_nat (syscall_id y)" "ebx (r x) = b" for x y b
  proof -
    have y: "k_syscalls s (syscall_id y) = Some y" "syscall_id y < SYSCALL_NUMBER"
      "unat (of_nat (syscall_id y) :: u32) = syscall_id y"
      using assms(2) by (cases y; simp add: syscall_id_def SYSCALL_NUMBER_def)+
    have "isr_handle_interrupt hw io junk cpu s = isr_handle_syscall junk cpu s"
      using x assms(1) by (simp add: isr_handle_interrupt_def run_handler_def IS_IRQ_def)
    then show ?thesis using x y by (simp add: isr_handle_syscall_def returns_def Let_def cong: if_cong)
  qed
  have g: "cpu_store s cpu = sys_getpid c \<Longrightarrow>
      isr_handle_interrupt hw io junk cpu s = Some (cpu, returns (of_nat (current_task s)) cpu s)"
    by (subst h[of "sys_getpid c" SYSCALL_GETPID]) (simp_all add: sys_getpid_def SYSCALL_0_def run_syscall_def
      syscall_getpid_def schedule_get_current_task_def)
  have i: "cpu_store s cpu = sys_io_putchar ch c \<Longrightarrow>
      isr_handle_interrupt hw io junk cpu s = Some (cpu, returns (junk AND 0xFFFF0000 OR 1) cpu
        (s\<lparr>k_console := snd (io_putchar ch (k_console s))\<rparr>))"
    unfolding n by (subst h[of "sys_io_putchar ch c" SYSCALL_IO_PUTCHAR]) (simp_all add: sys_io_putchar_def SYSCALL_1_def run_syscall_def Let_def split_def, simp add: u p)
  have j: "cpu_store s cpu = sys_io_attr a c \<Longrightarrow>
      isr_handle_interrupt hw io junk cpu s = Some (cpu, returns (junk AND 0xFFFFFF00 OR ucast (console_attr (k_console s))) cpu
        (s\<lparr>k_console := (k_console s)\<lparr>console_attr := a\<rparr>\<rparr>))"
    unfolding n by (subst h[of "sys_io_attr a c" SYSCALL_IO_ATTR]) (simp_all add: sys_io_attr_def SYSCALL_1_def run_syscall_def io_attr_def, simp add: u)
  show ?thesis using g i j by blast
qed

theorem system_calls_return_witness:
  "let s = example_kernel\<lparr>cpu_store := \<lambda>_. sys_getpid example_cpu\<rparr>
   in isr_handle_interrupt quiet_hw quiet_ports 0 0x600000 s = Some (0x600000, returns 1 0x600000 s)"
proof -
  let ?s = "example_kernel\<lparr>cpu_store := \<lambda>_. sys_getpid example_cpu\<rparr>"
  have t: "k_handlers ?s 0x30 = Some isr_syscall"
    "k_syscalls ?s = [0 \<mapsto> SYSCALL_EXIT, 1 \<mapsto> SYSCALL_GETPID, 2 \<mapsto> SYSCALL_IO_PUTCHAR, 3 \<mapsto> SYSCALL_IO_ATTR]"
    by (simp_all add: example_kernel_tables)
  have "isr_handle_interrupt quiet_hw quiet_ports 0 0x600000 ?s = Some (0x600000, returns (of_nat (current_task ?s)) 0x600000 ?s)"
    using system_calls_return[OF t, of "0x600000" example_cpu quiet_hw quiet_ports 0] by simp
  then show ?thesis by (simp add: example_kernel_os Let_def)
qed
end
