(* ===== verification/VMM_Init.thy ===== *)
theory VMM_Init
  imports Multiboot VMM_Frame
begin

text \<open>
  Bringing up virtual memory (\<^verbatim>\<open>mem/vmm.c\<close>, \<open>vmm_init\<close>, without the registration of the page fault handler,
  which belongs to the theory of the kernel): the first page directory, the identity mapping of what the
  physical memory manager handed out so far, turning paging on, and the mapping of the screen memory
  (\<^verbatim>\<open>io/output.c\<close>, \<open>io_use_video_memory\<close>).
\<close>

unbundle bit_operations_syntax

subsection \<open>The code\<close>

definition IO_MEM :: ptr where "IO_MEM = 0xB8000"
definition VIDEO_LEN :: u32 where "VIDEO_LEN = 4000"

text \<open>The result is the new value of the static pointer \<^verbatim>\<open>video\<close>.\<close>

definition io_use_video_memory :: "'a mm_scheme \<Rightarrow> (ptr \<times> 'a mm_scheme) option" where
  "io_use_video_memory = vmm_use_physical_memory IO_MEM VIDEO_LEN VMM_KERNEL"

primrec vmm_init_loop :: "nat \<Rightarrow> u32 \<Rightarrow> 'a mm_scheme \<Rightarrow> 'a mm_scheme option" where
  "vmm_init_loop 0 i s = Some s"
| "vmm_init_loop (Suc n) i s =
     do { let addr = pmm_get_address i 0;
          s \<leftarrow> (if pmm_check s addr \<noteq> PMM_UNUSED \<and> pmm_check s addr \<noteq> PMM_RESERVED
               then map_option snd (vmm_map addr addr VMM_KERNEL s) else Some s);
          vmm_init_loop n (i + 1) s }"

definition vmm_init_paging :: "'a mm_scheme \<Rightarrow> (ptr \<times> 'a mm_scheme) option" where
  "vmm_init_paging s =
     do { (dir, s) \<leftarrow> vmm_create_page_directory s;
          let s = s\<lparr>page_directory := dir\<rparr>;
          s \<leftarrow> vmm_init_loop (Suc (unat (pmm_get_highest_kernel_page s))) 0 s;
          let s = vmm_enable_domain_check True s;
          (_, s) \<leftarrow> vmm_load_page_directory (page_directory s) s;
          io_use_video_memory s }"

subsection \<open>The empty directory\<close>

definition free_frames :: "'a pmm_scheme \<Rightarrow> 20 word set" where
  "free_frames s = {f. \<not> frame_used s f}"

lemma finite_free_frames [simp]: "finite (free_frames s)"
  by (rule finite_subset[OF subset_UNIV]) simp

lemma alloc_page_works:
  assumes "frame_used s 0" "free_frames s \<noteq> {}" "pmm_alloc PAGE_SIZE flags s = (p, t)"
  shows "p \<noteq> 0" "p = page_addr (LEAST q. free_run s q 1)"
proof -
  obtain f where f: "\<not> frame_used s f" using assms(2) by (auto simp: free_frames_def)
  have n: "unat (pmm_pages PAGE_SIZE) = 1" by (simp add: unat_pmm_pages)
  have "free_run s (unat f) 1"
    using f unat_bound[of f] by (simp add: free_run_def frame_used_def)
  then have ex: "\<exists>q. free_run s q 1" by blast
  define q where "q = (LEAST q. free_run s q 1)"
  have run: "free_run s q 1" unfolding q_def using ex by (rule LeastI_ex)
  have q0: "q \<noteq> 0"
  proof
    assume "q = 0"
    then have "frame_state s 0 = PMM_UNUSED" using run by (simp add: free_run_def)
    then show False using assms(1) by (simp add: frame_used_def)
  qed
  have "pmm_find_free s PAGE_SIZE = page_addr q"
    using pmm_find_free_spec[of PAGE_SIZE s] ex unfolding n by (simp add: q_def)
  moreover have "page_addr q \<noteq> 0"
  proof -
    have "q < 1048576" using run by (simp add: free_run_def)
    then show ?thesis using unat_page_addr[of q] q0 by auto
  qed
  ultimately show "p \<noteq> 0" "p = page_addr (LEAST q. free_run s q 1)"
    using assms(3) by (auto simp: pmm_alloc_def Let_def q_def split: if_splits)
qed

lemma create_directory_unpaged:
  assumes "\<not> cr0_pg s" "pmm_alloc PAGE_SIZE PMM_KERNEL s = (p, s1)" "p \<noteq> 0"
  shows "vmm_create_page_directory s = Some (p, s1\<lparr>pmem := (pmem s1)(phys_frame p :=
    (\<lambda>_. 0)(1023 := set_flag 0 True (set_page (pmm_get_page p 0) 0)))\<rparr>)"
proof -
  let ?f = "phys_frame p"
  have al: "unat p mod 4096 = 0" using pmm_alloc_page(3)[OF assms(2,3)] by simp
  have pg: "\<not> cr0_pg s1" using pmm_alloc_fields(3)[of PAGE_SIZE PMM_KERNEL s, unfolded assms(2)] assms(1) by simp
  have st: "store (p + 4 * ucast (j :: 10 word)) v u = Some (poke ?f j v u)" if "\<not> cr0_pg u" for j v u
    using access_unpaged(2)[OF that] page_dword(1,2)[OF al] by simp
  have ms: "memset_dwords ENTRIES p 0 s1 = Some (s1\<lparr>pmem := (pmem s1)(?f := \<lambda>_. 0)\<rparr>)"
    by (rule memset_page_window[where Q = "\<lambda>u. \<not> cr0_pg u"]) (use st pg in auto)
  have last: "4 * word_of_nat (ENTRIES - Suc 0) = (4092 :: u32)" by (simp add: ENTRIES_def)
  show ?thesis
    using pg assms(2) ms st[of "s1\<lparr>pmem := (pmem s1)(?f := \<lambda>_. 0)\<rparr>" 1023]
    by (simp add: vmm_create_page_directory_def vmm_map_physical_memory_def vmm_unmap_physical_memory_def
        mmu_get_paging_def last poke_def)
qed

subsection \<open>Mapping the kernel\<close>

lemma owned_map:
  assumes "vmm_map va pa flags s = Some (r, t)"
  shows "owned s t"
proof -
  have st: "store a v u = Some w \<Longrightarrow> bitmap w = bitmap u" for a v u and w :: "'a mm_scheme"
    by (auto simp: store_def poke_def)
  have ms: "memset_dwords n a v u = Some w \<Longrightarrow> bitmap w = bitmap u" for n a v u and w :: "'a mm_scheme"
    by (induction n arbitrary: a u) (auto split: bind_splits dest!: st)
  have new: "vmm_new_page_table de va s = Some u \<Longrightarrow> owned s u" for de u
    by (auto simp: vmm_new_page_table_def Let_def split: bind_splits prod.splits dest!: st ms
        intro: owned_trans[OF owned_bitmap owned_alloc_then(1)])
  show ?thesis
    using assms unfolding vmm_map_def Let_def
    by (auto simp: mmu_flush_tlb_def split: bind_splits if_splits dest!: st new
        intro: owned_bitmap owned_trans[OF _ owned_bitmap])
qed

definition missing_tables :: "nat \<Rightarrow> 20 word \<Rightarrow> 'a mm_scheme \<Rightarrow> 10 word set" where
  "missing_tables h d s = {k. unat k \<le> h div 1024 \<and> \<not> entry_pr (pmem s d k)}"

lemma finite_missing [simp]: "finite (missing_tables h d s)"
  by (rule finite_subset[OF subset_UNIV]) simp

text \<open>Before page \<open>i\<close>: the kernel's pages below \<open>i\<close> and no others are mapped, to themselves, and the memory suffices.\<close>

definition init_inv :: "nat \<Rightarrow> 20 word \<Rightarrow> 'a mm_scheme \<Rightarrow> nat \<Rightarrow> 'a mm_scheme \<Rightarrow> bool" where
  "init_inv h d s0 i s \<longleftrightarrow>
     vmm_ok s d \<and> \<not> cr0_pg s \<and> \<not> domain_check_enabled s \<and> owned s0 s \<and>
     entry_pr (pmem s d 1023) \<and> entry_frame (pmem s d 1023) = d \<and>
     card (missing_tables h d s) + 2 \<le> card (free_frames s) \<and>
     (\<forall>q<i. frame_state s0 (of_nat q) \<in> {PMM_KERNEL, PMM_USER} \<longrightarrow> page_map s d q \<noteq> None) \<and>
     (\<forall>q<1047552. \<forall>e. page_map s d q = Some e \<longrightarrow> q < i \<and> maps_to e (page_addr q) VMM_KERNEL)"

lemma map_new_page:
  assumes ok: "vmm_ok s d" and i: "i < 1047552" and none: "page_map s d i = None"
    and dc: "vmm_domain_check s (page_addr i) flags" and room: "free_frames s \<noteq> {}"
  shows "\<exists>t e. vmm_map (page_addr i) pa flags s = Some (True, t) \<and> extends s d t \<and> takes_frame s d (page_addr i) t \<and>
    maps_to e pa flags \<and> (\<forall>q<1047552. page_map t d q = (if q = i then Some e else page_map s d q))"
proof -
  let ?va = "page_addr i"
  have i': "i < 1048576" using i by simp
  note low = dir_index_low[OF i]
  have mem: "entry_pr (pmem s d (dir_index ?va)) \<or> fst (pmm_alloc PAGE_SIZE PMM_KERNEL s) \<noteq> 0"
    using alloc_page_works(1)[of s PMM_KERNEL] vmm_okD(3)[OF ok] room by (metis prod.collapse)
  have none': "lookup s d (dir_index ?va) (tab_index ?va) = None" using none lookup_page_addr[OF i', of s d] by simp
  obtain r t where m: "vmm_map ?va pa flags s = Some (r, t)"
    and r: "r \<longleftrightarrow> vmm_domain_check s ?va flags \<and> lookup s d (dir_index ?va) (tab_index ?va) = None"
    and eff: "if r then extends s d t \<and> tlb_log t = tlb_log s @ (if cr0_pg s then [Invlpg ?va] else []) \<and>
        (\<exists>e. maps_to e pa flags \<and> (\<forall>i' j'. i' \<noteq> 1023 \<longrightarrow> lookup t d i' j' =
           (if i' = dir_index ?va \<and> j' = tab_index ?va then Some e else lookup s d i' j'))) \<and> takes_frame s d ?va t
      else t = s"
    using vmm_map_spec[OF ok low mem, of pa flags] by blast
  have r: r using r dc none' by blast
  obtain e where ext: "extends s d t" and tf: "takes_frame s d ?va t" and e: "maps_to e pa flags"
    and lk: "\<And>i' j'. i' \<noteq> 1023 \<Longrightarrow> lookup t d i' j' =
           (if i' = dir_index ?va \<and> j' = tab_index ?va then Some e else lookup s d i' j')"
    using eff r by (simp only: if_True) blast
  have pm: "page_map t d q = (if q = i then Some e else page_map s d q)" if q: "q < 1047552" for q
  proof -
    have q': "q < 1048576" using q by simp
    show ?thesis
      using lk[OF dir_index_low[OF q], of "tab_index (page_addr q)"] dir_index_of_nat_eq[OF q' i']
      unfolding page_addr_index(1,2)[OF q'] page_addr_index(1,2)[OF i'] page_map_def[symmetric] by auto
  qed
  have m': "vmm_map ?va pa flags s = Some (True, t)" using m r by simp
  show ?thesis using m' ext tf e pm by blast
qed

lemma init_map_page:
  assumes inv: "init_inv h d s0 i s" and i: "i \<le> h" "h < 1047552"
  shows "\<exists>r t. vmm_map (page_addr i) (page_addr i) VMM_KERNEL s = Some (r, t) \<and> init_inv h d s0 (Suc i) t \<and> page_map t d i \<noteq> None"
proof -
  let ?va = "page_addr i" and ?k = "of_nat (i div 1024) :: 10 word"
  note I = inv[unfolded init_inv_def]
  have i': "i < 1047552" "i < 1048576" using i by simp_all
  note idx = page_addr_index(1)[OF i'(2)] and low = dir_index_low[OF i'(1)]
  have k: "unat ?k \<le> h div 1024" using i by (simp add: unat_of_nat_small div_le_mono less_mult_imp_div_less)
  have dc: "vmm_domain_check s ?va VMM_KERNEL" using I by (simp add: vmm_domain_check_def)
  have none: "page_map s d i = None" using I i' by (metis less_irrefl not_None_eq)
  have ok: "vmm_ok s d" using I by blast
  have "free_frames s \<noteq> {}" using I by (auto simp: card_gt_0_iff[symmetric])
  then obtain t e where m: "vmm_map ?va ?va VMM_KERNEL s = Some (True, t)" and ext: "extends s d t"
    and tf: "takes_frame s d ?va t" and e: "maps_to e ?va VMM_KERNEL"
    and pm: "\<And>q. q < 1047552 \<Longrightarrow> page_map t d q = (if q = i then Some e else page_map s d q)"
    using map_new_page[OF ok i'(1) none dc, of ?va] by blast
  have pk: "entry_pr (pmem t d ?k)" "\<And>j. j \<noteq> ?k \<Longrightarrow> pmem t d j = pmem s d j" and k1023: "?k \<noteq> 1023"
    using tf low idx by (simp_all add: takes_frame_def)
  obtain g where g: "\<And>f. frame_used t f \<longleftrightarrow> frame_used s f \<or> \<not> entry_pr (pmem s d ?k) \<and> f = g"
    using tf idx unfolding takes_frame_def by auto
  have cost: "card (missing_tables h d t) + 2 \<le> card (free_frames t)"
  proof (cases "entry_pr (pmem s d ?k)")
    case True
    then have "entry_pr (pmem t d j) = entry_pr (pmem s d j)" for j using pk by (cases "j = ?k") auto
    then have "missing_tables h d t = missing_tables h d s" by (simp add: missing_tables_def)
    moreover have "free_frames t = free_frames s" using g True by (simp add: free_frames_def)
    ultimately show ?thesis using I by simp
  next
    case False
    have "entry_pr (pmem t d j) \<longleftrightarrow> entry_pr (pmem s d j) \<or> j = ?k" for j using pk by (cases "j = ?k") auto
    then have "missing_tables h d t = missing_tables h d s - {?k}" by (auto simp: missing_tables_def)
    moreover have "?k \<in> missing_tables h d s" using False k by (simp add: missing_tables_def)
    ultimately have "Suc (card (missing_tables h d t)) = card (missing_tables h d s)"
      using card_Suc_Diff1[of "missing_tables h d s" ?k] by simp
    moreover have "free_frames t = free_frames s - {g}" using g False by (auto simp: free_frames_def)
    then have "card (free_frames s) - 1 \<le> card (free_frames t)"
      using diff_card_le_card_Diff[of "{g}" "free_frames s"] by simp
    moreover have "card (missing_tables h d s) + 2 \<le> card (free_frames s)" using I by blast
    ultimately show ?thesis by linarith
  qed
  have "init_inv h d s0 (Suc i) t"
    unfolding init_inv_def
  proof (intro conjI allI impI)
    show "owned s0 t" using I owned_map[OF m] owned_trans by blast
    show "entry_pr (pmem t d 1023)" "entry_frame (pmem t d 1023) = d" using pk(2) k1023 I by simp_all
    show "page_map t d q \<noteq> None" if q: "q < Suc i" "frame_state s0 (of_nat q) \<in> {PMM_KERNEL, PMM_USER}" for q
    proof (cases "q = i")
      case True
      then show ?thesis using pm[OF i'(1)] by simp
    next
      case False
      have "q < i" "q < 1047552" using False q i' by simp_all
      moreover have "page_map s d q \<noteq> None" using I q(2) \<open>q < i\<close> by blast
      ultimately show ?thesis using pm[of q] False by simp
    qed
    show "q < Suc i" "maps_to e' (page_addr q) VMM_KERNEL" if q: "q < 1047552" "page_map t d q = Some e'" for q e'
    proof -
      have "q < Suc i \<and> maps_to e' (page_addr q) VMM_KERNEL"
      proof (cases "q = i")
        case True
        then show ?thesis using pm[OF q(1)] q(2) e by simp
      next
        case False
        then have "page_map s d q = Some e'" using pm[OF q(1)] q(2) by simp
        then have "q < i \<and> maps_to e' (page_addr q) VMM_KERNEL" using I q(1) by blast
        then show ?thesis by simp
      qed
      then show "q < Suc i" "maps_to e' (page_addr q) VMM_KERNEL" by blast+
    qed
    show "vmm_ok t d" by (rule extendsD(1)[OF ext])
    show "\<not> cr0_pg t" "\<not> domain_check_enabled t" using extendsD(4,8)[OF ext] I by simp_all
  qed (rule cost)
  then show ?thesis using m pm[OF i'(1)] by auto
qed

lemma pmm_check_page: "q < 1048576 \<Longrightarrow> pmm_check s (page_addr q) = frame_state s (of_nat q)"
  by (simp add: pmm_check_def frame_state_def word_less_nat_alt unat_of_nat_small)

lemma init_loop_spec:
  assumes "init_inv h d s0 i s" "i + n = Suc h" "h < 1047552"
  shows "\<exists>t. vmm_init_loop n (of_nat i) s = Some t \<and> init_inv h d s0 (Suc h) t"
  using assms(1,2)
proof (induction n arbitrary: i s)
  case (Suc n)
  have i: "i \<le> h" "i < 1048576" using Suc.prems(2) assms(3) by simp_all
  have o: "frame_state s0 (of_nat i) \<noteq> PMM_UNUSED \<Longrightarrow> frame_state s (of_nat i) = frame_state s0 (of_nat i)"
    using Suc.prems(1) i(2) by (simp add: init_inv_def owned_def word_less_nat_alt unat_of_nat_small)
  note pc = pmm_check_page[OF i(2), of s]
  show ?case
  proof (cases "frame_state s (of_nat i) \<in> {PMM_UNUSED, PMM_RESERVED}")
    case True
    then have "frame_state s0 (of_nat i) \<notin> {PMM_KERNEL, PMM_USER}" using o by auto
    then have "init_inv h d s0 (Suc i) s" using Suc.prems(1) by (auto simp: init_inv_def less_Suc_eq)
    then show ?thesis using Suc.IH[of "Suc i" s] Suc.prems(2) True pc by (auto simp: add.commute)
  next
    case False
    obtain r t where t: "vmm_map (page_addr i) (page_addr i) VMM_KERNEL s = Some (r, t)" "init_inv h d s0 (Suc i) t"
      using init_map_page[OF Suc.prems(1) i(1) assms(3)] by blast
    then show ?thesis using Suc.IH[OF t(2)] Suc.prems(2) False pc by (auto simp: add.commute simp del: VMM_KERNEL_def)
  qed
qed simp

lemma highest_pmm_use:
  "len \<noteq> 0 \<Longrightarrow> highest_kernel_page (pmm_use p len flags s) =
    (if flags = PMM_KERNEL \<and> highest_kernel_page s < pmm_get_page p (len - 1) then pmm_get_page p (len - 1)
     else highest_kernel_page s)"
  by (simp add: pmm_use_def Let_def del: upt_Suc)

lemma entry_frame_set_flag: "entry_frame (set_flag 0 b e) = entry_frame e"
  by (auto intro!: bit_word_eqI simp: entry_frame_def set_flag_def bit_simps bit_or_pow2 bit_and_not_pow2)

lemma init_start:
  assumes pg: "\<not> cr0_pg s" and dc: "\<not> domain_check_enabled s" and z: "frame_used s 0"
    and room: "1026 \<le> card (free_frames s)" and hi: "unat (highest_kernel_page s) < 1047552"
  obtains dir u d h where "vmm_create_page_directory s = Some (dir, u)" "dir = page_addr (unat d)" "dir \<noteq> 0" "unat d < 1047552"
    "h = unat (highest_kernel_page u)" "h < 1047552" "unat (highest_kernel_page s) \<le> h"
    "init_inv h d s 0 (u\<lparr>page_directory := dir\<rparr>)"
proof -
  obtain p s1 where al: "pmm_alloc PAGE_SIZE PMM_KERNEL s = (p, s1)" by force
  have ne: "free_frames s \<noteq> {}" using room by auto
  define q where "q = (LEAST q. free_run s q 1)"
  have p: "p \<noteq> 0" "p = page_addr q" using alloc_page_works[OF z ne al] by (simp_all add: q_def)
  define d where "d = phys_frame p"
  have ex: "\<exists>q. free_run s q 1" 
  proof -
    obtain f where "\<not> frame_used s f" using ne by (auto simp: free_frames_def)
    then have "free_run s (unat f) 1" using unat_bound[of f] by (simp add: free_run_def frame_used_def)
    then show ?thesis by blast
  qed
  have run: "free_run s q 1" unfolding q_def using ex by (rule LeastI_ex)
  have q: "q < 1047552"
  proof -
    have "unat f \<in> {q..<1048576}" if "f \<in> free_frames s" for f
    proof -
      have "free_run s (unat f) 1" using that unat_bound[of f] by (simp add: free_frames_def free_run_def frame_used_def)
      then have "q \<le> unat f" unfolding q_def by (rule Least_le)
      then show ?thesis using unat_bound[of f] by simp
    qed
    then have "card (unat ` free_frames s) \<le> card {q..<1048576}" by (intro card_mono) auto
    moreover have "card (unat ` free_frames s) = card (free_frames s)"
      by (intro card_image inj_onI) (simp add: word_unat_eq_iff)
    ultimately have "1026 \<le> 1048576 - q" using room by simp
    then show ?thesis by linarith
  qed
  then have q': "q < 1048576" by simp
  have ud: "unat d = q" unfolding d_def p(2) using phys_frame_page_addr[OF q'] .
  have al_p: "unat p mod 4096 = 0" using unat_page_addr[OF q'] p(2) by simp
  let ?last = "set_flag 0 True (set_page (pmm_get_page p 0) 0)"
  let ?u = "s1\<lparr>pmem := (pmem s1)(d := (\<lambda>_. 0)(1023 := ?last))\<rparr>"
  have c: "vmm_create_page_directory s = Some (p, ?u)"
    using create_directory_unpaged[OF pg al p(1)] by (simp add: d_def)
  have used: "frame_used ?u g \<longleftrightarrow> frame_used s g \<or> g = d" for g
    using pmm_alloc_page(2)[OF al p(1), of g] by (simp add: frame_used_def frame_state_def d_def)
  have f1: "cr0_pg s1 = cr0_pg s" "domain_check_enabled s1 = domain_check_enabled s"
    using pmm_alloc_fields(3,9)[of PAGE_SIZE PMM_KERNEL s] unfolding al by simp_all
  have s1: "s1 = pmm_use p PAGE_SIZE PMM_KERNEL s" using al p(1) by (auto simp: pmm_alloc_def Let_def split: if_splits)
  have "pmm_get_page p (PAGE_SIZE - 1) = of_nat q"
    using range_pages(2)[of PAGE_SIZE q] q' by (simp add: p(2) unat_pmm_pages)
  then have "highest_kernel_page ?u = (if highest_kernel_page s < of_nat q then of_nat q else highest_kernel_page s)"
    using highest_pmm_use[of PAGE_SIZE p PMM_KERNEL s] by (simp add: s1 cong: if_cong)
  then have h: "unat (highest_kernel_page s) \<le> unat (highest_kernel_page ?u)" "unat (highest_kernel_page ?u) < 1047552"
    using hi q by (auto simp: word_less_nat_alt unat_of_nat_small)
  let ?h = "unat (highest_kernel_page ?u)" and ?t = "?u\<lparr>page_directory := p\<rparr>"
  have dirp: "p = push_bit 12 (ucast d)"
  proof -
    have "unat p = 4096 * unat d" using unat_page_addr[OF q'] p(2) ud by simp
    then show ?thesis using unat_frame_address[of d] by (simp only: word_unat_eq_iff)
  qed
  have pd: "p \<noteq> VMM_PAGEDIR" using unat_page_addr[OF q'] p(2) q by (auto simp: VMM_PAGEDIR_def)
  have last: "entry_pr ?last" "entry_frame ?last = d"
    by (simp_all add: entry_frame_set_flag entry_frame_set_page d_def)
  have ent: "pmem ?t d i = (if i = 1023 then ?last else 0)" for i by simp
  have "frame_used ?t = frame_used ?u" using frame_state_bitmap[of ?t ?u] by (simp add: frame_used_def fun_eq_iff)
  then have ut: "frame_used ?t g \<longleftrightarrow> frame_used s g \<or> g = d" for g using used[of g] by (simp only:)
  have "dir_view ?t d" using pg dirp pd f1 by (simp add: dir_view_def)
  then have ok: "vmm_ok ?t d" unfolding vmm_ok_def ut ent using z by simp
  have ow: "owned s ?t" using owned_trans[OF owned_alloc[OF al] owned_bitmap] by simp
  have "missing_tables ?h d ?t \<subseteq> - {1023}" using h(2) by (auto simp: missing_tables_def)
  then have "card (missing_tables ?h d ?t) \<le> card (- {1023} :: 10 word set)" by (intro card_mono) auto
  also have "\<dots> = 1023" by (simp add: Compl_eq_Diff_UNIV card_word)
  finally have mis: "card (missing_tables ?h d ?t) \<le> 1023" .
  have "free_frames ?t = free_frames s - {d}" using ut by (auto simp: free_frames_def)
  then have "1025 \<le> card (free_frames ?t)" using room diff_card_le_card_Diff[of "{d}" "free_frames s"] by simp
  with mis have cost: "card (missing_tables ?h d ?t) + 2 \<le> card (free_frames ?t)" by linarith
  have "page_map ?t d r = None" if r: "r < 1047552" for r
  proof -
    have "of_nat (r div 1024) \<noteq> (1023 :: 10 word)" using dir_index_low[OF r] page_addr_index(1)[of r] r by simp
    then show ?thesis unfolding page_map_def by (intro lookup_absent) (simp add: ent)
  qed
  then have "init_inv ?h d s 0 ?t"
    unfolding init_inv_def using ok ow cost last f1 pg dc by (simp add: ent)
  have "p = page_addr (unat d)" "unat d < 1047552" using p(2) ud q by simp_all
  from that[OF c this(1) p(1) this(2) refl h(2,1) \<open>init_inv ?h d s 0 ?t\<close>] show ?thesis .
qed

subsection \<open>Turning paging on\<close>

lemma load_first_directory:
  assumes ok: "vmm_ok s d" and pg: "\<not> cr0_pg s" and self: "entry_pr (pmem s d 1023)" "entry_frame (pmem s d 1023) = d" and d: "d \<noteq> 0"
  shows "\<exists>t. vmm_load_page_directory (page_directory s) s = Some (page_directory s, t) \<and> vmm_ok t d \<and> cr0_pg t \<and>
    pmem t = pmem s \<and> bitmap t = bitmap s \<and> domain_check_enabled t = domain_check_enabled s \<and> phys_frame (cr3 t) = d"
proof -
  let ?p = "page_directory s"
  have p: "?p = push_bit 12 (ucast d)" "?p \<noteq> VMM_PAGEDIR"
    using vmm_okD(1)[OF ok, unfolded dir_view_def if_not_P[OF pg]] by blast+
  have p0: "?p \<noteq> 0"
  proof
    assume "?p = 0"
    then have "phys_frame 0 = d" using p(1) phys_frame_of_frame[of d] by simp
    then show False using d by (simp add: phys_frame_def)
  qed
  let ?t = "(mmu_enable_paging ?p s)\<lparr>page_directory := VMM_PAGEDIR\<rparr>"
  have f: "pmem ?t = pmem s" "bitmap ?t = bitmap s" "cr0_pg ?t" "cr3 ?t = ?p"
    "domain_check_enabled ?t = domain_check_enabled s" "page_directory ?t = VMM_PAGEDIR"
    using p0 by (simp_all add: mmu_enable_paging_def mmu_load_page_directory_def)
  have dv: "dir_view ?t d" unfolding dir_view_def using f self p(1) phys_frame_of_frame[of d] by simp
  have fu: "frame_used ?t = frame_used s" using frame_state_bitmap[OF f(2)] by (simp add: frame_used_def fun_eq_iff)
  have "vmm_ok ?t d" using ok dv unfolding vmm_ok_def fu f(1) by blast
  moreover have "vmm_load_page_directory ?p s = Some (?p, ?t)"
    using p pg by (simp add: vmm_load_page_directory_def vmm_get_physical_address_def mmu_get_paging_def)
  ultimately show ?thesis using f p(1) phys_frame_of_frame[of d] by auto
qed

text \<open>Mapping the screen memory takes one page of the kernel domain or none.\<close>

lemma use_video_memory:
  assumes ok: "vmm_ok s d" and pg: "cr0_pg s" and room: "2 \<le> card (free_frames s)"
    and id: "\<And>q e. q < 1047552 \<Longrightarrow> page_map s d q = Some e \<Longrightarrow> maps_to e (page_addr q) VMM_KERNEL"
  shows "\<exists>v t. io_use_video_memory s = Some (v, t) \<and> vmm_ok t d \<and> cr0_pg t \<and> domain_check_enabled t = domain_check_enabled s \<and>
    cr3 t = cr3 s \<and>
    (if v = 0 then t = s else \<exists>q e. v = page_addr q \<and> q < 1047552 \<and> page_map s d q = None \<and>
       maps_to e IO_MEM VMM_KERNEL \<and> (\<forall>r<1047552. page_map t d r = (if r = q then Some e else page_map s d r)))"
proof -
  have len: "VIDEO_LEN \<noteq> 0" "unat (pmm_pages VIDEO_LEN) = 1" by (simp_all add: VIDEO_LEN_def unat_pmm_pages)
  have dm: "vmm_get_domain VMM_KERNEL = kernel_domain" by (simp add: vmm_get_domain_def)
  note run = vmm_find_free_run[OF ok pg len(1), of kernel_domain, unfolded len(2)]
  obtain v where v: "vmm_find_free s VIDEO_LEN kernel_domain = Some v"
    and vq: "v \<noteq> 0 \<longrightarrow> (\<exists>q. v = page_addr q \<and> domain_low kernel_domain \<le> q \<and> q + 1 \<le> domain_high kernel_domain \<and>
           (\<forall>k<1. page_free s d (q + k)))"
    by (rule run) blast
  show ?thesis
  proof (cases "v = 0")
    case True
    then show ?thesis using v dm ok pg by (simp add: io_use_video_memory_def vmm_use_physical_memory_def del: VMM_KERNEL_def)
  next
    case False
    then obtain q where q: "v = page_addr q" "domain_low kernel_domain \<le> q" "q < domain_high kernel_domain" "page_free s d q"
      using vq by auto
    have ql: "0 < q" "q < 1047552" using q(2,3) domain_pages(3,4)[of kernel_domain] by linarith+
    have none: "page_map s d q = None"
    proof (rule ccontr)
      assume "page_map s d q \<noteq> None"
      then obtain e where e: "page_map s d q = Some e" by blast
      then have "entry_frame e = phys_frame (page_addr q)" using id[OF ql(2)] by (simp add: maps_to_def)
      then have "unat (entry_frame e) = q" using phys_frame_page_addr[of q] ql by simp
      then show False using q(4) e ql(1) by (simp add: page_free_def)
    qed
    let ?u = "pmm_use IO_MEM VIDEO_LEN PMM_KERNEL s"
    have oku: "vmm_ok ?u d" using vmm_ok_pmm_use[OF ok] by simp
    have fl: "vmm_get_pmm_flags VMM_KERNEL = PMM_KERNEL" by (simp add: vmm_get_pmm_flags_def)
    have dc: "vmm_domain_check w v VMM_KERNEL" for w :: "'a mm_scheme"
      using page_addr_domain[OF q(2,3)] dm by (simp add: vmm_domain_check_def q(1) del: VMM_KERNEL_def)
    have io: "IO_MEM = page_addr 0xB8" by (simp add: IO_MEM_def pmm_get_address_def PAGE_SHIFT_def)
    have one: "vmm_map_range v IO_MEM VIDEO_LEN VMM_KERNEL ?u = map_option snd (vmm_map v IO_MEM VMM_KERNEL ?u)"
      using vmm_map_range_pages[OF len(1), of q "0xB8" ?u VMM_KERNEL] ql dc[of ?u]
      unfolding io q(1) len(2)
      by (cases "vmm_map (page_addr q) (page_addr 0xB8) VMM_KERNEL (pmm_use (page_addr 0xB8) VIDEO_LEN PMM_KERNEL s)")
         (auto simp del: VMM_KERNEL_def)
    have "frame_used ?u f \<Longrightarrow> frame_used s f \<or> f = 0xB8" for f
    proof -
      assume u: "frame_used ?u f"
      note f = ucast_page_less[of f]
      show ?thesis
        using u frame_state_use_run[OF len(1) _ f, of "0xB8" PMM_KERNEL s, folded io] len(2)
        by (auto simp: frame_used_def word_unat_eq_iff unat_ucast_frame split: if_splits)
    qed
    then have "free_frames s - {0xB8} \<subseteq> free_frames ?u" by (auto simp: free_frames_def)
    then have "card (free_frames s - {0xB8}) \<le> card (free_frames ?u)" by (intro card_mono) simp_all
    then have "1 \<le> card (free_frames ?u)" using room diff_card_le_card_Diff[of "{0xB8}" "free_frames s"] by simp
    then have "free_frames ?u \<noteq> {}" by auto
    moreover have "page_map ?u d = page_map s d" using page_map_cong[of ?u s] by simp
    ultimately obtain t e where t: "vmm_map (page_addr q) IO_MEM VMM_KERNEL ?u = Some (True, t)" "extends ?u d t" "maps_to e IO_MEM VMM_KERNEL"
      "\<forall>r<1047552. page_map t d r = (if r = q then Some e else page_map s d r)"
      using map_new_page[OF oku ql(2), of VMM_KERNEL IO_MEM] none dc[of ?u] unfolding q(1) by (simp del: VMM_KERNEL_def) metis
    have "io_use_video_memory s = Some (v, t)"
      using v False one t(1)[folded q(1)] dm fl dc[of s] len(1)
      by (simp add: io_use_video_memory_def vmm_use_physical_memory_def vmm_use_def del: VMM_KERNEL_def)
    then show ?thesis
      using False t q(1) ql(2) none extendsD(1,4,8,9)[OF t(2)] pg by (intro exI[of _ v] exI[of _ t]) auto
  qed
qed

lemma vmm_ok_domain_check [simp]: "vmm_ok (s\<lparr>domain_check_enabled := b\<rparr>) d \<longleftrightarrow> vmm_ok s d"
  by (simp add: vmm_ok_def dir_view_def frame_used_def frame_state_def pmm_bitmap_get_def)

lemma page_of_address: "(va :: ptr) = push_bit 12 (ucast (phys_frame va)) OR (va AND 0xFFF)"
  unfolding and_mask_12 by (auto intro!: bit_word_eqI simp: phys_frame_def bit_simps)

lemma page_of_nat: "of_nat (unat va div 4096) = pmm_get_page va 0"
  using unat_bound[of va] by (simp add: word_unat_eq_iff unat_get_page unat_of_nat_small)

lemma translate_mapped:
  assumes ok: "vmm_ok t d" and pg: "cr0_pg t" and q: "unat va div 4096 = q" "page_map t d q = Some e"
    and m: "maps_to e (page_addr q) flags"
  shows "mmu_translate t va = Some va"
proof -
  have q': "q < 1048576" using unat_bound[of va] q(1) by auto
  have f: "phys_frame (page_addr q) = phys_frame va"
    using q(1) phys_frame_page_addr[OF q'] by (simp add: word_unat_eq_iff unat_phys_frame)
  have "q div 1024 = unat va div 4194304" using q(1) div_mult2_eq[of "unat va" 4096 1024] by simp
  then have i: "dir_index va = of_nat (q div 1024)" "tab_index va = of_nat (q mod 1024)"
    using q(1) q' by (simp_all add: word_unat_eq_iff unat_dir_index unat_tab_index unat_of_nat_small)
  have "phys_frame (cr3 t) = d" using vmm_okD(1)[OF ok] pg by (simp add: dir_view_def)
  moreover have "lookup t d (dir_index va) (tab_index va) = Some e" using q(2) i by (simp add: page_map_def)
  ultimately show ?thesis
    using pg m f page_of_address[of va] by (auto simp: mmu_translate_def lookup_def Let_def maps_to_def split: if_splits)
qed

lemma vmm_init_spec:
  assumes "\<not> cr0_pg s" "\<not> domain_check_enabled s" "frame_used s 0" "1026 \<le> card (free_frames s)"
    and "unat (highest_kernel_page s) < 1047552"
  shows "\<exists>v t d. vmm_init_paging s = Some (v, t) \<and> vmm_ok t d \<and> cr0_pg t \<and> domain_check_enabled t \<and>
    (\<forall>va. unat va div 4096 \<le> unat (highest_kernel_page s) \<longrightarrow> pmm_check s va \<in> {PMM_KERNEL, PMM_USER} \<longrightarrow>
       mmu_translate t va = Some va) \<and>
    (\<forall>q<1047552. \<forall>e. page_map t d q = Some e \<longrightarrow> \<not> entry_user e \<and>
       (entry_frame e = of_nat q \<or> page_addr q = v \<and> entry_frame e = phys_frame IO_MEM))"
proof -
  obtain dir u d h where c: "vmm_create_page_directory s = Some (dir, u)" "dir = page_addr (unat d)" "dir \<noteq> 0"
      "unat d < 1047552" "h = unat (highest_kernel_page u)" "h < 1047552" "unat (highest_kernel_page s) \<le> h"
      "init_inv h d s 0 (u\<lparr>page_directory := dir\<rparr>)"
    using init_start[OF assms] by blast
  obtain w where w: "vmm_init_loop (Suc h) 0 (u\<lparr>page_directory := dir\<rparr>) = Some w" "init_inv h d s (Suc h) w"
    using init_loop_spec[OF c(8), of "Suc h"] c(6) by auto
  note W = w(2)[unfolded init_inv_def]
  let ?w = "w\<lparr>domain_check_enabled := True\<rparr>"
  have "d \<noteq> 0" using c(2,3) by (auto simp: pmm_get_address_def)
  moreover have "vmm_ok ?w d" using W by simp
  ultimately obtain x where x: "vmm_load_page_directory (page_directory ?w) ?w = Some (page_directory ?w, x)"
      "vmm_ok x d" "cr0_pg x" "pmem x = pmem ?w" "bitmap x = bitmap ?w" "domain_check_enabled x = domain_check_enabled ?w"
    using load_first_directory[of ?w d] W by auto
  have pmx: "page_map x d = page_map w d" using page_map_cong[of x w] x(4) by simp
  have id: "maps_to e (page_addr q) VMM_KERNEL" if "q < 1047552" "page_map x d q = Some e" for q e
    using W that pmx by simp
  have "free_frames x = free_frames w"
    using frame_state_bitmap[of x w] x(5) by (simp add: free_frames_def frame_used_def)
  then have "2 \<le> card (free_frames x)" using W by simp
  from use_video_memory[OF x(2,3) this id] obtain v t where t: "io_use_video_memory x = Some (v, t)" "vmm_ok t d" "cr0_pg t"
      "domain_check_enabled t = domain_check_enabled x"
      and vt: "if v = 0 then t = x else \<exists>q e. v = page_addr q \<and> q < 1047552 \<and> page_map x d q = None \<and>
       maps_to e IO_MEM VMM_KERNEL \<and> (\<forall>r<1047552. page_map t d r = (if r = q then Some e else page_map x d r))"
    by blast
  have run: "vmm_init_paging s = Some (v, t)"
    using c(1,5) w(1) x(1) t(1)
    by (simp add: vmm_init_paging_def Let_def pmm_get_highest_kernel_page_def vmm_enable_domain_check_def del: vmm_init_loop.simps)
  have keep: "page_map t d q = Some e" if "q < 1047552" "page_map x d q = Some e" for q e
    using vt that by (auto split: if_splits)
  have tr: "mmu_translate t va = Some va"
    if va: "unat va div 4096 \<le> unat (highest_kernel_page s)" "pmm_check s va \<in> {PMM_KERNEL, PMM_USER}" for va
  proof -
    let ?q = "unat va div 4096"
    have q: "?q < 1047552" "?q < Suc h" using va(1) c(6,7) by simp_all
    have "frame_state s (of_nat ?q) = pmm_check s va"
      by (simp add: pmm_check_def frame_state_def page_of_nat)
    then obtain e where e: "page_map w d ?q = Some e" using W va(2) q(2) by (metis option.exhaust)
    then have "page_map t d ?q = Some e" using keep[OF q(1)] pmx by simp
    then show ?thesis using translate_mapped[OF t(2,3) refl] id[OF q(1)] e pmx by simp
  qed
  have only: "\<not> entry_user e \<and> (entry_frame e = of_nat q \<or> page_addr q = v \<and> entry_frame e = phys_frame IO_MEM)"
    if q: "q < 1047552" "page_map t d q = Some e" for q e
  proof -
    have "maps_to e (page_addr q) VMM_KERNEL \<or> page_addr q = v \<and> maps_to e IO_MEM VMM_KERNEL"
      using vt q id by (auto split: if_splits)
    moreover have "phys_frame (page_addr q) = of_nat q"
      using phys_frame_page_addr[of q] q(1) by (simp add: word_unat_eq_iff unat_of_nat_small)
    ultimately show ?thesis by (auto simp: maps_to_def VMM_USER_def)
  qed
  show ?thesis
    using run t(2,3,4) x(6) tr only by (intro exI[of _ v] exI[of _ t] exI[of _ d]) simp
qed


text \<open>A small machine: the first frame reserved, a kernel of 32 pages at one megabyte, everything else free.\<close>

definition small_mm :: mm where
  "small_mm = pmm_use 0x100000 0x20000 PMM_KERNEL (pmm_use 0 PAGE_SIZE PMM_RESERVED plain_mm)"

lemma small_mm_frames:
  assumes "q < 1048576"
  shows "frame_state small_mm q =
     (if q = 0 then PMM_RESERVED else if 0x100 \<le> q \<and> q \<le> 0x11F then PMM_KERNEL else PMM_UNUSED)"
proof -
  have "frame_state plain_mm q = PMM_UNUSED"
    by (simp add: frame_state_def plain_mm_def pmm_bitmap_get_def Let_def pmm_flags_of_def)
  then show ?thesis using assms by (simp add: small_mm_def frame_state_pmm_use pmm_get_page_def)
qed


end
