(* ===== verification/Boot.thy ===== *)
theory Boot
  imports Kernel VMM_Init
begin

text \<open>
  \<^verbatim>\<open>boot/main.c\<close>: the order in which \<open>main\<close> brings the components up, the handlers for keyboard and mouse
  events, and the state in which the kernel begins to run. The messages that the initialisations print are left out.
\<close>

unbundle bit_operations_syntax

subsection \<open>The code\<close>

text \<open>
  What the kernel has besides the state of its components: the interrupt descriptor table, the statics \<^verbatim>\<open>mb_info\<close>
  and \<^verbatim>\<open>video\<close>, and the port writes of the initialisation. The addresses that the linker fixes are in \<open>image\<close>.
\<close>

record 'w machine = "'w kernel" +
  k_idt :: idt
  mb_info :: ptr
  video_ptr :: ptr
  boot_out :: outs

record image =
  img_start :: ptr
  img_end :: ptr
  img_main2 :: ptr
  img_ps2 :: ptr
  img_tss :: ptr
  img_isr :: "nat \<Rightarrow> u32"

definition STACK_SIZE :: u32 where "STACK_SIZE = 0x4000"

definition vmm_init :: "('w, 'a) machine_scheme \<Rightarrow> ('w, 'a) machine_scheme option" where
  "vmm_init s = do { (v, s) \<leftarrow> vmm_init_paging (mmu_init s); Some (s\<lparr>video_ptr := v\<rparr>) }"

definition boot_gdt :: "image \<Rightarrow> ('w, 'a) machine_scheme \<Rightarrow> ('w, 'a) machine_scheme" where
  "boot_gdt img s = (let (g, t) = gdt_init (img_tss img) (gdt_table s, tss s) in s\<lparr>gdt_table := g, tss := t\<rparr>)"

definition boot_pit :: "u32 \<Rightarrow> ('w, 'a) machine_scheme \<Rightarrow> ('w, 'a) machine_scheme" where
  "boot_pit freq s =
     (let s = pit_register s; (ok, outs, p) = pit_init freq (k_pit s) in s\<lparr>k_pit := p, boot_out := boot_out s @ outs\<rparr>)"

definition main_start :: "ptr \<Rightarrow> u32 \<Rightarrow> ('w, 'a) machine_scheme \<Rightarrow> ('w, 'a) machine_scheme" where
  "main_start mb magic s =
     s\<lparr>k_console := io_clear io_putchar (k_console s), mb_info := fst (multiboot_init mb magic)\<rparr>"

text \<open>Everything behind \<^verbatim>\<open>vmm_init\<close> up to the first task.\<close>

definition main_tables :: "image \<Rightarrow> ('w, 'a) machine_scheme \<Rightarrow> ('w, 'a) machine_scheme" where
  "main_tables img s =
     (let s = boot_gdt img s;
          s = s\<lparr>k_idt := idt_init (gdt_table s) (img_isr img) (k_idt s)\<rparr>;
          s = s\<lparr>boot_out := boot_out s @ pic_init\<rparr>;
          s = boot_pit 50 s
      in isr_init (vm86_init s))"

definition main_setup :: "image \<Rightarrow> ptr \<Rightarrow> u32 \<Rightarrow> ('w, 'a) machine_scheme \<Rightarrow> ('w, 'a) machine_scheme option" where
  "main_setup img mb magic s =
     do { let s = main_start mb magic s;
          (found, mb, s) \<leftarrow> pmm_init (img_start img) (img_end img) (mb_info s) s;
          s \<leftarrow> vmm_init (s\<lparr>mb_info := mb\<rparr>);
          Some (main_tables img s) }"

definition main :: "image \<Rightarrow> ptr \<Rightarrow> u32 \<Rightarrow> ('w, 'a) machine_scheme \<Rightarrow> (pid \<times> ('w, 'a) machine_scheme) option" where
  "main img mb magic s =
     do { s \<leftarrow> main_setup img mb magic s;
          task_create_kernel (img_main2 img) 0 STACK_SIZE s }"

text \<open>
  The task \<^verbatim>\<open>main2\<close> creates the task \<^verbatim>\<open>ps2\<close> and ten copies of the user program; \<open>name\<close> is the address of
  its name. Then it finalizes stopped tasks once a second until the escape key is pressed. The body of that loop
  is \<open>schedule_finalize_tasks\<close>, its BIOS call is a task of its own.
\<close>

primrec main2_programs :: "nat \<Rightarrow> ptr \<Rightarrow> ('w, 'a) machine_scheme \<Rightarrow> ('w, 'a) machine_scheme option" where
  "main2_programs 0 name s = Some s"
| "main2_programs (Suc n) name s =
     do { elf \<leftarrow> multiboot_get_module name (mb_info s) s;
          (p, s) \<leftarrow> elf_create_task elf 0x1000 0x1000 s;
          main2_programs n name s }"

definition main2_ps2 :: "image \<Rightarrow> ('w, 'a) machine_scheme \<Rightarrow> (pid \<times> ('w, 'a) machine_scheme) option" where
  "main2_ps2 img = task_create_kernel (img_ps2 img) 0 0x1000"

subsection \<open>Keyboard and mouse events\<close>

definition keyboard_register_handler :: "keyboard \<Rightarrow> keyboard" where
  "keyboard_register_handler k = k\<lparr>handler := True\<rparr>"

definition mouse_register_handler :: "mouse \<Rightarrow> mouse" where
  "mouse_register_handler m = m\<lparr>mouse_handler := True\<rparr>"

text \<open>The task \<^verbatim>\<open>ps2\<close> before it leaves with \<^verbatim>\<open>sys_exit(0)\<close>.\<close>

definition ps2_task :: "'w ps2_hw \<Rightarrow> ('w, 'a) machine_scheme \<Rightarrow> ('w, 'a) machine_scheme option" where
  "ps2_task hw s =
     do { p \<leftarrow> ps2_init hw (k_ps2 s);
          let s = ps2_register s;
          Some (s\<lparr>k_ps2 := p\<lparr>kb := keyboard_register_handler (kb p), ms := mouse_register_handler (ms p)\<rparr>\<rparr>) }"

definition handle_keyboard_event :: "(ptr \<Rightarrow> u8 list) \<Rightarrow> keyboard_event \<Rightarrow> console \<Rightarrow> console option" where
  "handle_keyboard_event strs e s =
     (if ascii e \<noteq> 0 \<and> pressed e then map_option snd (print strs (chars ''%9a%c%a'') [ucast (ascii e)] s) else Some s)"

definition handle_mouse_event :: "(ptr \<Rightarrow> u8 list) \<Rightarrow> mouse_event \<Rightarrow> console \<Rightarrow> console option" where
  "handle_mouse_event strs e s =
     (let (old_cursor, s) = io_cursor (IO_COORD (ucast (screen_x e)) (ucast (screen_y e))) s
      in do { (_, s) \<leftarrow> print strs (if left e \<or> right e \<or> middle e then chars ''%6a%c%a'' else chars ''%9a%c%a'') [219] s;
              Some (snd (io_cursor old_cursor s)) })"


lemma print_cell:
  assumes "n \<in> {6, 9}"
  shows "print strs (chars (if n = 6 then ''%6a%c%a'' else ''%9a%c%a'')) [c] s =
   (let (k, s) = io_putchar (ucast c) (snd (io_attr n s)) in Some (k, snd (io_attr IO_DEFAULT s)))"
  using assms
  by (auto simp: print_def vprint_def chars_def vprint_flags_def vprint_convert_def IS_DIGIT_def screen_def Let_def
      io_attr_def io_putchar_def)

text \<open>
  A mouse event draws the pointer, a block in one of two colours, into the cell of the screen that the event names,
  and changes no other cell; the cursor is back where it was. The colour that text is printed in is
  the default afterwards, whatever it was before.
\<close>

theorem mouse_event_draws_pointer:
  assumes "screen_x e \<le> 79" "screen_y e \<le> 24" "0 \<le> sint (console_cursor s)"
  defines "cell \<equiv> 2 * (80 * unat (screen_y e) + unat (screen_x e))"
  shows "handle_mouse_event strs e s = Some (s\<lparr>console_attr := 7,
    video := (video s)(cell := 219, cell + 1 := if left e \<or> right e \<or> middle e then 6 else 9)\<rparr>)"
proof -
  let ?p = "IO_COORD (ucast (screen_x e)) (ucast (screen_y e)) :: u32"
  have b: "unat (screen_x e) \<le> 79" "unat (screen_y e) \<le> 24" using assms(1,2) by (simp_all add: word_le_nat_alt)
  have u: "unat (ucast (screen_x e) :: u32) = unat (screen_x e)" "unat (ucast (screen_y e) :: u32) = unat (screen_y e)"
    using unat_bound[of "screen_x e"] unat_bound[of "screen_y e"] by (simp_all add: unsigned_ucast_eq take_bit_eq_mod)
  have p: "unat ?p = 80 * unat (screen_y e) + unat (screen_x e)"
    unfolding IO_COORD_def IO_COLS_def using b u by (simp add: unat_word_ariths)
  then have lt: "unat ?p < 2000" using b by linarith
  have pos: "0 \<le> sint ?p"
  proof -
    have "uint ?p < 2 ^ 31" using lt by (simp add: uint_nat del: of_nat_unat p)
    then have "signed_take_bit 31 (uint ?p) = uint ?p"
      using uint_lt2p[of ?p] by (intro signed_take_bit_int_eq_self) (simp_all add: order_trans[OF _ uint_ge_0])
    moreover have "sint ?p = signed_take_bit 31 (uint ?p)" by (subst sint_uint) simp
    ultimately show ?thesis by simp
  qed
  have m: "?p mod IO_CHARS = ?p"
    using lt by (simp add: word_unat_eq_iff unat_mod IO_CHARS_def IO_COLS_def IO_ROWS_def del: p)
  have c: "unat (?p * 2) = cell" "unat (?p * 2 + 1) = cell + 1"
    using lt p by (simp_all add: unat_word_ariths cell_def)
  have n: "(if left e \<or> right e \<or> middle e then chars ''%6a%c%a'' else chars ''%9a%c%a'') =
    chars (if (if left e \<or> right e \<or> middle e then 6 else 9 :: u8) = 6 then ''%6a%c%a'' else ''%9a%c%a'')" by simp
  show ?thesis
    unfolding handle_mouse_event_def n using pos assms(3) m c
    by (subst print_cell)
      (simp_all add: Let_def io_cursor_def io_attr_def io_putchar_def io_setattr_def io_setchar_def IO_DEFAULT_def)
qed

subsection \<open>The state that main sets up\<close>

lemma init_loop_keeps: "vmm_init_loop n i s = Some t \<Longrightarrow> keeps s t"
  by (induction n arbitrary: i s) (auto simp: Let_def split: bind_splits if_splits dest!: keeps_map intro: keeps_trans)

lemma use_physical_keeps: "vmm_use_physical_memory pa len fl s = Some (v, t) \<Longrightarrow> keeps s t"
  by (auto simp: vmm_use_physical_memory_def split: bind_splits if_splits dest!: keeps_use)

lemma vmm_init_keeps:
  assumes "vmm_init_paging s = Some (v, t)"
  shows "mm.more t = mm.more s" "eflags_if t = eflags_if s" "old_directory t = old_directory s"
proof -
  obtain dir u w x old where c: "vmm_create_page_directory s = Some (dir, u)"
    and w: "vmm_init_loop (Suc (unat (highest_kernel_page u))) 0 (u\<lparr>page_directory := dir\<rparr>) = Some w"
    and x: "vmm_load_page_directory (page_directory w) (w\<lparr>domain_check_enabled := True\<rparr>) = Some (old, x)"
    and v: "vmm_use_physical_memory IO_MEM VIDEO_LEN VMM_KERNEL x = Some (v, t)"
    using assms
    by (auto simp: vmm_init_paging_def Let_def pmm_get_highest_kernel_page_def vmm_enable_domain_check_def
        io_use_video_memory_def simp del: vmm_init_loop.simps VMM_KERNEL_def split: bind_splits)
  show "mm.more t = mm.more s" "eflags_if t = eflags_if s" "old_directory t = old_directory s"
    using keeps_fields[OF keeps_create_directory[OF c]] keeps_fields[OF init_loop_keeps[OF w]]
      keeps_fields[OF keeps_load_directory[OF x]] keeps_fields[OF use_physical_keeps[OF v]]
    by simp_all
qed

definition boots :: "'a mm_scheme \<Rightarrow> 'a mm_scheme \<Rightarrow> bool" where
  "boots s t \<longleftrightarrow> keeps s t \<and> cr0_pg t = cr0_pg s"

lemma boots_refl [simp]: "boots s s"
  by (simp add: boots_def)

lemma boots_trans: "boots s t \<Longrightarrow> boots t u \<Longrightarrow> boots s u"
  by (auto simp: boots_def intro: keeps_trans)

lemma boots_use [simp]: "boots s (pmm_use p len fl t) \<longleftrightarrow> boots s t" "boots (pmm_use p len fl s) t \<longleftrightarrow> boots s t"
  by (simp_all add: boots_def keeps_def)

lemma boots_reserve [simp]: "boots s (bitmap_reserve n t) \<longleftrightarrow> boots s t" "boots (bitmap_reserve n s) t \<longleftrightarrow> boots s t"
  by (simp_all add: boots_def keeps_def bitmap_reserve_def)

named_theorems boots_intros

lemma boots_alloc [boots_intros]: "pmm_alloc len fl s = (p, t) \<Longrightarrow> boots s t"
  using keeps_pmm_alloc[of len fl s p t] pmm_alloc_fields(3)[of len fl s] by (simp add: boots_def)

lemma boots_store8 [boots_intros]: "store8 a b s = Some t \<Longrightarrow> boots s t"
  by (auto simp: boots_def keeps_def store8_def poke_def)

lemma boots_store32 [boots_intros]: "store32 a v s = Some t \<Longrightarrow> boots s t"
  by (auto simp: store32_def store16_def split: bind_splits dest!: boots_store8 intro: boots_trans)

lemma boots_memcpy [boots_intros]: "memcpy d a n s = Some t \<Longrightarrow> boots s t"
proof -
  have "copy_loop load8 store8 k d a s = Some t \<Longrightarrow> boots s t" for k
    by (induction k arbitrary: d a s) (auto split: bind_splits dest!: boots_store8 intro: boots_trans)
  then show "memcpy d a n s = Some t \<Longrightarrow> boots s t" by (simp add: memcpy_def)
qed

lemma boots_copy_module [boots_intros]: "copy_module m s = Some t \<Longrightarrow> boots s t"
  unfolding copy_module_def Let_def
  by (auto split: bind_splits prod.splits dest!: boots_intros) (meson boots_trans)

lemma boots_copy_modules [boots_intros]:
  assumes "copy_modules_loop mb i s = Some t"
  shows "boots s t"
  by (rule copy_modules_loop.raw_induct[OF _ assms, where P = "\<lambda>mb i s t. boots s t"])
    (auto split: bind_splits if_splits dest!: boots_copy_module intro: boots_trans)

lemma boots_copy_memory [boots_intros]: "multiboot_copy_memory mb s = Some (mb', t) \<Longrightarrow> boots s t"
  unfolding multiboot_copy_memory_def Let_def
  by (auto split: bind_splits if_splits prod.splits dest!: boots_intros) (meson boots_trans)+

lemma boots_free_loop:
  assumes "free_memory_loop a b s = Some t"
  shows "boots s t"
  by (rule free_memory_loop.raw_induct[OF _ assms, where P = "\<lambda>a b s t. boots s t"])
    (auto simp: Let_def split: bind_splits if_splits; fastforce simp del: boots_use(1) dest: boots_use(2)[THEN iffD1])

lemma boots_pmm_init: "pmm_init ks ke mb s = Some (found, mb', t) \<Longrightarrow> boots s t"
  by (auto simp: pmm_init_def multiboot_free_memory_def pmm_use_kernel_memory_def Let_def split: bind_splits if_splits
      dest!: boots_free_loop boots_copy_memory) (erule (1) boots_trans)

lemma main_tables_effect:
  "k_handlers (main_tables img s) = (k_handlers s)(0x20 \<mapsto> pit_handle_interrupt, 0x0D \<mapsto> vm86_gpf, 0x30 \<mapsto> isr_syscall)"
  "k_syscalls (main_tables img s) = (k_syscalls s)
     (0 \<mapsto> SYSCALL_EXIT, 1 \<mapsto> SYSCALL_GETPID, 2 \<mapsto> SYSCALL_IO_PUTCHAR, 3 \<mapsto> SYSCALL_IO_ATTR)"
  "eflags_if (main_tables img s)" "pit_freq (k_pit (main_tables img s)) = 50"
  "boot_out (main_tables img s) = boot_out s @ pic_init @ snd (pit_init_channel 0 MODE_RATE 50)"
  "gdt_table (main_tables img s) = fst (gdt_init (img_tss img) (gdt_table s, tss s))"
  "k_idt (main_tables img s) = idt_init (gdt_table (main_tables img s)) (img_isr img) (k_idt s)"
  "tasks (main_tables img s) = tasks s" "task_store (main_tables img s) = task_store s"
  "current_task (main_tables img s) = current_task s" "old_directory (main_tables img s) = old_directory s"
  "bitmap (main_tables img s) = bitmap s" "pmem (main_tables img s) = pmem s" "cr3 (main_tables img s) = cr3 s"
  "cr0_pg (main_tables img s) = cr0_pg s" "page_directory (main_tables img s) = page_directory s"
  "domain_check_enabled (main_tables img s) = domain_check_enabled s"
  "mb_info (main_tables img s) = mb_info s"
  by (simp_all add: main_tables_def boot_gdt_def boot_pit_def isr_init_def syscall_init_def vm86_init_def pit_register_def
      isr_register_handler_def isr_register_syscall_def IDT_ENTRIES_def SYSCALL_NUMBER_def ISR_SYSCALL_def ISR_EXCEPTION_def
      ISR_IRQ_def syscall_id_def pit_init_def pit_init_channel_def PIT_FREQ_def Let_def split: prod.split)

lemma machine_more:
  assumes "mm.more t = mm.more (s :: ('w, 'a) machine_scheme)"
  shows "k_handlers t = k_handlers s" "k_syscalls t = k_syscalls s" "boot_out t = boot_out s" "tasks t = tasks s"
    "task_store t = task_store s" "current_task t = current_task s" "gdt_table t = gdt_table s" "tss t = tss s"
    "k_idt t = k_idt s" "mb_info t = mb_info s" "k_console t = k_console s"
  using assms by (cases s; cases t; simp)+

lemma vmm_ok_cong:
  assumes "bitmap t = bitmap s" "pmem t = pmem s" "cr3 t = cr3 s" "cr0_pg t = cr0_pg s" "page_directory t = page_directory s"
  shows "vmm_ok t d \<longleftrightarrow> vmm_ok s d" "mmu_translate t = mmu_translate s"
  by (simp_all add: vmm_ok_def dir_view_def frame_used_def frame_state_def pmm_bitmap_get_def mmu_translate_def fun_eq_iff assms cong: if_cong)

text \<open>
  C10: \<^verbatim>\<open>main\<close> up to the first task. If the memory map leaves enough frames, then whatever boot loader data was
  copied, the initialisations return. The kernel then runs with paging on and its own memory at the addresses it had,
  exactly the page fault, the timer, the virtual 8086 monitor and the system calls have handlers, the timer runs at 50 Hz,
  the controllers were programmed in this order, the tables are the ones the other theories describe, and interrupts are on.
\<close>

theorem main_sets_up:
  assumes "pmm_init (img_start img) (img_end img) mb (main_start mb magic s) = Some (found, mb', s1)"
    and "\<not> cr0_pg s" "\<not> domain_check_enabled s" "k_handlers s = Map.empty" "k_syscalls s = Map.empty"
    and "frame_used s1 0" "1026 \<le> card (free_frames s1)" "unat (highest_kernel_page s1) < 1047552"
  shows "\<exists>t d. main_setup img mb magic s = Some t \<and> vmm_ok t d \<and> cr0_pg t \<and> domain_check_enabled t \<and> eflags_if t \<and>
    (\<forall>va. unat va div 4096 \<le> unat (highest_kernel_page s1) \<longrightarrow> pmm_check s1 va \<in> {PMM_KERNEL, PMM_USER} \<longrightarrow>
       mmu_translate t va = Some va) \<and>
    k_handlers t = [0x0E \<mapsto> mmu_handle_page_fault, 0x20 \<mapsto> pit_handle_interrupt, 0x0D \<mapsto> vm86_gpf, 0x30 \<mapsto> isr_syscall] \<and>
    k_syscalls t = [0 \<mapsto> SYSCALL_EXIT, 1 \<mapsto> SYSCALL_GETPID, 2 \<mapsto> SYSCALL_IO_PUTCHAR, 3 \<mapsto> SYSCALL_IO_ATTR] \<and>
    pit_freq (k_pit t) = 50 \<and> boot_out t = boot_out s @ pic_init @ snd (pit_init_channel 0 MODE_RATE 50) \<and>
    gdt_table t = fst (gdt_init (img_tss img) (gdt_table s, tss s)) \<and>
    k_idt t = idt_init (gdt_table t) (img_isr img) (k_idt s) \<and>
    mb_info t = mb' \<and> tasks t = tasks s \<and> task_store t = task_store s \<and> current_task t = current_task s"
proof -
  let ?s = "main_start mb magic s" and ?s2 = "mmu_init (s1\<lparr>mb_info := mb'\<rparr>)"
  have b: "boots ?s s1" by (rule boots_pmm_init[OF assms(1)])
  then have more: "mm.more s1 = mm.more ?s" and dc1: "domain_check_enabled s1 = domain_check_enabled ?s"
    and pg1: "cr0_pg s1 = cr0_pg ?s"
    using keeps_fields[of ?s s1] by (simp_all add: boots_def)
  note m1 = machine_more[OF more]
  have s2: "bitmap ?s2 = bitmap s1" "cr0_pg ?s2 = cr0_pg s1" "domain_check_enabled ?s2 = domain_check_enabled s1"
    "highest_kernel_page ?s2 = highest_kernel_page s1"
    "k_handlers ?s2 = (k_handlers s1)(0x0E \<mapsto> mmu_handle_page_fault)" "k_syscalls ?s2 = k_syscalls s1"
    "boot_out ?s2 = boot_out s1" "tasks ?s2 = tasks s1" "task_store ?s2 = task_store s1"
    "current_task ?s2 = current_task s1" "gdt_table ?s2 = gdt_table s1" "tss ?s2 = tss s1" "k_idt ?s2 = k_idt s1" "mb_info ?s2 = mb'"
    by (simp_all add: mmu_init_def isr_register_handler_def IDT_ENTRIES_def ISR_EXCEPTION_def)
  have ms: "k_handlers ?s = k_handlers s" "k_syscalls ?s = k_syscalls s" "boot_out ?s = boot_out s" "tasks ?s = tasks s"
    "task_store ?s = task_store s" "current_task ?s = current_task s" "gdt_table ?s = gdt_table s" "tss ?s = tss s" "k_idt ?s = k_idt s"
    "cr0_pg ?s = cr0_pg s" "domain_check_enabled ?s = domain_check_enabled s" "mb_info ?s = mb"
    by (simp_all add: main_start_def multiboot_init_def)
  note f = frame_state_bitmap[OF s2(1)]
  have fr: "frame_used ?s2 0" "free_frames ?s2 = free_frames s1" "pmm_check ?s2 = pmm_check s1"
    using assms(6) f by (simp_all add: frame_used_def free_frames_def pmm_check_def frame_state_def fun_eq_iff)
  obtain v t d where t: "vmm_init_paging ?s2 = Some (v, t)" "vmm_ok t d" "cr0_pg t" "domain_check_enabled t"
    and id: "\<forall>va. unat va div 4096 \<le> unat (highest_kernel_page s1) \<longrightarrow> pmm_check s1 va \<in> {PMM_KERNEL, PMM_USER} \<longrightarrow>
       mmu_translate t va = Some va"
    using vmm_init_spec[of ?s2] assms(2,3,7,8) fr s2(2,3,4) pg1 dc1 ms(10,11) by auto
  note m2 = machine_more[OF vmm_init_keeps(1)[OF t(1)]]
  let ?t = "main_tables img (t\<lparr>video_ptr := v\<rparr>)"
  have "main_setup img mb magic s = Some ?t"
    using assms(1) t(1) ms(12) by (simp add: main_setup_def vmm_init_def Let_def)
  moreover have "vmm_ok ?t d" "mmu_translate ?t = mmu_translate t"
    using t(2) vmm_ok_cong[of ?t t] by (simp_all add: main_tables_effect)
  ultimately show ?thesis
    using t(3,4) id m1 m2 s2 ms assms(4,5)
    by (intro exI[of _ ?t] exI[of _ d]) (simp add: main_tables_effect)
qed

subsection \<open>A machine to boot\<close>

text \<open>
  Boot loader information at \<open>0x1000\<close>: no modules, and a memory map with one entry that declares all memory usable.
\<close>

definition info_memory :: "20 word \<Rightarrow> 10 word \<Rightarrow> u32" where
  "info_memory f i = (if f \<noteq> 1 then 0 else if i = 0 then 0x40 else if i = 11 then 24 else if i = 12 then 0x1080
     else if i = 32 then 20 else if i = 35 then 0xFFFFFFFF else if i = 37 then 1 else 0)"

lemma copy_unpaged:
  assumes "\<not> cr0_pg s"
  shows "\<exists>t. copy_loop load8 store8 n d a s = Some t \<and> \<not> cr0_pg t \<and> (\<forall>c. (\<forall>i<n. c \<noteq> d + of_nat i) \<longrightarrow> load8 t c = load8 s c)"
  using assms
proof (induction n arbitrary: d a s)
  case (Suc n)
  obtain b where b: "load8 s a = Some b" using Suc.prems by (simp add: load8_def mmu_translate_def)
  obtain u where u: "store8 d b s = Some u" "\<not> cr0_pg u" "\<forall>c. load8 u c = (if c = d then Some b else load8 s c)"
    using store8_unpaged[OF Suc.prems] by metis
  obtain t where t: "copy_loop load8 store8 n (d + 1) (a + 1) u = Some t" "\<not> cr0_pg t"
      "\<forall>c. (\<forall>i<n. c \<noteq> d + 1 + of_nat i) \<longrightarrow> load8 t c = load8 u c"
    using Suc.IH[OF u(2)] by blast
  have "load8 t c = load8 s c" if c: "\<forall>i<Suc n. c \<noteq> d + of_nat i" for c
  proof -
    have "c \<noteq> d + 1 + of_nat i" if "i < n" for i using c[rule_format, of "Suc i"] that by (simp add: add.assoc)
    moreover have "c \<noteq> d" using c[rule_format, of 0] by simp
    ultimately show ?thesis using t(3) u(3) by simp
  qed
  then show ?case using b u(1) t(1,2) by auto
qed simp

lemma load32_unpaged: "\<not> cr0_pg s \<Longrightarrow> load32 s a \<noteq> None"
  by (simp add: load32_def load16_def load8_def mmu_translate_def)

lemma load32_info:
  assumes "\<not> cr0_pg s" "pmem s = info_memory"
  shows "load32 s 0x1000 = Some 0x40" "load32 s 0x102C = Some 24" "load32 s 0x1030 = Some 0x1080" "load32 s 0x1014 = Some 0"
    "load32 s 0x1080 = Some 20" "load32 s 0x1084 = Some 0" "load32 s 0x108C = Some 0xFFFFFFFF" "load32 s 0x1094 = Some 1"
  using assms
  by (simp_all add: load32_def load16_def load8_def mmu_translate_def info_memory_def get_byte_def byte_shift_def
      phys_frame_def phys_slot_def)

lemma free_memory_info:
  assumes "\<not> cr0_pg s" "pmem s = info_memory"
  shows "multiboot_free_memory 0x1000 s = Some (True, pmm_use 0 0xFFFFFFFF PMM_UNUSED s)"
proof -
  let ?t = "pmm_use 0 0xFFFFFFFF PMM_UNUSED s"
  note l = load32_info[OF assms]
  have "load32 ?t 0x1080 = Some 20" using assms by (intro load32_info) simp_all
  then have "free_memory_loop 0x1080 0x1098 s = free_memory_loop 0x1098 0x1098 ?t"
    by (subst free_memory_loop.simps) (simp add: l)
  moreover have "free_memory_loop 0x1098 0x1098 ?t = Some ?t" by (subst free_memory_loop.simps) simp
  ultimately show ?thesis
    by (simp add: multiboot_free_memory_def mb_flags_mmap_def mmap_addr_def mmap_length_def l bit_numeral_rec)
qed

lemma highest_kept:
  "memcpy d a n s = Some t \<Longrightarrow> highest_kernel_page t = highest_kernel_page s"
  "store32 a v s = Some t \<Longrightarrow> highest_kernel_page t = highest_kernel_page s"
proof -
  have st: "store8 a b s = Some t \<Longrightarrow> highest_kernel_page t = highest_kernel_page s" for a b and s t :: "'a mm_scheme"
    by (auto simp: store8_def poke_def)
  have "copy_loop load8 store8 k d a s = Some t \<Longrightarrow> highest_kernel_page t = highest_kernel_page s" for k
    by (induction k arbitrary: d a s) (auto split: bind_splits dest!: st)
  then show "memcpy d a n s = Some t \<Longrightarrow> highest_kernel_page t = highest_kernel_page s" by (simp add: memcpy_def)
  show "store32 a v s = Some t \<Longrightarrow> highest_kernel_page t = highest_kernel_page s"
    by (auto simp: store32_def store16_def split: bind_splits dest!: st)
qed

lemma copy_memory_info:
  assumes s: "\<not> cr0_pg s" "pmem s = info_memory" and used: "\<forall>q<1024. frame_state s (of_nat q) \<noteq> PMM_UNUSED"
    and free: "free_run s q 1"
  shows "\<exists>r t. multiboot_copy_memory 0x1000 s = Some (page_addr r, t) \<and> r \<le> q \<and> r < 1048576 \<and>
    bitmap t = bitmap (pmm_use (page_addr r) 120 PMM_KERNEL s) \<and>
    highest_kernel_page t = highest_kernel_page (pmm_use (page_addr r) 120 PMM_KERNEL s)"
proof -
  define r where "r = (LEAST q. free_run s q 1)"
  have run: "free_run s r 1" unfolding r_def using free by (rule LeastI)
  have rq: "r \<le> q" unfolding r_def using free by (rule Least_le)
  have r: "1024 \<le> r" "r < 1048576" using run used by (auto simp: free_run_def not_less[symmetric])
  let ?p = "page_addr r"
  have up: "unat ?p = r * 4096" by (rule unat_page_addr[OF r(2)])
  have p0: "?p \<noteq> 0" using up r by auto
  let ?s1 = "pmm_use ?p 120 PMM_KERNEL s"
  have al: "pmm_alloc 120 PMM_KERNEL s = (?p, ?s1)"
  proof -
    have n: "unat (pmm_pages 120) = 1" "(120 :: u32) \<noteq> 0" by (simp_all add: unat_pmm_pages)
    have "\<exists>q. free_run s q 1" using run by blast
    then have "pmm_find_free s 120 = ?p" unfolding pmm_find_free_spec[OF n(2)] n(1) r_def by (simp only: if_True)
    then show ?thesis using p0 by (simp add: pmm_alloc_def Let_def)
  qed
  have s1: "\<not> cr0_pg ?s1" "pmem ?s1 = info_memory" using s by simp_all
  have off: "unat (?p + of_nat i) = r * 4096 + i" if "i < 4096" for i
    using up r(2) that by (simp add: unat_word_ariths unat_of_nat_small)
  have "?p + of_nat i \<noteq> 0x1000 + of_nat j" if "i < 96" "j < 96" for i j
  proof -
    have "unat (0x1000 + of_nat j :: ptr) = 4096 + j" using that by (simp add: unat_word_ariths unat_of_nat_small)
    then show ?thesis using off[of i] that r(1) by (auto simp: word_unat_eq_iff)
  qed
  then obtain t1 where t1: "memcpy ?p 0x1000 96 ?s1 = Some t1"
      "\<And>c. load8 t1 c = (if unat (c - ?p) < 96 then load8 ?s1 (0x1000 + (c - ?p)) else load8 ?s1 c)"
    using memcpy_flat[OF flat_unpaged[OF s1(1)], of 96 ?p "0x1000"] by auto
  have pg1: "\<not> cr0_pg t1" using boots_memcpy[OF t1(1)] s1(1) by (simp add: boots_def)
  obtain a where a: "mmap_addr t1 ?p = Some a" using load32_unpaged[OF pg1] by (auto simp: mmap_addr_def)
  obtain t2 where t2: "memcpy (?p + 96) a 24 t1 = Some t2" "\<not> cr0_pg t2"
      "\<And>c. (\<forall>i<24. c \<noteq> ?p + 96 + of_nat i) \<Longrightarrow> load8 t2 c = load8 t1 c"
    using copy_unpaged[OF pg1, of 24 "?p + 96" a] by (auto simp: memcpy_def)
  obtain t3 where t3: "store32 (?p + 48) (?p + 96) t2 = Some t3"
      "\<And>c. c \<notin> {?p + 48, ?p + 48 + 1, ?p + 48 + 2, ?p + 48 + 3} \<Longrightarrow> load8 t3 c = load8 t2 c"
    using store32_unpaged[OF t2(2)] by metis
  have b: "load8 t3 (?p + of_nat k) = load8 ?s1 (0x1000 + of_nat k)" if k: "k < 4" for k
  proof -
    have ne: "?p + of_nat k \<noteq> ?p + 96 + of_nat i" if "i < 24" for i
      using off[of k] off[of "96 + i"] k that by (auto simp: word_unat_eq_iff add.assoc)
    have "k \<in> {0, 1, 2, 3}" using k by auto
    then have "load8 t3 (?p + of_nat k) = load8 t2 (?p + of_nat k)" by (intro t3(2)) auto
    also have "\<dots> = load8 t1 (?p + of_nat k)" using ne by (intro t2(3)) blast
    also have "\<dots> = load8 ?s1 (0x1000 + of_nat k)" using k by (simp add: t1(2) unat_of_nat_small)
    finally show ?thesis .
  qed
  have "load32 t3 ?p = load32 ?s1 0x1000"
    using b[of 0] b[of 1] b[of 2] b[of 3] by (simp add: load32_def load16_def add.assoc)
  then have mods: "mb_flags_mods t3 ?p = Some False"
    using load32_info(1)[OF s1] by (simp add: mb_flags_mods_def bit_numeral_rec)
  note l = load32_info[OF s]
  have "multiboot_copy_memory 0x1000 s = Some (?p, t3)"
    using al t1(1) a t2(1) t3(1) mods
    by (simp add: multiboot_copy_memory_def mmap_length_def mb_flags_mods_def[of s] mods_count_def l MB_INFO_SIZE_def
        bit_numeral_rec)
  then show ?thesis
    using rq r(2) bitmap_memcpy[OF t1(1)] bitmap_memcpy[OF t2(1)] bitmap_store32[OF t3(1)]
      highest_kept(1)[OF t1(1)] highest_kept(1)[OF t2(1)] highest_kept(2)[OF t3(1)]
    by (intro exI[of _ r] exI[of _ t3]) simp
qed


lemma pmm_init_info:
  assumes s: "\<not> cr0_pg s" "pmem s = info_memory" "highest_kernel_page s = 0"
  shows "\<exists>p t. pmm_init 0x400000 0x40FFFF 0x1000 s = Some (True, p, t) \<and> frame_used t 0 \<and> 1026 \<le> card (free_frames t) \<and>
    unat (highest_kernel_page t) < 1047552 \<and> frame_state t 0x400 = PMM_KERNEL \<and> 0x400 \<le> unat (highest_kernel_page t)"
proof -
  let ?a = "bitmap_reserve (PAGE_NUMBER div PAGES_PER_DWORD) s"
  let ?b = "pmm_use 0 0xFFFFFFFF PMM_UNUSED ?a"
  let ?c = "pmm_use_kernel_memory 0x400000 0x40FFFF (bitmap_reserve (ENTRIES div PAGES_PER_DWORD) ?b)"
  have a: "\<not> cr0_pg ?a" "pmem ?a = info_memory" using s by (simp_all add: bitmap_reserve_def)
  have c: "\<not> cr0_pg ?c" "pmem ?c = info_memory" using s by (simp_all add: bitmap_reserve_def pmm_use_kernel_memory_def)
  have st: "frame_state ?c q = (if unat q < 1024 then PMM_RESERVED else if unat q < 1040 then PMM_KERNEL else PMM_UNUSED)"
    if q: "q < 1048576" for q
  proof -
    have "unat q div 16 < 64 \<longleftrightarrow> unat q < 1024" by auto
    then show ?thesis
      using q by (auto simp: pmm_use_kernel_memory_def frame_state_pmm_use reserve_state pmm_get_page_def
          PAGES_PER_DWORD_def ENTRIES_def word_le_nat_alt word_less_nat_alt)
  qed
  have u: "\<forall>q<1024. frame_state ?c (of_nat q) \<noteq> PMM_UNUSED"
    using st by (auto simp: word_less_nat_alt unat_of_nat_small)
  have f: "free_run ?c 0x1000 1" using st[of "0x1000"] by (simp add: free_run_def)
  obtain r t where t: "multiboot_copy_memory 0x1000 ?c = Some (page_addr r, t)" "r \<le> 0x1000" "r < 1048576"
      "bitmap t = bitmap (pmm_use (page_addr r) 120 PMM_KERNEL ?c)"
      "highest_kernel_page t = highest_kernel_page (pmm_use (page_addr r) 120 PMM_KERNEL ?c)"
    using copy_memory_info[OF c u f] by blast
  let ?t = "pmm_use MULTIBOOT_LOWER_MEMORY (MULTIBOOT_FIRST_PAGE_TABLE - MULTIBOOT_LOWER_MEMORY) PMM_UNUSED t"
  have run: "pmm_init 0x400000 0x40FFFF 0x1000 s = Some (True, page_addr r, ?t)"
    using t(1) free_memory_info[OF a] by (simp add: pmm_init_def Let_def)
  have pages: "unat (pmm_pages 120) = 1" by (simp add: unat_pmm_pages)
  have tf: "frame_state t q = (if unat q = r then PMM_KERNEL else frame_state ?c q)" if q: "q < 1048576" for q
    using frame_state_use_run[of 120 r q PMM_KERNEL ?c] frame_state_bitmap[OF t(4)] q t(3) pages by auto
  have low: "frame_state ?t q = (if 256 \<le> q \<and> q \<le> 1023 then PMM_UNUSED else frame_state t q)" if "q < 1048576" for q
    using frame_state_pmm_use[OF lower_range(3) that, of MULTIBOOT_LOWER_MEMORY PMM_UNUSED t] lower_range(1,2) by simp
  have fr: "frame_state ?t (of_nat n) = (if n = r then PMM_KERNEL else PMM_UNUSED)" if "1040 \<le> n" "n < 1048576" for n
  proof -
    have n: "of_nat n < (1048576 :: u32)" "unat (of_nat n :: u32) = n" using that by (simp_all add: word_less_nat_alt unat_of_nat_small)
    then have "\<not> (of_nat n :: u32) \<le> 1023" using that by (simp add: word_le_nat_alt)
    then show ?thesis using low[OF n(1)] tf[OF n(1)] st[OF n(1)] n(2) that by simp
  qed
  let ?N = "{0x1000..<0x2000} - {r}"
  have "(\<lambda>n. of_nat n :: 20 word) ` ?N \<subseteq> free_frames ?t"
  proof
    fix f assume "f \<in> (\<lambda>n. of_nat n :: 20 word) ` ?N"
    then obtain n where "n \<in> ?N" "f = of_nat n" by blast
    then have n: "f = of_nat n" "0x1000 \<le> n" "n < 0x2000" "n \<noteq> r" by simp_all
    then have "ucast f = (of_nat n :: u32)" by (simp add: word_unat_eq_iff unat_ucast_frame unat_of_nat_small)
    then show "f \<in> free_frames ?t" using fr[of n] n by (simp add: free_frames_def frame_used_def)
  qed
  then have "card ((\<lambda>n. of_nat n :: 20 word) ` ?N) \<le> card (free_frames ?t)" by (rule card_mono[OF finite_free_frames])
  moreover have "card ((\<lambda>n. of_nat n :: 20 word) ` ?N) = card ?N"
  proof (rule card_image)
    show "inj_on (\<lambda>n. of_nat n :: 20 word) ?N" by (rule inj_on_inverseI[where g = unat]) (simp add: unat_of_nat_small)
  qed
  moreover have "4096 - 1 \<le> card ?N" using diff_card_le_card_Diff[of "{r}" "{0x1000..<0x2000::nat}"] by simp
  ultimately have room: "1026 \<le> card (free_frames ?t)" by linarith
  have pg: "pmm_get_page (page_addr r) 119 = of_nat r"
    using unat_page_addr[OF t(3)] t(3) by (simp add: word_unat_eq_iff unat_get_page unat_word_ariths unat_of_nat_small)
  have hc: "highest_kernel_page ?c = 0x40F"
    using s(3) by (simp add: pmm_use_kernel_memory_def highest_pmm_use bitmap_reserve_def pmm_get_page_def)
  have ht: "highest_kernel_page ?t = highest_kernel_page t" using highest_pmm_use[OF lower_range(3), of MULTIBOOT_LOWER_MEMORY PMM_UNUSED t] by simp
  have hi: "unat (highest_kernel_page ?t) < 1047552" "0x400 \<le> unat (highest_kernel_page ?t)"
    using highest_pmm_use[of 120 "page_addr r" PMM_KERNEL ?c] pg hc t(2,5) ht
    by (auto simp: word_less_nat_alt unat_of_nat_small)
  have z: "frame_used ?t 0" "frame_state ?t 0x400 = PMM_KERNEL"
    using low[of 0] tf[of 0] st[of 0] low[of "0x400"] tf[of "0x400"] st[of "0x400"] by (auto simp: frame_used_def)
  show ?thesis using run room hi z by blast
qed

text \<open>The example kernel before it was booted.\<close>

definition boot_image :: image where
  "boot_image = \<lparr>img_start = 0x400000, img_end = 0x40FFFF, img_main2 = 0x400100, img_ps2 = 0x400200, img_tss = 0x401000,
     img_isr = (\<lambda>n. 0x402000 + 16 * of_nat n)\<rparr>"

definition boot_machine :: "unit machine" where
  "boot_machine = kernel.extend (example_kernel\<lparr>highest_kernel_page := 0, pmem := info_memory, cr0_pg := False,
       domain_check_enabled := False, k_handlers := Map.empty, k_syscalls := Map.empty\<rparr>)
     \<lparr>k_idt = (\<lambda>_. \<lparr>func0_15 = 0, idt_selector = 0, idt_reserved = 0, idt_type = 0, idt_st = False, idt_dpl = 0, idt_pr = False,
        func16_31 = 0\<rparr>), mb_info = 0, video_ptr = IO_MEM, boot_out = []\<rparr>"

theorem main_sets_up_witness:
  "\<exists>t. main_setup boot_image 0x1000 0x2BADB002 boot_machine = Some t \<and> cr0_pg t \<and> eflags_if t \<and>
     mmu_translate t 0x400123 = Some 0x400123"
proof -
  let ?s = "main_start 0x1000 0x2BADB002 boot_machine"
  have b: "\<not> cr0_pg boot_machine" "\<not> domain_check_enabled boot_machine" "k_handlers boot_machine = Map.empty"
      "k_syscalls boot_machine = Map.empty"
    by (simp_all add: boot_machine_def kernel.defs)
  have s: "\<not> cr0_pg ?s" "pmem ?s = info_memory" "highest_kernel_page ?s = 0"
    by (simp_all add: main_start_def boot_machine_def kernel.defs)
  obtain p t where t: "pmm_init (img_start boot_image) (img_end boot_image) 0x1000 ?s = Some (True, p, t)"
      "frame_used t 0" "1026 \<le> card (free_frames t)" "unat (highest_kernel_page t) < 1047552"
      "frame_state t 0x400 = PMM_KERNEL" "0x400 \<le> unat (highest_kernel_page t)"
    using pmm_init_info[OF s] by (auto simp: boot_image_def)
  have "pmm_check t 0x400123 = frame_state t 0x400" by (simp add: pmm_check_def frame_state_def pmm_get_page_def)
  then have "pmm_check t 0x400123 \<in> {PMM_KERNEL, PMM_USER}" using t(5) by simp
  moreover have "unat (0x400123 :: ptr) div 4096 \<le> unat (highest_kernel_page t)" using t(6) by simp
  ultimately show ?thesis using main_sets_up[OF t(1) b t(2-4)] by blast
qed

subsection \<open>The first task\<close>

text \<open>
  The task that \<^verbatim>\<open>main\<close> creates is the first one, and with it the invariant of the running kernel holds: from there on
  every interrupt, system call and creation of a task leaves the processor with a running task.
\<close>

lemma main_setup_tasks:
  assumes "main_setup img mb magic s = Some u"
  shows "tasks u = tasks s" "current_task u = current_task s" "eflags_if u"
proof -
  obtain found mb' s1 v t where p: "pmm_init (img_start img) (img_end img) mb (main_start mb magic s) = Some (found, mb', s1)"
    and v: "vmm_init_paging (mmu_init (s1\<lparr>mb_info := mb'\<rparr>)) = Some (v, t)"
    and u: "u = main_tables img (t\<lparr>video_ptr := v\<rparr>)"
    using assms by (auto simp: main_setup_def vmm_init_def main_start_def multiboot_init_def Let_def split: bind_splits)
  have "mm.more s1 = mm.more (main_start mb magic s)"
    using keeps_fields(1)[of _ s1] boots_pmm_init[OF p] by (auto simp: boots_def)
  note m = machine_more[OF this] machine_more[OF vmm_init_keeps(1)[OF v]]
  show "tasks u = tasks s" "current_task u = current_task s" "eflags_if u"
    using m by (simp_all add: u main_tables_effect mmu_init_def isr_register_handler_def main_start_def)
qed

lemma booted_kernel_ok:
  assumes "main img mb magic s = Some (p, t)" "tasks s = (\<lambda>_. 0)" "current_task s = 0" "tasks t p \<noteq> 0"
  shows "p = 1" "kernel_ok 1 t" "eflags_if t"
    "eip (cpu_store t (task_cpu (task_store t (tasks t 1)))) = img_main2 img"
proof -
  obtain u where u: "main_setup img mb magic s = Some u" and c: "task_create_kernel (img_main2 img) 0 STACK_SIZE u = Some (p, t)"
    using assms(1) by (auto simp: main_def split: bind_splits)
  note m = main_setup_tasks[OF u]
  note e = create_detailed_effect[OF c[unfolded task_create_kernel_def], unfolded m assms(2,3) Let_def]
  show p: "p = 1"
  proof (rule ccontr)
    assume "p \<noteq> 1"
    then have "1 < p" using e by linarith
    then show False using e by fastforce
  qed
  obtain x where x: "tasks t = (\<lambda>_. 0)(p := x)" "task_state (task_store t x) = TASK_RUNNING"
      "eip (cpu_store t (task_cpu (task_store t x))) = img_main2 img"
    using e by blast
  show "kernel_ok 1 t"
    using e x p assms(4) by (auto simp: kernel_ok_def in_state_def MAX_TASKS_def inj_on_def)
  show "eflags_if t" using e m(3) by blast
  show "eip (cpu_store t (task_cpu (task_store t (tasks t 1)))) = img_main2 img" using x p by simp
qed

lemma kernel_ok_truncate: "kernel_ok m (kernel.truncate t) \<longleftrightarrow> kernel_ok m t"
  by (simp add: kernel_ok_def in_state_def kernel.truncate_def)

lemma booted_kernel_runs:
  assumes "main img mb magic s = Some (p, t)" "tasks s = (\<lambda>_. 0)" "current_task s = 0" "tasks t p \<noteq> 0"
    and "(kernel_step hw io p)\<^sup>*\<^sup>* (kernel.truncate t) u"
  shows "kernel_ok p u"
  using kernel_steps_ok[OF assms(5)] booted_kernel_ok(1,2)[OF assms(1-4)] by (simp add: kernel_ok_truncate)

end
