(* ===== verification/CPUID.thy ===== *)
theory CPUID
  imports Output
begin

text \<open>
  \<^verbatim>\<open>hardware/cpu/cpuid.c\<close>: what the kernel prints about the processor. The instruction is the parameter \<open>call\<close>, whether
  the processor has it is the parameter \<open>check\<close> (both are assembly in \<^verbatim>\<open>cpuid_asm.S\<close>).
\<close>

unbundle bit_operations_syntax

subsection \<open>The code\<close>

definition CPUID_VENDOR :: u32 where "CPUID_VENDOR = 0"
definition CPUID_FEATURES :: u32 where "CPUID_FEATURES = 1"
definition CPUID_NAME1 :: u32 where "CPUID_NAME1 = 0x80000002"
definition CPUID_NAME2 :: u32 where "CPUID_NAME2 = 0x80000003"
definition CPUID_NAME3 :: u32 where "CPUID_NAME3 = 0x80000004"

record cpuid_result =
  res_eax :: u32
  res_ebx :: u32
  res_ecx :: u32
  res_edx :: u32

text \<open>The bit fields of \<^verbatim>\<open>cpuid_features_t\<close>, in the order of the structure.\<close>

definition processors :: "cpuid_result \<Rightarrow> u8" where "processors f = ucast (drop_bit 16 (res_ebx f))"
definition sse3 :: "cpuid_result \<Rightarrow> bool" where "sse3 f = bit (res_ecx f) 0"
definition ssse3 :: "cpuid_result \<Rightarrow> bool" where "ssse3 f = bit (res_ecx f) 9"
definition sse41 :: "cpuid_result \<Rightarrow> bool" where "sse41 f = bit (res_ecx f) 19"
definition sse42 :: "cpuid_result \<Rightarrow> bool" where "sse42 f = bit (res_ecx f) 20"
definition fpu :: "cpuid_result \<Rightarrow> bool" where "fpu f = bit (res_edx f) 0"
definition vme :: "cpuid_result \<Rightarrow> bool" where "vme f = bit (res_edx f) 1"
definition pse :: "cpuid_result \<Rightarrow> bool" where "pse f = bit (res_edx f) 3"
definition pae :: "cpuid_result \<Rightarrow> bool" where "pae f = bit (res_edx f) 6"
definition apic :: "cpuid_result \<Rightarrow> bool" where "apic f = bit (res_edx f) 9"
definition pse36 :: "cpuid_result \<Rightarrow> bool" where "pse36 f = bit (res_edx f) 17"
definition clflush :: "cpuid_result \<Rightarrow> bool" where "clflush f = bit (res_edx f) 19"
definition acpi :: "cpuid_result \<Rightarrow> bool" where "acpi f = bit (res_edx f) 22"
definition mmx :: "cpuid_result \<Rightarrow> bool" where "mmx f = bit (res_edx f) 23"
definition sse :: "cpuid_result \<Rightarrow> bool" where "sse f = bit (res_edx f) 25"
definition sse2 :: "cpuid_result \<Rightarrow> bool" where "sse2 f = bit (res_edx f) 26"
definition htt :: "cpuid_result \<Rightarrow> bool" where "htt f = bit (res_edx f) 28"

text \<open>The double words of a buffer as bytes, the lowest first, and the terminated string that the buffer holds.\<close>

definition buffer_bytes :: "u32 list \<Rightarrow> u8 list" where
  "buffer_bytes ws = concat (map (\<lambda>w. map (\<lambda>i. ucast (drop_bit (8 * i) w)) [0, 1, 2, 3]) ws)"

definition cpuid_vendor :: "cpuid_result \<Rightarrow> console \<Rightarrow> console option" where
  "cpuid_vendor res s =
     map_option snd (print (\<lambda>_. takeWhile (\<lambda>c. c \<noteq> 0) (buffer_bytes [res_ebx res, res_edx res, res_ecx res, 0])) (chars ''%s'') [0] s)"

definition blank :: u8 where "blank = of_char CHR '' ''"

primrec put_spaces :: "nat \<Rightarrow> console \<Rightarrow> console" where
  "put_spaces 0 s = s"
| "put_spaces (Suc n) s = put_spaces n (snd (io_putchar blank s))"

primrec name_loop :: "u8 list \<Rightarrow> u8 \<Rightarrow> console \<Rightarrow> console" where
  "name_loop [] spaces s = s"
| "name_loop (c # cs) spaces s =
     (if c = 0 then s
      else if c = blank then name_loop cs (spaces + 1) s
      else name_loop cs 0 (snd (io_putchar c (put_spaces (unat spaces) s))))"

definition cpuid_name :: "cpuid_result \<Rightarrow> console \<Rightarrow> console" where
  "cpuid_name res s =
     (let buf = buffer_bytes [res_eax res, res_ebx res, res_ecx res, res_edx res, 0]
      in name_loop (dropWhile (\<lambda>c. c = blank) buf) 0 s)"

text \<open>Constant text, and the features that are present.\<close>

definition say :: "string \<Rightarrow> u32 list \<Rightarrow> console \<Rightarrow> console option" where
  "say fmt args s = map_option snd (print (\<lambda>_. []) (chars fmt) args s)"

primrec say_features :: "(bool \<times> string) list \<Rightarrow> console \<Rightarrow> console option" where
  "say_features [] s = Some s"
| "say_features (f # fs) s = do { s \<leftarrow> (if fst f then say (snd f) [] s else Some s); say_features fs s }"

definition sayln :: "string \<Rightarrow> u32 list \<Rightarrow> console \<Rightarrow> console option" where
  "sayln fmt args s = map_option snd (println screen (\<lambda>_. []) (chars fmt) args s)"

definition cpuid_init :: "bool \<Rightarrow> (u32 \<Rightarrow> cpuid_result) \<Rightarrow> console \<Rightarrow> console option" where
  "cpuid_init check call s =
     do { s \<leftarrow> say ''CPUID init ... '' [] s;
          if check then do {
            s \<leftarrow> say ''%2aok%a. '' [] s;
            let s = cpuid_name (call CPUID_NAME1) s;
            let s = cpuid_name (call CPUID_NAME2) s;
            let s = cpuid_name (call CPUID_NAME3) s;
            s \<leftarrow> say '' by '' [] s;
            s \<leftarrow> cpuid_vendor (call CPUID_VENDOR) s;
            let f = call CPUID_FEATURES;
            s \<leftarrow> say_features
              [(sse f, '', SSE''), (sse2 f, '', SSE2''), (sse3 f, '', SSE3''), (ssse3 f, '', SSSE3''), (sse41 f, '', SSE4.1''),
               (sse42 f, '', SSE4.2''), (fpu f, '', FPU''), (pae f, '', PAE''), (mmx f, '', MMX''), (vme f, '', VME''),
               (apic f, '', APIC''), (acpi f, '', ACPI''), (pse f, '', PSE''), (pse36 f, '', PSE-36''),
               (clflush f, '', CLFLUSH'')] s;
            if htt f then sayln '', hyperthreading with %d processor(s).'' [ucast (processors f)] s
            else sayln '', no hyperthreading.'' [] s }
          else sayln ''%4afail%a. CPUID not available.'' [] s }"

subsection \<open>Trimming\<close>

definition strip_end :: "u8 list \<Rightarrow> u8 list" where
  "strip_end cs = rev (dropWhile (\<lambda>c. c = blank) (rev cs))"

definition trim :: "u8 list \<Rightarrow> u8 list" where
  "trim cs = strip_end (dropWhile (\<lambda>c. c = blank) cs)"

text \<open>The characters of a piece of the name before its terminator.\<close>

definition name_text :: "cpuid_result \<Rightarrow> u8 list" where
  "name_text res = takeWhile (\<lambda>c. c \<noteq> 0) (buffer_bytes [res_eax res, res_ebx res, res_ecx res, res_edx res])"

lemma put_spaces_all: "put_spaces n s = put_all screen (replicate n blank) s"
  by (induction n arbitrary: s) (simp_all add: screen_def)

lemma strip_end_blanks [simp]: "strip_end (replicate n blank) = []"
  by (simp add: strip_end_def)

lemma strip_end_char: "c \<noteq> blank \<Longrightarrow> strip_end (xs @ c # ys) = xs @ c # strip_end ys"
  by (simp add: strip_end_def dropWhile_append dropWhile_eq_Nil_conv)

text \<open>The loop prints the pending blanks and the rest, less the blanks at the end.\<close>

lemma name_loop_text:
  assumes "unat spaces + length cs < 256"
  shows "name_loop cs spaces s = put_all screen (strip_end (replicate (unat spaces) blank @ takeWhile (\<lambda>c. c \<noteq> 0) cs)) s"
  using assms
proof (induction cs arbitrary: spaces s)
  case (Cons c cs)
  have b: "blank \<noteq> 0" by (simp add: blank_def)
  consider "c = 0" | "c = blank" | "c \<noteq> 0" "c \<noteq> blank" by blast
  then show ?case
  proof cases
    case 1
    then show ?thesis by simp
  next
    case 2
    have u: "unat (spaces + 1) = Suc (unat spaces)" using Cons.prems by (simp add: unat_word_ariths)
    then have "name_loop cs (spaces + 1) s = put_all screen (strip_end (replicate (Suc (unat spaces)) blank @ takeWhile (\<lambda>c. c \<noteq> 0) cs)) s"
      using Cons.IH[of "spaces + 1" s] Cons.prems by simp
    then show ?thesis using 2 b by (simp add: replicate_app_Cons_same)
  next
    case 3
    let ?s = "snd (io_putchar c (put_spaces (unat spaces) s))"
    have "name_loop cs 0 ?s = put_all screen (strip_end (takeWhile (\<lambda>c. c \<noteq> 0) cs)) ?s" using Cons.IH[of 0] Cons.prems by simp
    moreover have "?s = put_all screen (replicate (unat spaces) blank @ [c]) s"
      by (simp add: put_spaces_all screen_def)
    ultimately show ?thesis using 3 by (simp add: strip_end_char screen_def)
  qed
qed simp

lemma buffer_bytes_append: "buffer_bytes (xs @ ys) = buffer_bytes xs @ buffer_bytes ys"
  by (simp add: buffer_bytes_def)

lemma takeWhile_dropWhile_blank:
  "takeWhile (\<lambda>c. c \<noteq> 0) (dropWhile (\<lambda>c. c = blank) cs) = dropWhile (\<lambda>c. c = blank) (takeWhile (\<lambda>c. c \<noteq> 0) cs)"
  by (induction cs) (auto simp: blank_def)

lemma takeWhile_terminated: "takeWhile (\<lambda>c. c \<noteq> 0) (cs @ 0 # ds) = takeWhile (\<lambda>c. c \<noteq> (0 :: u8)) cs"
  by (induction cs) auto

lemma cpuid_name_text:
  "cpuid_name res s = put_all screen (trim (name_text res)) s"
proof -
  let ?ws = "[res_eax res, res_ebx res, res_ecx res, res_edx res]"
  let ?b = "buffer_bytes ?ws"
  have buf: "buffer_bytes [res_eax res, res_ebx res, res_ecx res, res_edx res, 0] = ?b @ [0, 0, 0, 0]"
    using buffer_bytes_append[of ?ws "[0]"] by (simp add: buffer_bytes_def)
  have "length (dropWhile (\<lambda>c. c = blank) (?b @ [0, 0, 0, 0])) \<le> length (?b @ [0, 0, 0, 0])" by (rule length_dropWhile_le)
  then have "length (dropWhile (\<lambda>c. c = blank) (?b @ [0, 0, 0, 0])) < 256" by (simp add: buffer_bytes_def)
  then have "cpuid_name res s =
      put_all screen (strip_end (takeWhile (\<lambda>c. c \<noteq> 0) (dropWhile (\<lambda>c. c = blank) (?b @ [0, 0, 0, 0])))) s"
    unfolding cpuid_name_def Let_def buf by (subst name_loop_text) simp_all
  then show ?thesis
    unfolding takeWhile_dropWhile_blank trim_def name_text_def using takeWhile_terminated[of ?b "[0, 0, 0]"] by simp
qed

text \<open>
  C40: A piece of the processor's name is printed without the blanks at its beginning and end, with those inside, and up to its
  terminator: the loop, which prints blanks only when it meets the character behind them, computes the same text
  as trimming on both sides, and its counter of one byte never overflows.
\<close>

theorem cpuid_name_trims:
  "cpuid_name res s = put_all screen (trim (name_text res)) s"
  by (rule cpuid_name_text)

text \<open>
  The processor delivers the name in three pieces, and every piece is trimmed: a blank between two words is lost
  where a piece ends. Here the pieces \<open>''Some Processor ''\<close> and \<open>''X''\<close>.
\<close>

lemma cpuid_name_loses_blank:
  "cpuid_name \<lparr>res_eax = 0x58, res_ebx = 0, res_ecx = 0, res_edx = 0\<rparr>
     (cpuid_name \<lparr>res_eax = 0x656D6F53, res_ebx = 0x6F725020, res_ecx = 0x73736563, res_edx = 0x20726F\<rparr> s) =
   put_all screen (chars ''Some ProcessorX'') s"
proof -
  have 1: "trim (name_text \<lparr>res_eax = 0x656D6F53, res_ebx = 0x6F725020, res_ecx = 0x73736563, res_edx = 0x20726F\<rparr>) = chars ''Some Processor''"
    by code_simp
  have 2: "trim (name_text \<lparr>res_eax = 0x58, res_ebx = 0, res_ecx = 0, res_edx = 0\<rparr>) = chars ''X''"
    by code_simp
  show ?thesis unfolding cpuid_name_text 1 2 by (simp add: chars_def)
qed

text \<open>The vendor is the twelve characters in EBX, EDX and ECX.\<close>

lemma cpuid_vendor_prints:
  "cpuid_vendor res s = Some (put_all screen (takeWhile (\<lambda>c. c \<noteq> 0) (buffer_bytes [res_ebx res, res_edx res, res_ecx res])) s)"
proof -
  have buf: "buffer_bytes [res_ebx res, res_edx res, res_ecx res, 0] = buffer_bytes [res_ebx res, res_edx res, res_ecx res] @ [0, 0, 0, 0]"
    using buffer_bytes_append[of "[res_ebx res, res_edx res, res_ecx res]" "[0]"] by (simp add: buffer_bytes_def)
  show ?thesis
    unfolding cpuid_vendor_def buf takeWhile_terminated
    by (simp add: print_def vprint_def chars_def vprint_flags_def vprint_convert_def IS_DIGIT_def Let_def on_screen.putstr_text)
qed
end
