(* ===== verification/Dump.thy ===== *)
theory Dump
  imports Boot CPUID
begin

text \<open>
  What the kernel prints about itself: the dumps of the page frames (\<^verbatim>\<open>mem/pmm.c\<close>), of the page directory
  (\<^verbatim>\<open>mem/vmm.c\<close>), of the tasks (\<^verbatim>\<open>tasks/task.c\<close>), of a CPU state (\<^verbatim>\<open>interrupts/isr.c\<close>) and of the
  time (\<^verbatim>\<open>hardware/pit.c\<close>). The result of a dump is the sequence of its calls of \<^verbatim>\<open>log\<close> and \<^verbatim>\<open>logln\<close>, each with
  its tag, format and arguments; an empty tag is the null pointer.
\<close>

unbundle bit_operations_syntax

datatype log_arg = Num u32 | Str string
datatype log_call = Log string string "log_arg list" | Logln string string "log_arg list"

subsection \<open>The code\<close>

definition pmm_dump_page :: "u32 \<Rightarrow> u32 \<Rightarrow> 'a pmm_scheme \<Rightarrow> log_call list" where
  "pmm_dump_page start_page i s =
     (if (i - start_page) mod 64 = 0
      then let kilobytes = i * PAGE_SIZE div 1024
           in [Logln '''' '''' [],
               Log ''PMM'' ''[%7d%cB] ''
                 [Num (if kilobytes mod 1024 = 0 then kilobytes div 1024 else kilobytes),
                  Num (of_char (if kilobytes mod 1024 = 0 then CHR ''M'' else CHR ''K''))]]
      else []) @ [Log '''' ''%x'' [Num (pmm_bitmap_get s i)]]"

definition pmm_dump :: "ptr \<Rightarrow> u32 \<Rightarrow> 'a pmm_scheme \<Rightarrow> log_call list" where
  "pmm_dump p len s =
     (if len = 0 then []
      else let start_page = pmm_get_page p 0; end_page = pmm_get_page p (len - 1)
           in Log ''PMM'' ''Memory bitmap from page %05x to %05x:'' [Num start_page, Num end_page] #
              concat (map (\<lambda>i. pmm_dump_page start_page (of_nat i) s) [unat start_page ..< Suc (unat end_page)]) @
              [Logln '''' '''' []])"

definition vmm_dump_entry :: "u32 \<Rightarrow> u32 \<Rightarrow> u32 \<Rightarrow> log_call list" where
  "vmm_dump_entry logged vpage ppage =
     (if logged mod 8 = 0 then [Logln '''' '''' [], Log ''VMM'' '''' []] else []) @
     [Log '''' (if vpage = ppage then ''%s%05x to itself'' else ''%s%05x to  %05x'')
        [Str (if logged mod 8 \<noteq> 0 then '', '' else ''''), Num vpage, Num ppage]]"

primrec vmm_dump_table :: "nat \<Rightarrow> u32 \<Rightarrow> u32 \<Rightarrow> ptr \<Rightarrow> u32 \<Rightarrow> 'a mm_scheme \<Rightarrow> (u32 \<times> log_call list) option" where
  "vmm_dump_table 0 j i page_table logged s = Some (logged, [])"
| "vmm_dump_table (Suc n) j i page_table logged s =
     do { e \<leftarrow> load s (page_table + 4 * j);
          if entry_pr e then do {
            (k, rest) \<leftarrow> vmm_dump_table n (j + 1) i page_table (logged + 1) s;
            Some (k, vmm_dump_entry logged (i * of_nat ENTRIES + j) (entry_page e) @ rest) }
          else vmm_dump_table n (j + 1) i page_table logged s }"

primrec vmm_dump_dir :: "nat \<Rightarrow> u32 \<Rightarrow> u32 \<Rightarrow> 'a mm_scheme \<Rightarrow> log_call list option" where
  "vmm_dump_dir 0 i logged s = Some []"
| "vmm_dump_dir (Suc n) i logged s =
     do { e \<leftarrow> load s (dir_entry_ptr s i);
          if entry_pr e then do {
            page_table \<leftarrow> vmm_get_page_table s (dir_entry_ptr s i) (push_bit 22 i);
            (logged, calls) \<leftarrow> vmm_dump_table ENTRIES 0 i page_table logged s;
            rest \<leftarrow> vmm_dump_dir n (i + 1) logged s;
            Some (calls @ rest) }
          else vmm_dump_dir n (i + 1) logged s }"

definition vmm_dump :: "'a mm_scheme \<Rightarrow> log_call list option" where
  "vmm_dump s =
     do { phys \<leftarrow> vmm_get_physical_address s (page_directory s);
          calls \<leftarrow> vmm_dump_dir ENTRIES 0 0 s;
          Some (Log ''VMM'' ''Page directory at %08x (physical %08x):'' [Num (page_directory s), Num phys] # calls @
            [Logln '''' '''' []]) }"

definition task_line :: "pid \<Rightarrow> task \<Rightarrow> log_call" where
  "task_line p t = Logln ''TASK'' ''%s task with pid %d%s''
     [Str (if task_state t = TASK_RUNNING then ''Running'' else ''Stopped''), Num (of_nat p),
      Str (if task_vm86 t then '' (VM86)'' else '''')]"

partial_function (option) task_dump_loop :: "pid \<Rightarrow> pid \<Rightarrow> 'a os_scheme \<Rightarrow> log_call list option" where
  "task_dump_loop initial p s =
     Option.bind (task_get s p) (\<lambda>t.
       let q = task_get_next_task s p
       in if q \<noteq> 0 \<and> q \<noteq> initial
          then Option.bind (task_dump_loop initial q s) (\<lambda>rest. Some (task_line p t # rest))
          else Some [task_line p t])"

definition task_dump :: "'a os_scheme \<Rightarrow> log_call list option" where
  "task_dump s =
     (let initial = task_get_next_task s 0
      in map_option (Cons (Logln ''TASK'' ''Task list:'' []))
           (if initial = 0 then Some [Logln ''TASK'' ''There are no tasks.'' []] else task_dump_loop initial initial s))"

definition isr_dump_cpu :: "cpu_state \<Rightarrow> log_call list" where
  "isr_dump_cpu c =
     [Logln ''ISR'' ''uss=%08x usp=%08x efl=%08x  cs=    %04x eip=%08x err=%08x int=%08x eax=%08x ecx=%08x edx=%08x''
        [Num (user_ss c), Num (user_esp c), Num (eflags c), Num (ucast (cs c)), Num (eip c), Num (error c), Num (intr c),
         Num (eax (r c)), Num (ecx (r c)), Num (edx (r c))],
      Logln ''ISR'' ''ebx=%08x esp=%08x ebp=%08x esi=%08x edi=%08x  ds=    %04x  es=    %04x  fs=    %04x  gs=    %04x''
        [Num (ebx (r c)), Num (esp (r c)), Num (ebp (r c)), Num (esi (r c)), Num (edi (r c)),
         Num (ucast (ds c)), Num (ucast (es c)), Num (ucast (fs c)), Num (ucast (gs c))]]"

definition pit_dump_time :: "pit \<Rightarrow> console \<Rightarrow> console option" where
  "pit_dump_time p = say ''%02d:%02d:%02d'' [pit_hours p, pit_minutes p, pit_seconds p]"


subsection \<open>The dump of the page frames\<close>

lemma bitmap_get_code: "q < 1048576 \<Longrightarrow> pmm_bitmap_get s q = pmm_flags_code (frame_state s q)"
proof -
  have "pmm_bitmap_get s q = pmm_bitmap_get s q AND 3" by (simp add: pmm_bitmap_get_def Let_def and.assoc)
  then have "unat (pmm_bitmap_get s q) < 4" using unat_and_3[of "pmm_bitmap_get s q"] by simp
  then have "unat (pmm_bitmap_get s q) \<in> {0, 1, 2, 3}" by auto
  then have "pmm_bitmap_get s q \<in> {0, 1, 2, 3}" by (auto simp: word_unat_eq_iff)
  then show ?thesis by (auto simp: frame_state_def pmm_flags_of_def)
qed

text \<open>The digits of the dump are the owners of the pages of the range, in order.\<close>

fun digit_of :: "log_call \<Rightarrow> u32 list" where
  "digit_of (Log t f [Num n]) = (if f = ''%x'' then [n] else [])"
| "digit_of c = []"

primrec digits_of :: "log_call list \<Rightarrow> u32 list" where
  "digits_of [] = []"
| "digits_of (c # calls) = digit_of c @ digits_of calls"

lemma digits_of_append [simp]: "digits_of (xs @ ys) = digits_of xs @ digits_of ys"
  by (induction xs) simp_all

lemma pmm_dump_digits:
  assumes "len \<noteq> 0"
  shows "digits_of (pmm_dump p len s) =
    map (\<lambda>i. pmm_flags_code (frame_state s (of_nat i))) [unat (pmm_get_page p 0) ..< Suc (unat (pmm_get_page p (len - 1)))]"
proof -
  let ?e = "unat (pmm_get_page p (len - 1))"
  have e: "?e < 1048576" using get_page_less[of p "len - 1"] by (simp add: word_less_nat_alt)
  have page: "digits_of (pmm_dump_page a (of_nat i) s) = [pmm_flags_code (frame_state s (of_nat i))]" if "i \<le> ?e" for a i
    using bitmap_get_code[of "of_nat i" s] that e
    by (auto simp: pmm_dump_page_def Let_def word_less_nat_alt unat_of_nat_small)
  have cc: "digits_of (concat (map (\<lambda>i. pmm_dump_page a (of_nat i) s) is)) = map (\<lambda>i. pmm_flags_code (frame_state s (of_nat i))) is"
    if "\<forall>i\<in>set is. i \<le> ?e" for a "is"
    using that by (induction "is") (simp_all add: page)
  show ?thesis
    using assms cc[of "[unat (pmm_get_page p 0) ..< Suc ?e]" "pmm_get_page p 0"]
    by (simp add: pmm_dump_def Let_def del: upt_Suc)
qed

subsection \<open>The list of tasks\<close>

lemma task_dump_loop_lines:
  assumes "after (occupied s) p = B @ A @ [p]" "p < MAX_TASKS" "hd (A @ [p]) = initial"
  shows "task_dump_loop initial p s = Some (map (\<lambda>q. task_line q (task_store s (tasks s q))) (p # B))"
  using assms
proof (induction B arbitrary: p A)
  case Nil
  have "p \<in> set (after (occupied s) p)" by (subst Nil.prems(1)) simp
  then have p: "tasks s p \<noteq> 0" unfolding set_after[OF Nil.prems(2)] by (simp add: occupied_def)
  have "task_get_next_task s p = initial"
    using task_get_next_task_first[OF Nil.prems(2), of s] Nil.prems(1,3) by (cases A) (simp_all add: first_after_def)
  then show ?case using p by (subst task_dump_loop.simps) (simp add: task_get_def)
next
  case (Cons x B)
  note set = set_after[OF Cons.prems(2), of "occupied s"]
  have "p \<in> set (after (occupied s) p)" "x \<in> set (after (occupied s) p)" by (subst Cons.prems(1), simp)+
  then have p: "tasks s p \<noteq> 0" and x: "1 \<le> x" "x < MAX_TASKS" unfolding set by (simp_all add: occupied_def)
  have n: "task_get_next_task s p = x"
    using task_get_next_task_first[OF Cons.prems(2), of s] Cons.prems(1) by (simp add: first_after_def)
  have "initial \<in> set (A @ [p])" using Cons.prems(3) by (cases A) auto
  then have i: "x \<noteq> initial" using distinct_after[OF Cons.prems(2), of "occupied s"] Cons.prems(1) by auto
  have "after (occupied s) x = B @ (A @ [p]) @ [x]" using after_first[OF Cons.prems(2), of "occupied s" x] Cons.prems(1) by simp
  moreover have "hd ((A @ [p]) @ [x]) = initial" using Cons.prems(3) by (cases A) simp_all
  ultimately have "task_dump_loop initial x s = Some (map (\<lambda>q. task_line q (task_store s (tasks s q))) (x # B))"
    using Cons.IH x(2) by blast
  then show ?case using p n x(1) i by (subst task_dump_loop.simps) (simp add: task_get_def)
qed

text \<open>
  C39: The dump of the tasks returns, and it has exactly one line for every task, in the order of the PIDs: the loop
  comes back to the task it began with, whatever slots are in use, and never reads an empty one.
\<close>

theorem task_dump_lists_tasks:
  "task_dump s = Some (Logln ''TASK'' ''Task list:'' [] #
     (case filter (\<lambda>p. tasks s p \<noteq> 0) [1..<MAX_TASKS] of
        [] \<Rightarrow> [Logln ''TASK'' ''There are no tasks.'' []]
      | p # ps \<Rightarrow> map (\<lambda>p. task_line p (task_store s (tasks s p))) (p # ps)))"
proof -
  have m: "0 < MAX_TASKS" by (simp add: MAX_TASKS_def)
  have a: "after (occupied s) 0 = filter (\<lambda>p. tasks s p \<noteq> 0) [1..<MAX_TASKS]" by (simp add: after_def occupied_def[abs_def])
  note f = task_get_next_task_first[OF m, of s]
  show ?thesis
  proof (cases "after (occupied s) 0")
    case Nil
    then have "task_get_next_task s 0 = 0" using f by (simp add: first_after_def)
    then show ?thesis unfolding a[symmetric] Nil by (simp add: task_dump_def)
  next
    case (Cons x xs)
    have x: "1 \<le> x" "x < MAX_TASKS" using set_after[OF m, of "occupied s"] Cons by auto
    have "after (occupied s) x = xs @ [] @ [x]" using after_first[OF m Cons] by simp
    then have "task_dump_loop x x s = Some (map (\<lambda>q. task_line q (task_store s (tasks s q))) (x # xs))"
      using x(2) by (rule task_dump_loop_lines) simp
    moreover have "task_get_next_task s 0 = x" using f Cons by (simp add: first_after_def)
    ultimately show ?thesis unfolding a[symmetric] Cons using x(1) by (simp add: task_dump_def)
  qed
qed

subsection \<open>The dump of the page directory\<close>

text \<open>The mappings of a range of pages, and the lines for them.\<close>

definition mapped :: "'a mm_scheme \<Rightarrow> 20 word \<Rightarrow> nat list \<Rightarrow> (u32 \<times> u32) list" where
  "mapped s d qs = concat (map (\<lambda>q. case page_map s d q of None \<Rightarrow> [] | Some e \<Rightarrow> [(of_nat q, entry_page e)]) qs)"

fun vmm_lines :: "u32 \<Rightarrow> (u32 \<times> u32) list \<Rightarrow> log_call list" where
  "vmm_lines k [] = []"
| "vmm_lines k ((v, p) # xs) = vmm_dump_entry k v p @ vmm_lines (k + 1) xs"

lemma vmm_lines_append: "vmm_lines k (xs @ ys) = vmm_lines k xs @ vmm_lines (k + of_nat (length xs)) ys"
  by (induction k xs rule: vmm_lines.induct) (simp_all add: algebra_simps)

lemma mapped_simps [simp]:
  "mapped s d [] = []" "mapped s d (qs @ rs) = mapped s d qs @ mapped s d rs"
  "mapped s d (q # qs) = (case page_map s d q of None \<Rightarrow> [] | Some e \<Rightarrow> [(of_nat q, entry_page e)]) @ mapped s d qs"
  by (simp_all add: mapped_def)

lemma page_map_table:
  assumes "i < 1024" "j < 1024"
  shows "page_map s d (1024 * i + j) = lookup s d (of_nat i) (of_nat j)"
proof -
  have "(1024 * i + j) div 1024 = i" "(1024 * i + j) mod 1024 = j" using assms by simp_all
  then show ?thesis by (simp only: page_map_def)
qed

lemma word10_of_nat: "j < 1024 \<Longrightarrow> (ucast (of_nat j :: 10 word) :: u32) = of_nat j"
  by (simp add: word_unat_eq_iff unat_ucast_slot unat_of_nat_small)

lemma dump_table:
  assumes tab: "\<And>j :: 10 word. load s (tab + 4 * ucast j) = Some (pmem s f j)"
    and i: "i < 1024" "entry_pr (pmem s d (of_nat i))" "entry_frame (pmem s d (of_nat i)) = f"
  shows "n + j = 1024 \<Longrightarrow> vmm_dump_table n (of_nat j) (of_nat i) tab k s =
    (let xs = mapped s d [1024 * i + j ..< 1024 * i + 1024] in Some (k + of_nat (length xs), vmm_lines k xs))"
proof (induction n arbitrary: j k)
  case (Suc n)
  have j: "j < 1024" using Suc.prems by simp
  have up: "[1024 * i + j ..< 1024 * i + 1024] = (1024 * i + j) # [1024 * i + Suc j ..< 1024 * i + 1024]"
    using j by (simp add: upt_rec)
  have l: "load s (tab + 4 * of_nat j) = Some (pmem s f (of_nat j))" using tab[of "of_nat j"] word10_of_nat[OF j] by simp
  have m: "page_map s d (1024 * i + j) = (if entry_pr (pmem s f (of_nat j)) then Some (pmem s f (of_nat j)) else None)"
    unfolding page_map_table[OF i(1) j] using i(2,3) by (simp add: lookup_def)
  have v: "(of_nat i * of_nat ENTRIES + of_nat j :: u32) = of_nat (1024 * i + j)" by (simp add: ENTRIES_def)
  note IH = Suc.IH[of "Suc j"]
  show ?case
    unfolding up using IH Suc.prems l m v
    by (auto simp: Let_def add.commute[of 1] simp del: of_nat_add of_nat_mult)
qed simp

lemma dump_dir:
  assumes dv: "dir_view s d"
  shows "n + i = 1024 \<Longrightarrow> vmm_dump_dir n (of_nat i) k s = Some (vmm_lines k (mapped s d [1024 * i ..< 1048576]))"
proof (induction n arbitrary: i k)
  case (Suc n)
  have i: "i < 1024" using Suc.prems by simp
  have up: "[1024 * i ..< 1048576] = [1024 * i ..< 1024 * i + 1024] @ [1024 * Suc i ..< 1048576]"
    using upt_add_eq_append[of "1024 * i" "1024 * i + 1024" "1048576 - (1024 * i + 1024)"] i by (simp add: algebra_simps)
  note IH = Suc.IH[of "Suc i"]
  have l: "load s (dir_entry_ptr s (of_nat i)) = Some (pmem s d (of_nat i))"
    using dir_entry_access(1)[OF dv, of "of_nat i"] word10_of_nat[OF i] by simp
  show ?case
  proof (cases "entry_pr (pmem s d (of_nat i))")
    case False
    have "page_map s d (1024 * i + j) = None" if "j < 1024" for j
      unfolding page_map_table[OF i that] using False by (rule lookup_absent)
    then have "page_map s d q = None" if "1024 * i \<le> q" "q < 1024 * i + 1024" for q
      using that by (metis le_add_diff_inverse nat_add_left_cancel_less)
    then have "mapped s d [1024 * i ..< 1024 * i + 1024] = []" by (auto simp: mapped_def)
    then show ?thesis using IH Suc.prems l False unfolding up mapped_simps by (simp add: add.commute)
  next
    case True
    let ?va = "push_bit 22 (of_nat i) :: ptr" and ?f = "entry_frame (pmem s d (of_nat i))"
    have va: "dir_index ?va = of_nat i"
      using i by (auto intro!: bit_word_eqI simp: dir_index_def bit_simps)
    then have pt: "vmm_get_page_table s (dir_entry_ptr s (of_nat i)) ?va = Some (table_ptr s d ?va)"
      using get_page_table[OF dv, of ?va] word10_of_nat[OF i] by (simp add: va_page_table_eq)
    have tab: "load s (table_ptr s d ?va + 4 * ucast j) = Some (pmem s ?f j)" for j
      using table_access(1)[OF dv, of ?va j] True va by simp
    have "vmm_dump_table ENTRIES 0 (of_nat i) (table_ptr s d ?va) k s =
       (let xs = mapped s d [1024 * i ..< 1024 * i + 1024] in Some (k + of_nat (length xs), vmm_lines k xs))"
      using dump_table[OF tab i True refl, of ENTRIES 0 k] by (simp add: ENTRIES_def)
    then show ?thesis using IH Suc.prems l True pt unfolding up mapped_simps
      by (simp add: add.commute[of 1] vmm_lines_append Let_def)
  qed
qed simp

lemma entry_page_addr: "pmm_get_address (entry_page e) 0 = page_addr (unat (entry_frame e))"
  by (auto intro!: bit_word_eqI simp: pmm_get_address_def entry_page_def entry_frame_def bit_simps)


end
