(* ===== verification/Console.thy ===== *)
theory Console
  imports Dump
begin

text \<open>
  What the kernel shows while it boots and runs: the report of \<^verbatim>\<open>multiboot_init\<close>, the task \<^verbatim>\<open>main2\<close> of
  \<^verbatim>\<open>boot/main.c\<close> with its clock and its closing screen, and the melody of \<^verbatim>\<open>hardware/io/speaker.c\<close>.
  \<open>strs\<close> gives the bytes of the string at an address.
\<close>

unbundle bit_operations_syntax

subsection \<open>The report of multiboot\<close>

text \<open>A message that is printed when flag \<open>k\<close> is set, with the fields at the offsets \<open>offs\<close> as its arguments.\<close>

definition mb_say :: "(ptr \<Rightarrow> u8 list) \<Rightarrow> 'a mm_scheme \<Rightarrow> ptr \<Rightarrow> nat \<Rightarrow> string \<Rightarrow> u32 list \<Rightarrow> console \<Rightarrow> console option" where
  "mb_say strs m mb k fmt offs s =
     do { fl \<leftarrow> load32 m mb;
          if bit fl k then do {
            args \<leftarrow> those (map (\<lambda>off. load32 m (mb + off)) offs);
            map_option snd (print strs (chars fmt) args s) }
          else Some s }"

text \<open>The byte \<^verbatim>\<open>drive\<close> is the highest of \<^verbatim>\<open>boot_device\<close>.\<close>

definition mb_say_device :: "(ptr \<Rightarrow> u8 list) \<Rightarrow> 'a mm_scheme \<Rightarrow> ptr \<Rightarrow> console \<Rightarrow> console option" where
  "mb_say_device strs m mb s =
     do { fl \<leftarrow> load32 m mb;
          if bit fl 1 then do {
            device \<leftarrow> load32 m (mb + 12);
            let drive = drop_bit 24 device;
            map_option snd (print strs
              (chars (''booted from '' @ (if bit drive 7 then ''hard'' else ''floppy'') @ '' disk %d, '')) [drive AND 0x7F] s) }
          else Some s }"

definition multiboot_report :: "(ptr \<Rightarrow> u8 list) \<Rightarrow> 'a mm_scheme \<Rightarrow> ptr \<Rightarrow> u32 \<Rightarrow> console \<Rightarrow> console option" where
  "multiboot_report strs m mb magic s =
     do { s \<leftarrow> say ''Multiboot init ... '' [] s;
          if magic \<noteq> MULTIBOOT_BOOTLOADER_MAGIC then sayln ''%4afail%a. Multiboot magic not found.'' [] s
          else do {
            s \<leftarrow> mb_say strs m mb 0 ''%dKB lower and %dKB upper memory, '' [4, 8] s;
            s \<leftarrow> mb_say_device strs m mb s;
            s \<leftarrow> mb_say strs m mb 2 ''boot options %s, '' [16] s;
            s \<leftarrow> mb_say strs m mb 3 ''%d modules, '' [20] s;
            s \<leftarrow> mb_say strs m mb 5 ''%d ELF sections, '' [28] s;
            s \<leftarrow> mb_say strs m mb 6 ''memory map, '' [] s;
            s \<leftarrow> mb_say strs m mb 7 ''%d drives, '' [52] s;
            s \<leftarrow> mb_say strs m mb 8 ''config table, '' [] s;
            s \<leftarrow> mb_say strs m mb 9 ''booted by %s, '' [64] s;
            s \<leftarrow> mb_say strs m mb 10 ''APM table, '' [] s;
            s \<leftarrow> mb_say strs m mb 11 ''VBE, '' [] s;
            sayln ''%2aok%a.'' [] s } }"

subsection \<open>The task main2\<close>

definition ESC :: u8 where "ESC = keyboard_get_keycode ''ESC''"

text \<open>
  Before the loop: the task \<^verbatim>\<open>ps2\<close>, the BIOS call for the video mode (\<open>hook\<close>, \<open>code_start\<close> and \<open>code_end\<close> are the
  symbols of \<^verbatim>\<open>vm86_asm.S\<close>), ten copies of the user program, whose name is at \<open>name\<close>, and the dumps.
\<close>

definition main2_start :: "image \<Rightarrow> ptr \<Rightarrow> ptr \<Rightarrow> ptr \<Rightarrow> ptr \<Rightarrow> ('w, 'a) machine_scheme \<Rightarrow>
    (log_call list \<times> ('w, 'a) machine_scheme) option" where
  "main2_start img hook code_start code_end name s =
     do { (_, s) \<leftarrow> main2_ps2 img s;
          s \<leftarrow> vm86_call_bios hook code_start code_end 0x10
                 \<lparr>edi = 0, esi = 0, ebp = 0, esp = 0, ebx = 0, edx = 0, ecx = 0, eax = 0x0F00\<rparr> s;
          s \<leftarrow> main2_programs 10 name s;
          calls \<leftarrow> vmm_dump s;
          Some (pmm_dump 0 (8 * 256 * 0x1000) s @ calls, s) }"

definition main2_clock :: "pit \<Rightarrow> console \<Rightarrow> console option" where
  "main2_clock p s =
     (let (old_cursor, s) = io_cursor (IO_COORD (IO_COLS - 8) (IO_ROWS - 1)) s
      in do { s \<leftarrow> pit_dump_time p s; Some (snd (io_cursor old_cursor s)) })"

text \<open>
  One round of the loop: the clock, the list of tasks and the finalization. \<open>pit_sleep\<close> ends the round; what
  interrupts do meanwhile is the argument \<open>meanwhile\<close> of the loop.
\<close>

definition main2_round :: "('w, 'a) machine_scheme \<Rightarrow> (log_call list \<times> ('w, 'a) machine_scheme) option" where
  "main2_round s =
     do { c \<leftarrow> main2_clock (k_pit s) (k_console s);
          let s = s\<lparr>k_console := c\<rparr>;
          calls \<leftarrow> task_dump s;
          s \<leftarrow> schedule_finalize_tasks s;
          Some (calls, s) }"

definition main2_stops :: "('w, 'a) machine_scheme \<Rightarrow> bool" where
  "main2_stops s \<longleftrightarrow> keycode (event (kb (k_ps2 s))) = ESC"

partial_function (option) main2_loop ::
  "(nat \<Rightarrow> ('w, 'a) machine_scheme \<Rightarrow> ('w, 'a) machine_scheme option) \<Rightarrow> nat \<Rightarrow> ('w, 'a) machine_scheme \<Rightarrow>
   ('w, 'a) machine_scheme option" where
  "main2_loop meanwhile n s =
     (if main2_stops s then Some s
      else Option.bind (main2_round s) (\<lambda>(calls, s).
             Option.bind (meanwhile n s) (\<lambda>s. main2_loop meanwhile (n + 1) s)))"

text \<open>The closing screen.\<close>

definition line_at :: "u32 \<Rightarrow> u32 \<Rightarrow> string \<Rightarrow> console \<Rightarrow> console option" where
  "line_at x y fmt s = sayln fmt [] (snd (io_cursor (IO_COORD x y) s))"

definition main2_goodbye :: "console \<Rightarrow> console option" where
  "main2_goodbye s =
     do { s \<leftarrow> line_at 16 (IO_ROWS div 2 - 2) ''================================================='' s;
          s \<leftarrow> line_at 16 (IO_ROWS div 2 - 1) ''=                                               ='' s;
          s \<leftarrow> line_at 16 (IO_ROWS div 2) ''=  %15aIt's now safe to turn off your computer. ;)%a  ='' s;
          s \<leftarrow> line_at 16 (IO_ROWS div 2 + 1) ''=                                               ='' s;
          line_at 16 (IO_ROWS div 2 + 2) ''================================================='' s }"

subsection \<open>The melody\<close>

text \<open>
  \<open>gates\<close> is what the speaker port reads, one byte when a tone begins and one when it ends; \<open>clock\<close> the tick counter as
  \<^verbatim>\<open>pit_sleep\<close> reads it, the first time for the deadline. The result is the port writes, what is left of the readings
  and the console; \<open>None\<close> when the readings end.
\<close>

fun reading :: "'b list \<Rightarrow> ('b \<times> 'b list) option" where
  "reading [] = None"
| "reading (x # xs) = Some (x, xs)"

definition speaker_play :: "u32 \<Rightarrow> u32 \<Rightarrow> pit \<Rightarrow> u8 list \<times> u32 list \<times> console \<Rightarrow> (outs \<times> u8 list \<times> u32 list \<times> console) option" where
  "speaker_play freq len p = (\<lambda>(gates, clock, s).
     do { s \<leftarrow> say ''speaker on %d Hz, waiting %d ms, '' [freq, len] s;
          (on, gates, s) \<leftarrow>
            (if fst (pit_init_channel 2 MODE_SQUARE_WAVE freq) then do {
               (gate, gates) \<leftarrow> reading gates;
               Some (speaker_on freq gate, gates, s) }
             else do {
               s \<leftarrow> sayln ''%4aSpeaker frequency must be > 18Hz and < 0.59MHz%a'' [] s;
               Some ([], gates, s) });
          (now, clock) \<leftarrow> reading clock;
          clock \<leftarrow> pit_sleep len (p\<lparr>pit_ticks := now\<rparr>) clock;
          (gate, gates) \<leftarrow> reading gates;
          s \<leftarrow> sayln ''speaker off'' [] s;
          Some (on @ speaker_off gate, gates, clock, s) })"

definition speaker_test_tones :: "u32 list" where
  "speaker_test_tones = [523, 587, 659, 698, 784, 880, 988, 1047, 988, 880, 784, 698, 659, 587]"

text \<open>The loop of \<^verbatim>\<open>speaker_test\<close> has no end; \<open>n\<close> is the number of tones after which one looks at it.\<close>

primrec speaker_test :: "nat \<Rightarrow> pit \<Rightarrow> u8 list \<times> u32 list \<times> console \<Rightarrow> (outs \<times> u8 list \<times> u32 list \<times> console) option" where
  "speaker_test 0 p readings = Some ([], readings)"
| "speaker_test (Suc n) p readings =
     do { (before, readings) \<leftarrow> speaker_test n p readings;
          (writes, readings) \<leftarrow> speaker_play (speaker_test_tones ! (n mod 14)) 200 p readings;
          Some (before @ writes, readings) }"

subsection \<open>Printing never fails\<close>

context char_sink
begin

lemma vprint_plain:
  "of_char CHR ''%'' \<notin> set ps \<Longrightarrow>
   vprint_loop io strs (ps @ qs) args k s = vprint_loop io strs qs args (k + of_nat (length ps)) (put_all io ps s)"
  by (induction ps arbitrary: k s) (simp_all add: Let_def split_def put_one add.assoc)

end

text \<open>The format is complete and finds an argument for each of its conversions.\<close>

definition conversions :: "u8 list" where "conversions = chars ''duxbocs''"

function fmt_ok :: "u8 list \<Rightarrow> nat \<Rightarrow> bool" where
  "fmt_ok [] n = True"
| "fmt_ok (c # fmt) n =
     (if c \<noteq> of_char CHR ''%'' then fmt_ok fmt n
      else case vprint_flags fmt of (_, _, rest) \<Rightarrow>
        (case rest of
           [] \<Rightarrow> False
         | c # rest \<Rightarrow> if c \<in> set conversions then n \<noteq> 0 \<and> fmt_ok rest (n - 1) else fmt_ok rest n))"
  by pat_completeness auto
termination
  by (relation "measure (\<lambda>(fmt, n). length fmt)") (auto dest!: sym[of _ "vprint_flags _"] vprint_flags_length)

lemma convert_total:
  "case vprint_convert io strs c pad_char pad args s of
     None \<Rightarrow> c \<in> set conversions \<and> args = []
   | Some (k, rest, t) \<Rightarrow> rest = (if c \<in> set conversions then tl args else args) \<and> (c \<in> set conversions \<longrightarrow> args \<noteq> [])"
  by (cases args) (auto simp: vprint_convert_def conversions_def chars_def Let_def split: prod.splits)

lemma vprint_loop_total: "vprint_loop io strs fmt args k s \<noteq> None \<longleftrightarrow> fmt_ok fmt (length args)"
proof (induction "length fmt" arbitrary: fmt args k s rule: less_induct)
  case less
  show ?case
  proof (cases fmt)
    case fmt: (Cons c fmt')
    show ?thesis
    proof (cases "c = of_char CHR ''%''")
      case True
      obtain pc pd rest where f: "vprint_flags fmt' = (pc, pd, rest)" by (cases "vprint_flags fmt'") auto
      show ?thesis
      proof (cases rest)
        case (Cons d rest')
        then have l: "length rest' < length fmt" using vprint_flags_length[OF f] fmt by simp
        show ?thesis
        proof (cases "vprint_convert io strs d pc pd args s")
          case None
          then show ?thesis using fmt True f Cons convert_total[where io = io and strs = strs and c = d and pad_char = pc and pad = pd and args = args and s = s] by auto
        next
          case (Some x)
          obtain j rest_args t where x: "x = (j, rest_args, t)" by (cases x)
          have a: "rest_args = (if d \<in> set conversions then tl args else args)" "d \<in> set conversions \<longrightarrow> args \<noteq> []"
            using Some x convert_total[where io = io and strs = strs and c = d and pad_char = pc and pad = pd and args = args and s = s] by auto
          have "vprint_loop io strs rest' rest_args (k + j) t \<noteq> None \<longleftrightarrow> fmt_ok rest' (length rest_args)"
            by (rule less[OF l])
          then show ?thesis using fmt True f Cons Some x a by (auto split: if_splits)
        qed
      qed (use fmt True f in simp)
    next
      case False
      then show ?thesis using fmt less[of fmt'] by (auto simp: Let_def split: prod.splits)
    qed
  qed simp
qed

lemma vprint_total: "vprint io strs fmt args s \<noteq> None \<longleftrightarrow> fmt_ok fmt (length args)"
  unfolding vprint_def by (rule vprint_loop_total)

lemma say_total:
  "fmt_ok (chars fmt) (length args) \<Longrightarrow> \<exists>t. say fmt args s = Some t"
  "fmt_ok (chars fmt) (length args) \<Longrightarrow> \<exists>t. sayln fmt args s = Some t"
  using vprint_total[of screen "\<lambda>_. []" "chars fmt" args s]
  by (auto simp: say_def sayln_def print_def println_def Let_def split: prod.splits)

lemma those_load: "\<not> cr0_pg m \<Longrightarrow> \<exists>vs. those (map (\<lambda>off. load32 m (mb + off)) offs) = Some vs \<and> length vs = length offs"
proof (induction offs)
  case (Cons off offs)
  then show ?case using load32_unpaged[of m "mb + off"] by auto
qed simp

lemma mb_say_total:
  assumes "\<not> cr0_pg m" "fmt_ok (chars fmt) (length offs)"
  shows "\<exists>t. mb_say strs m mb k fmt offs s = Some t"
proof -
  obtain fl where f: "load32 m mb = Some fl" using load32_unpaged[OF assms(1), of mb] by auto
  obtain vs where v: "those (map (\<lambda>off. load32 m (mb + off)) offs) = Some vs" "length vs = length offs"
    using those_load[OF assms(1)] by blast
  show ?thesis
    using f v vprint_total[of screen strs "chars fmt" vs s] assms(2) by (auto simp: mb_say_def print_def)
qed

lemma mb_say_device_total:
  assumes "\<not> cr0_pg m"
  shows "\<exists>t. mb_say_device strs m mb s = Some t"
proof -
  have ok: "fmt_ok (chars (''booted from '' @ (if b then ''hard'' else ''floppy'') @ '' disk %d, '')) 1" for b
    by (cases b) (simp_all, code_simp+)
  obtain fl where f: "load32 m mb = Some fl" using load32_unpaged[OF assms(1), of mb] by auto
  obtain d where d: "load32 m (mb + 12) = Some d" using load32_unpaged[OF assms(1), of "mb + 12"] by auto
  let ?drive = "drop_bit 24 d"
  show ?thesis
    using f d ok[of "bit ?drive 7"]
      vprint_total[of screen strs "chars (''booted from '' @ (if bit ?drive 7 then ''hard'' else ''floppy'') @ '' disk %d, '')"
        "[?drive AND 0x7F]" s]
    by (auto simp: mb_say_device_def print_def Let_def)
qed

lemma report_formats:
  "fmt_ok (chars ''Multiboot init ... '') 0" "fmt_ok (chars ''%4afail%a. Multiboot magic not found.'') 0"
  "fmt_ok (chars ''%dKB lower and %dKB upper memory, '') 2" "fmt_ok (chars ''boot options %s, '') 1"
  "fmt_ok (chars ''%d modules, '') 1" "fmt_ok (chars ''%d ELF sections, '') 1" "fmt_ok (chars ''memory map, '') 0"
  "fmt_ok (chars ''%d drives, '') 1" "fmt_ok (chars ''config table, '') 0" "fmt_ok (chars ''booted by %s, '') 1"
  "fmt_ok (chars ''APM table, '') 0" "fmt_ok (chars ''VBE, '') 0" "fmt_ok (chars ''%2aok%a.'') 0"
  by code_simp+

lemma mb_say_step:
  assumes "\<not> cr0_pg m" "fmt_ok (chars fmt) (length offs)" "\<And>u. \<exists>t. f u = Some t"
  shows "\<exists>t. (do { u \<leftarrow> mb_say strs m mb k fmt offs s; f u }) = Some t"
  using mb_say_total[OF assms(1,2), of strs mb k s] assms(3) by auto

text \<open>
  Whatever the boot loader passed, \<^verbatim>\<open>multiboot_init\<close> reports it and returns: each of its formats has the arguments
  it names.
\<close>

theorem multiboot_report_returns:
  assumes "\<not> cr0_pg m"
  shows "\<exists>t. multiboot_report strs m mb magic s = Some t"
proof -
  obtain u where u: "say ''Multiboot init ... '' [] s = Some u"
    using say_total(1)[of "''Multiboot init ... ''" "[]" s] report_formats(1) by auto
  show ?thesis
  proof (cases "magic = MULTIBOOT_BOOTLOADER_MAGIC")
    case False
    then show ?thesis
      using u say_total(2)[of "''%4afail%a. Multiboot magic not found.''" "[]" u] report_formats(2)
      by (auto simp: multiboot_report_def)
  next
    case True
    obtain v where v: "mb_say strs m mb 0 ''%dKB lower and %dKB upper memory, '' [4, 8] u = Some v"
      using mb_say_total[OF assms, of "''%dKB lower and %dKB upper memory, ''" "[4, 8]" strs mb 0 u] report_formats(3)
      by (auto simp: numeral_2_eq_2)
    obtain w where w: "mb_say_device strs m mb v = Some w" using mb_say_device_total[OF assms] by blast
    show ?thesis
      unfolding multiboot_report_def using True u v w
      apply simp
      apply (rule mb_say_step[OF assms], use report_formats in \<open>simp; fail\<close>)+
      using say_total(2)[of "''%2aok%a.''" "[]"] report_formats by auto
  qed
qed

subsection \<open>The loop\<close>

text \<open>The state after \<open>k\<close> rounds in which the escape key was not seen.\<close>

primrec main2_rounds ::
  "(nat \<Rightarrow> ('w, 'a) machine_scheme \<Rightarrow> ('w, 'a) machine_scheme option) \<Rightarrow> nat \<Rightarrow> nat \<Rightarrow> ('w, 'a) machine_scheme \<Rightarrow>
   ('w, 'a) machine_scheme option" where
  "main2_rounds meanwhile 0 n s = Some s"
| "main2_rounds meanwhile (Suc k) n s =
     (if main2_stops s then None
      else do { (calls, s) \<leftarrow> main2_round s; s \<leftarrow> meanwhile n s; main2_rounds meanwhile k (n + 1) s })"

lemma main2_loop_sound:
  assumes "main2_loop meanwhile n s = Some t"
  shows "\<exists>k. main2_rounds meanwhile k n s = Some t \<and> main2_stops t"
proof (rule main2_loop.raw_induct[OF _ assms, where P = "\<lambda>meanwhile n s t. \<exists>k. main2_rounds meanwhile k n s = Some t \<and> main2_stops t"])
  fix loop meanwhile n s t
  assume IH: "\<And>meanwhile n s t. loop meanwhile n s = Some t \<Longrightarrow> \<exists>k. main2_rounds meanwhile k n s = Some t \<and> main2_stops t"
    and run: "(if main2_stops s then Some s
      else Option.bind (main2_round s) (\<lambda>(calls, s). Option.bind (meanwhile n s) (loop meanwhile (n + 1)))) = Some t"
  show "\<exists>k. main2_rounds meanwhile k n s = Some t \<and> main2_stops t"
  proof (cases "main2_stops s")
    case True
    then show ?thesis using run by (intro exI[of _ 0]) simp
  next
    case False
    then obtain calls u v where r: "main2_round s = Some (calls, u)" "meanwhile n u = Some v" "loop meanwhile (n + 1) v = Some t"
      using run by (auto split: bind_splits)
    obtain k where "main2_rounds meanwhile k (n + 1) v = Some t" "main2_stops t" using IH[OF r(3)] by blast
    then show ?thesis using False r by (intro exI[of _ "Suc k"]) simp
  qed
qed

lemma main2_loop_complete: "main2_rounds meanwhile k n s = Some t \<Longrightarrow> main2_stops t \<Longrightarrow> main2_loop meanwhile n s = Some t"
proof (induction k arbitrary: n s)
  case 0
  then show ?case by (subst main2_loop.simps) simp
next
  case (Suc k)
  then obtain calls u v where "\<not> main2_stops s" "main2_round s = Some (calls, u)" "meanwhile n u = Some v"
      "main2_rounds meanwhile k (n + 1) v = Some t"
    by (auto split: bind_splits if_splits)
  then show ?case using Suc.IH[of "n + 1" v] Suc.prems(2) by (subst main2_loop.simps) simp
qed

text \<open>
  The loop of \<^verbatim>\<open>main2\<close> returns exactly when some round begins with an event of the escape key as the last event of the
  keyboard; an escape key that another key follows before the next look is not seen.
\<close>

theorem main2_loop_returns:
  "main2_loop meanwhile n s = Some t \<longleftrightarrow> (\<exists>k. main2_rounds meanwhile k n s = Some t \<and> main2_stops t)"
  using main2_loop_sound main2_loop_complete by blast

subsection \<open>The speaker\<close>

lemma tones_playable: "k < 14 \<Longrightarrow> fst (pit_init_channel 2 MODE_SQUARE_WAVE (speaker_test_tones ! k))"
proof -
  have "\<forall>f\<in>set speaker_test_tones. fst (pit_init_channel 2 MODE_SQUARE_WAVE f)"
    by (simp add: speaker_test_tones_def pit_init_channel_def Let_def)
  moreover assume "k < 14"
  then have "speaker_test_tones ! k \<in> set speaker_test_tones" by (intro nth_mem) (simp add: speaker_test_tones_def)
  ultimately show ?thesis by blast
qed

lemma concat_map_extend:
  "concat (map (\<lambda>k. f k (on k) (off k)) [0..<n]) @ f n g h =
   concat (map (\<lambda>k. f k ((on(n := g)) k) ((off(n := h)) k)) [0..<Suc n])"
proof -
  have "map (\<lambda>k. f k ((on(n := g)) k) ((off(n := h)) k)) [0..<n] = map (\<lambda>k. f k (on k) (off k)) [0..<n]"
    unfolding map_eq_conv by auto
  then show ?thesis by (simp only: upt_Suc_append le0 map_append concat_append) simp
qed

lemma play_writes:
  assumes "fst (pit_init_channel 2 MODE_SQUARE_WAVE freq)" "speaker_play freq len p readings = Some (writes, rest)"
  shows "\<exists>gate gate'. writes = speaker_on freq gate @ speaker_off gate'"
  using assms by (auto simp: speaker_play_def split: bind_splits prod.splits)

lemma play_length:
  assumes "fst (pit_init_channel 2 MODE_SQUARE_WAVE freq)"
  shows "length (speaker_on freq gate @ speaker_off gate') = 5"
  using assms by (auto simp: speaker_on_def speaker_off_def pit_init_channel_def Let_def split: if_splits)

text \<open>
  After \<open>n\<close> tones of \<^verbatim>\<open>speaker_test\<close> the ports were written five times for each, in order: the counter of the tone,
  the speaker on, the speaker off.
\<close>

theorem speaker_test_writes:
  assumes "speaker_test n p readings = Some (writes, rest)"
  shows "\<exists>on off. writes = concat (map (\<lambda>k. speaker_on (speaker_test_tones ! (k mod 14)) (on k) @ speaker_off (off k)) [0..<n]) \<and>
    length writes = 5 * n"
  using assms
proof (induction n arbitrary: writes rest)
  case (Suc n)
  let ?f = "speaker_test_tones ! (n mod 14)"
  obtain before mid more where b: "speaker_test n p readings = Some (before, mid)"
    and m: "speaker_play ?f 200 p mid = Some (more, rest)" and w: "writes = before @ more"
    using Suc.prems by (auto split: bind_splits)
  obtain on off where c: "before = concat (map (\<lambda>k. speaker_on (speaker_test_tones ! (k mod 14)) (on k) @ speaker_off (off k)) [0..<n])"
    "length before = 5 * n" using Suc.IH[OF b] by blast
  have ok: "fst (pit_init_channel 2 MODE_SQUARE_WAVE ?f)" by (rule tones_playable) simp
  obtain g g' where more: "more = speaker_on ?f g @ speaker_off g'" using play_writes[OF ok m] by blast
  have "writes = concat (map (\<lambda>k. speaker_on (speaker_test_tones ! (k mod 14)) ((on(n := g)) k) @
      speaker_off ((off(n := g')) k)) [0..<Suc n])"
    unfolding w c(1) more by (rule concat_map_extend)
  moreover have "length writes = 5 * Suc n" using w c(2) play_length[OF ok, of g g'] more by simp
  ultimately show ?case by blast
qed simp

subsection \<open>The screen of main2\<close>

lemma put_row:
  assumes "10 \<notin> set ps" "ps \<noteq> []" "unat (console_cursor s) + length ps \<le> 2000" "unat (console_cursor s) < 2000"
  shows "video (put_all screen ps s) = (\<lambda>k. if 2 * unat (console_cursor s) \<le> k \<and> k < 2 * (unat (console_cursor s) + length ps)
      then if even k then ps ! (k div 2 - unat (console_cursor s)) else console_attr s else video s k)"
    "unat (console_cursor (put_all screen ps s)) = (unat (console_cursor s) + length ps) mod 2000"
    "console_attr (put_all screen ps s) = console_attr s"
proof -
  let ?c = "unat (console_cursor s)"
  note b = put_all_screen[of ps s, unfolded mod_less[OF assms(4)]]
  have d: "k < 4000 \<and> cell_distance ?c (k div 2) < length ps \<longleftrightarrow> 2 * ?c \<le> k \<and> k < 2 * (?c + length ps)" for k
    using assms(3,4) by (cases "k < 4000") (auto simp: cell_distance_less)
  have "cell_distance ?c (k div 2) = k div 2 - ?c" if "2 * ?c \<le> k" "k < 4000" for k
    using that assms(4) by (auto simp: cell_distance_less)
  then show "video (put_all screen ps s) = (\<lambda>k. if 2 * ?c \<le> k \<and> k < 2 * (?c + length ps)
      then if even k then ps ! (k div 2 - ?c) else console_attr s else video s k)"
    using b assms d by (auto simp: fun_eq_iff)
  show "unat (console_cursor (put_all screen ps s)) = (?c + length ps) mod 2000"
    "console_attr (put_all screen ps s) = console_attr s"
    using b assms by simp_all
qed

definition two_digits :: "u32 \<Rightarrow> u8 list" where
  "two_digits n = [48 + ucast (n div 10), 48 + ucast (n mod 10)]"

text \<open>The time as \<^verbatim>\<open>HH:MM:SS\<close>.\<close>

definition time_text :: "pit \<Rightarrow> u8 list" where
  "time_text p = two_digits (pit_hours p) @ [58] @ two_digits (pit_minutes p) @ [58] @ two_digits (pit_seconds p)"

lemma number_text_two:
  assumes "n < 100"
  shows "number_text n 10 2 48 = two_digits n"
proof -
  have "list_all (\<lambda>k. number_text (of_nat k) 10 2 48 = two_digits (of_nat k)) [0..<100]" by code_simp
  moreover have "unat n < 100" using assms by (simp add: word_less_nat_alt)
  ultimately have "number_text (of_nat (unat n)) 10 2 48 = two_digits (of_nat (unat n))"
    unfolding list_all_iff by (metis atLeastLessThan_iff le0 set_upt)
  then show ?thesis by simp
qed

lemma small_positive:
  assumes "n < (100 :: u32)"
  shows "n AND 0x80000000 = 0"
proof -
  have "n < 2 ^ 7" using assms by (simp add: word_less_nat_alt)
  then have "n = take_bit 7 n" by (metis less_mask_eq take_bit_eq_mask)
  moreover have "\<not> bit (take_bit 7 n) 31" by (simp add: bit_take_bit_iff)
  ultimately have "\<not> bit n 31" by simp
  moreover have "n AND 0x80000000 = n AND pow2 31" by (simp add: pow2_def)
  ultimately show ?thesis by (intro bit_eqI) (auto simp: bit_and_iff bit_pow2 simp del: pow2_def)
qed

lemma dump_time_text:
  assumes "pit_hours p < 100" "pit_minutes p < 100" "pit_seconds p < 100"
  shows "pit_dump_time p s = Some (put_all screen (time_text p) s)"
proof -
  have put: "io_putint screen n 10 2 48 s = (2, put_all screen (two_digits n) s)" if "n < 100" for n s
    using on_screen.putint_text[of 10 2 n 48 s] number_text_two[OF that] by (simp add: two_digits_def)
  have f: "chars ''%02d:%02d:%02d'' = [37, 48, 50, 100, 58, 37, 48, 50, 100, 58, 37, 48, 50, 100]" by code_simp
  show ?thesis
    using small_positive assms put
    by (simp add: pit_dump_time_def say_def print_def vprint_def f vprint_flags_def vprint_convert_def IS_DIGIT_def Let_def
        time_text_def split_def on_screen.put_one)
qed

lemma put_all_screen_rest:
  "logging_enabled (put_all screen ps s) = logging_enabled s" "debug_out (put_all screen ps s) = debug_out s"
  by (induction ps arbitrary: s) (simp_all add: screen_def io_putchar_def io_setattr_def io_setchar_def Let_def)

lemma cursor_at:
  assumes "unat pos < 2000"
  shows "snd (io_cursor pos s) = s\<lparr>console_cursor := pos\<rparr>"
proof -
  have "pos < 2 ^ 31" using assms by (simp add: word_less_nat_alt)
  then have "\<not> bit pos 31" by (metis bit_take_bit_iff less_irrefl less_mask_eq take_bit_eq_mask)
  then have "0 \<le> sint pos" by (simp add: sint_uint bit_unsigned_iff)
  then show ?thesis by (simp add: io_cursor_def)
qed

text \<open>
  The clock of \<^verbatim>\<open>main2\<close>. While the kernel runs for less than a hundred hours, the time appears in the last eight cells of the
  screen, in the current attribute; no other cell changes and the cursor is where it was.
\<close>

theorem main2_clock_shows_time:
  assumes "pit_hours p < 100" "pit_minutes p < 60" "pit_seconds p < 60" "unat (console_cursor s) < 2000"
  shows "main2_clock p s = Some (s\<lparr>video := (\<lambda>k. if 3984 \<le> k \<and> k < 4000
      then if even k then time_text p ! (k div 2 - 1992) else console_attr s else video s k)\<rparr>)"
proof -
  let ?pos = "IO_COORD (IO_COLS - 8) (IO_ROWS - 1) :: u32" and ?text = "time_text p"
  let ?s = "s\<lparr>console_cursor := ?pos\<rparr>"
  have pos: "unat ?pos = 1992" by (simp add: IO_COORD_def IO_COLS_def IO_ROWS_def)
  have d: "10 \<notin> set (two_digits n)" if "n < 100" for n
  proof -
    have "list_all (\<lambda>k. 10 \<notin> set (two_digits (of_nat k))) [0..<100]" by code_simp
    moreover have "unat n < 100" using that by (simp add: word_less_nat_alt)
    ultimately have "10 \<notin> set (two_digits (of_nat (unat n)))"
      unfolding list_all_iff by (metis atLeastLessThan_iff le0 set_upt)
    then show ?thesis by simp
  qed
  have m: "pit_minutes p < 100" "pit_seconds p < 100" using assms(2,3) by (auto intro: less_trans)
  have t: "10 \<notin> set ?text" "?text \<noteq> []" "length ?text = 8"
    using d[OF assms(1)] d[OF m(1)] d[OF m(2)] by (simp_all add: time_text_def two_digits_def)
  note row = put_row[of ?text ?s]
  let ?u = "put_all screen ?text ?s"
  have "snd (io_cursor (console_cursor s) ?u) = ?u\<lparr>console_cursor := console_cursor s\<rparr>"
    by (rule cursor_at[OF assms(4)])
  moreover have "main2_clock p s = Some (snd (io_cursor (console_cursor s) ?u))"
    using pos cursor_at[of ?pos s] by (simp add: main2_clock_def split_def dump_time_text[OF assms(1) m] io_cursor_def)
  moreover have "?u\<lparr>console_cursor := console_cursor s\<rparr> = s\<lparr>video := (\<lambda>k. if 3984 \<le> k \<and> k < 4000
      then if even k then ?text ! (k div 2 - 1992) else console_attr s else video s k)\<rparr>"
    using row(1,3) t pos by (intro console.equality) (simp_all add: put_all_screen_rest cong: if_cong)
  ultimately show ?thesis by simp
qed

text \<open>After a hundred hours the text is one cell too long: the last digit of the seconds is put into the corner of the screen.\<close>

lemma clock_overruns_corner:
  assumes "console_cursor s = 0" "n < 10"
  shows "map_option (\<lambda>t. video t 0)
     (main2_clock \<lparr>pit_freq = f, pit_seconds = n, pit_minutes = 0, pit_hours = 100, pit_ticks = k\<rparr> s) = Some (48 + ucast n)"
proof -
  let ?s = "s\<lparr>console_cursor := 1992\<rparr>" and ?text = "[49, 48, 48, 58] @ two_digits 0 @ [58] @ two_digits n"
  have put: "io_putint screen n 10 2 48 s = (2, put_all screen (two_digits n) s)" if "n < 100" for n s
    using on_screen.putint_text[of 10 2 n 48 s] number_text_two[OF that] by (simp add: two_digits_def)
  have "number_text 100 10 2 48 = [49, 48, 48]" by code_simp
  then have hours: "io_putint screen 100 10 2 48 s = (3, put_all screen [49, 48, 48] s)" for s
    using on_screen.putint_text[of 10 2 100 48 s] by simp
  have f: "chars ''%02d:%02d:%02d'' = [37, 48, 50, 100, 58, 37, 48, 50, 100, 58, 37, 48, 50, 100]" by code_simp
  have n: "n < 100" using assms(2) by (rule less_trans) simp
  have dump: "pit_dump_time \<lparr>pit_freq = f, pit_seconds = n, pit_minutes = 0, pit_hours = 100, pit_ticks = k\<rparr> s =
      Some (put_all screen ?text s)" for s
    using small_positive[OF n] put[OF n] put[of 0] hours
    by (simp add: pit_dump_time_def say_def print_def vprint_def f vprint_flags_def vprint_convert_def IS_DIGIT_def Let_def
        split_def on_screen.put_one)
  have pos: "IO_COORD (IO_COLS - 8) (IO_ROWS - 1) = 1992" by (simp add: IO_COORD_def IO_COLS_def IO_ROWS_def)
  have d: "two_digits n = [48, 48 + ucast n]" "48 + ucast n \<noteq> (10 :: u8)"
  proof -
    have "list_all (\<lambda>k. two_digits (of_nat k) = [48, 48 + ucast (of_nat k :: u32)] \<and> 48 + ucast (of_nat k :: u32) \<noteq> (10 :: u8)) [0..<10]"
      by code_simp
    moreover have "unat n < 10" using assms(2) by (simp add: word_less_nat_alt)
    ultimately have "two_digits (of_nat (unat n)) = [48, 48 + ucast (of_nat (unat n) :: u32)] \<and> 48 + ucast (of_nat (unat n) :: u32) \<noteq> (10 :: u8)"
      unfolding list_all_iff by (metis atLeastLessThan_iff le0 set_upt)
    then show "two_digits n = [48, 48 + ucast n]" "48 + ucast n \<noteq> (10 :: u8)" by simp_all
  qed
  have z: "two_digits 0 = [48, 48]" by code_simp
  have "video (put_all screen ?text ?s) 0 = 48 + ucast n"
    using put_all_screen[of ?text ?s 0] d z by (simp add: cell_distance_def)
  then show ?thesis
    by (simp add: main2_clock_def split_def cursor_at pos dump) (simp add: io_cursor_def)
qed

text \<open>From \<open>s\<close> to \<open>t\<close> the text \<open>ps\<close> was drawn from cell \<open>p\<close> on, and nothing else.\<close>

definition drawn :: "nat \<Rightarrow> u8 list \<Rightarrow> console \<Rightarrow> console \<Rightarrow> bool" where
  "drawn p ps s t \<longleftrightarrow> (\<forall>i<length ps. video t (2 * (p + i)) = ps ! i) \<and>
     (\<forall>k. k < 2 * p \<or> 2 * (p + length ps) \<le> k \<longrightarrow> video t k = video s k)"

lemma drawn_append:
  assumes "drawn p ps s u" "drawn (p + length ps) qs u t"
  shows "drawn p (ps @ qs) s t"
  unfolding drawn_def
proof (intro conjI allI impI)
  fix i assume i: "i < length (ps @ qs)"
  show "video t (2 * (p + i)) = (ps @ qs) ! i"
  proof (cases "i < length ps")
    case True
    then have "video t (2 * (p + i)) = video u (2 * (p + i))" using assms(2) by (simp add: drawn_def)
    then show ?thesis using True assms(1) by (simp add: drawn_def nth_append)
  next
    case False
    have "video t (2 * (p + length ps + j)) = qs ! j" if "j < length qs" for j using assms(2) that by (simp add: drawn_def)
    from this[of "i - length ps"] False i have "video t (2 * (p + i)) = qs ! (i - length ps)" by simp
    then show ?thesis using False by (simp add: nth_append)
  qed
next
  fix k assume "k < 2 * p \<or> 2 * (p + length (ps @ qs)) \<le> k"
  then show "video t k = video s k" using assms by (auto simp: drawn_def)
qed

lemma drawn_put:
  assumes "10 \<notin> set ps" "ps \<noteq> []" "unat (console_cursor s) + length ps < 2000"
  shows "drawn (unat (console_cursor s)) ps s (put_all screen ps s)"
    "unat (console_cursor (put_all screen ps s)) = unat (console_cursor s) + length ps"
  using put_row[OF assms(1,2), of s] assms(3) by (auto simp: drawn_def)

lemma drawn_cong: "video s = video s' \<Longrightarrow> video t = video t' \<Longrightarrow> drawn p ps s t \<longleftrightarrow> drawn p ps s' t'"
  by (simp add: drawn_def)

lemma sayln_plain:
  assumes "of_char CHR ''%'' \<notin> set (chars fmt)"
  shows "sayln fmt [] s = Some (snd (io_putchar 10 (put_all screen (chars fmt) s)))"
  using on_screen.vprint_plain[OF assms, of "\<lambda>_. []" "[]" "[]" 0 s]
  by (simp add: sayln_def println_def vprint_def Let_def split_def screen_def[symmetric]) (simp add: screen_def)

lemma screen_put: "sink_put screen = io_putchar"
  by (simp add: screen_def)

lemma line_break_video [simp]: "video (snd (io_putchar 10 s)) = video s"
  by (simp add: io_putchar_def)

lemma line_plain:
  assumes "unat (IO_COORD x y) = p" "p + length fmt < 2000" "fmt \<noteq> []" "10 \<notin> set (chars fmt)" "of_char CHR ''%'' \<notin> set (chars fmt)"
  shows "\<exists>t. line_at x y fmt s = Some t \<and> drawn p (chars fmt) s t"
proof -
  have l: "length (chars fmt) = length fmt" "chars fmt \<noteq> []" using assms(3) by (simp_all add: chars_def)
  have "drawn p (chars fmt) (s\<lparr>console_cursor := IO_COORD x y\<rparr>) (put_all screen (chars fmt) (s\<lparr>console_cursor := IO_COORD x y\<rparr>))"
    using drawn_put(1)[of "chars fmt" "s\<lparr>console_cursor := IO_COORD x y\<rparr>"] assms l by auto
  then show ?thesis
    using assms(1,2) by (simp add: line_at_def sayln_plain[OF assms(5)] cursor_at drawn_def)
qed

lemma line_message:
  assumes "unat (IO_COORD x y) = p" "p + 49 < 2000"
  shows "\<exists>t. line_at x y ''=  %15aIt's now safe to turn off your computer. ;)%a  ='' s = Some t \<and>
    drawn p (chars ''=  It's now safe to turn off your computer. ;)  ='') s t"
proof -
  let ?a = "chars ''=  ''" and ?b = "chars ''It's now safe to turn off your computer. ;)''" and ?c = "chars ''  =''"
  let ?fmt = "chars ''=  %15aIt's now safe to turn off your computer. ;)%a  =''"
  let ?s0 = "s\<lparr>console_cursor := IO_COORD x y\<rparr>"
  let ?s1 = "put_all screen ?a ?s0"
  let ?s2 = "put_all screen ?b (?s1\<lparr>console_attr := 15\<rparr>)"
  let ?s3 = "put_all screen ?c (?s2\<lparr>console_attr := 7\<rparr>)"
  have fmt: "?fmt = ?a @ [37, 49, 53, 97] @ ?b @ [37, 97] @ ?c" by code_simp
  have whole: "chars ''=  It's now safe to turn off your computer. ;)  ='' = ?a @ ?b @ ?c" by code_simp
  have parts: "10 \<notin> set ?a" "10 \<notin> set ?b" "10 \<notin> set ?c" "of_char CHR ''%'' \<notin> set ?a" "of_char CHR ''%'' \<notin> set ?b"
      "of_char CHR ''%'' \<notin> set ?c" "?a \<noteq> []" "?b \<noteq> []" "?c \<noteq> []" "length ?a = 3" "length ?b = 43" "length ?c = 3"
    by code_simp+
  have v1: "vprint_loop screen strs (37 # 49 # 53 # 97 # rest) [] k u = vprint_loop screen strs rest [] k (u\<lparr>console_attr := 15\<rparr>)"
    "vprint_loop screen strs (37 # 97 # rest) [] k u = vprint_loop screen strs rest [] k (u\<lparr>console_attr := 7\<rparr>)" for strs rest k u
    by (simp_all add: vprint_flags_def vprint_convert_def IS_DIGIT_def Let_def screen_def io_attr_def IO_DEFAULT_def)
  have "\<exists>k. vprint_loop screen (\<lambda>_. []) (?a @ [37, 49, 53, 97] @ ?b @ [37, 97] @ ?c @ []) [] 0 ?s0 = Some (k, ?s3)"
    using parts by (simp add: on_screen.vprint_plain v1 del: vprint_loop.simps(2) append_Nil2)
  then obtain k where "vprint screen (\<lambda>_. []) ?fmt [] ?s0 = Some (k, ?s3)" unfolding vprint_def fmt by auto
  then have line: "line_at x y ''=  %15aIt's now safe to turn off your computer. ;)%a  ='' s = Some (snd (io_putchar 10 ?s3))"
    using assms by (simp add: line_at_def sayln_def println_def cursor_at Let_def split_def screen_put)
  have d1: "drawn p ?a ?s0 ?s1" "unat (console_cursor ?s1) = p + 3"
    using drawn_put[of ?a ?s0] parts assms by auto
  have d2: "drawn (p + 3) ?b (?s1\<lparr>console_attr := 15\<rparr>) ?s2" "unat (console_cursor ?s2) = p + 46"
    using drawn_put[of ?b "?s1\<lparr>console_attr := 15\<rparr>"] parts assms d1(2) by auto
  have d3: "drawn (p + 46) ?c (?s2\<lparr>console_attr := 7\<rparr>) ?s3"
    using drawn_put(1)[of ?c "?s2\<lparr>console_attr := 7\<rparr>"] parts assms d2(2) by auto
  have "drawn (p + 3) (?b @ ?c) ?s1 ?s3"
  proof (rule drawn_append)
    show "drawn (p + 3) ?b ?s1 ?s2" using d2(1) drawn_cong[of "?s1\<lparr>console_attr := 15\<rparr>" ?s1 ?s2 ?s2] by simp
    show "drawn (p + 3 + length ?b) ?c ?s2 ?s3"
    proof -
      have "p + 3 + length ?b = p + 46" unfolding parts(11) by simp
      then show ?thesis by (simp only:) (rule iffD1[OF drawn_cong d3]; simp)
    qed
  qed
  then have "drawn p (?a @ ?b @ ?c) ?s0 ?s3" 
    using parts(10) by (intro drawn_append[OF d1(1)]) (simp only:)
  then show ?thesis unfolding line whole by (simp add: drawn_def)
qed

definition goodbye_text :: "string list" where
  "goodbye_text =
     [''================================================='',
      ''=                                               ='',
      ''=  It's now safe to turn off your computer. ;)  ='',
      ''=                                               ='',
      ''================================================='']"

text \<open>
  The closing screen of \<^verbatim>\<open>main2\<close>: five lines of 49 characters in the middle of the screen, from column 16 of row 10 on;
  every other cell keeps what it showed.
\<close>

theorem main2_goodbye_shows:
  "\<exists>t. main2_goodbye s = Some t \<and>
     (\<forall>row<5. \<forall>i<49. video t (2 * (80 * (10 + row) + 16 + i)) = chars (goodbye_text ! row) ! i) \<and>
     (\<forall>k. (\<forall>row<5. k < 2 * (80 * (10 + row) + 16) \<or> 2 * (80 * (10 + row) + 16 + 49) \<le> k) \<longrightarrow> video t k = video s k)"
proof -
  let ?p = "\<lambda>row. 80 * (10 + row) + 16 :: nat" and ?l = "\<lambda>row. chars (goodbye_text ! row)"
  have pos: "unat (IO_COORD 16 (IO_ROWS div 2 - 2)) = ?p 0" "unat (IO_COORD 16 (IO_ROWS div 2 - 1)) = ?p 1"
      "unat (IO_COORD 16 (IO_ROWS div 2)) = ?p 2" "unat (IO_COORD 16 (IO_ROWS div 2 + 1)) = ?p 3"
      "unat (IO_COORD 16 (IO_ROWS div 2 + 2)) = ?p 4"
    by (simp_all add: IO_COORD_def IO_COLS_def IO_ROWS_def)
  have len: "length (?l row) = 49" if "row < 5" for row
  proof -
    have "list_all (\<lambda>row. length (?l row) = 49) [0..<5]" by code_simp
    then show ?thesis using that by (simp add: list_all_iff)
  qed
  have plain: "10 \<notin> set (?l row)" "of_char CHR ''%'' \<notin> set (?l row)" if "row < 5" for row
  proof -
    have "list_all (\<lambda>row. 10 \<notin> set (?l row) \<and> of_char CHR ''%'' \<notin> set (?l row)) [0..<5]" by code_simp
    then show "10 \<notin> set (?l row)" "of_char CHR ''%'' \<notin> set (?l row)" using that by (simp_all add: list_all_iff)
  qed
  have line: "\<exists>t. line_at 16 y (goodbye_text ! row) s = Some t \<and> drawn (?p row) (?l row) s t"
    if "row < 5" "unat (IO_COORD 16 y) = ?p row" for row y s
  proof -
    have "goodbye_text ! row \<noteq> []" using len[OF that(1)] by (auto simp: chars_def)
    then show ?thesis
      using line_plain[OF that(2), of "goodbye_text ! row" s] len[OF that(1)] plain[OF that(1)] that(1)
      by (simp add: chars_def)
  qed
  have texts: "goodbye_text ! 0 = ''================================================='' "
      "goodbye_text ! 1 = ''=                                               =''"
      "goodbye_text ! 2 = ''=  It's now safe to turn off your computer. ;)  =''"
      "goodbye_text ! 3 = ''=                                               =''"
      "goodbye_text ! 4 = ''=================================================''"
    by (simp_all add: goodbye_text_def)
  obtain a where a: "line_at 16 (IO_ROWS div 2 - 2) (goodbye_text ! 0) s = Some a" "drawn (?p 0) (?l 0) s a"
    using line[of 0, OF _ pos(1)] by auto
  obtain b where b: "line_at 16 (IO_ROWS div 2 - 1) (goodbye_text ! 1) a = Some b" "drawn (?p 1) (?l 1) a b"
    using line[of 1, OF _ pos(2)] by auto
  obtain c where c: "line_at 16 (IO_ROWS div 2) ''=  %15aIt's now safe to turn off your computer. ;)%a  ='' b = Some c"
      "drawn (?p 2) (?l 2) b c"
    using line_message[OF pos(3)] unfolding texts by auto
  obtain d where d: "line_at 16 (IO_ROWS div 2 + 1) (goodbye_text ! 3) c = Some d" "drawn (?p 3) (?l 3) c d"
    using line[of 3, OF _ pos(4)] by auto
  obtain t where t: "line_at 16 (IO_ROWS div 2 + 2) (goodbye_text ! 4) d = Some t" "drawn (?p 4) (?l 4) d t"
    using line[of 4, OF _ pos(5)] by auto
  have "main2_goodbye s = Some t" using a(1) b(1) c(1) d(1) t(1) unfolding texts by (simp add: main2_goodbye_def)
  moreover have "video t (2 * (?p row + i)) = ?l row ! i" if r: "row < 5" "i < 49" for row i
  proof -
    have k: "video b k = video a k" if "k < 2 * ?p 1" for k using b(2) that unfolding drawn_def by blast
    have l: "video c k = video b k" if "k < 2 * ?p 2" for k using c(2) that unfolding drawn_def by blast
    have m: "video d k = video c k" if "k < 2 * ?p 3" for k using d(2) that unfolding drawn_def by blast
    have n: "video t k = video d k" if "k < 2 * ?p 4" for k using t(2) that unfolding drawn_def by blast
    have at: "video u (2 * (?p row + i)) = ?l row ! i" if "drawn (?p row) (?l row) s u" for s u
      using that r len unfolding drawn_def by simp
    consider "row = 0" | "row = 1" | "row = 2" | "row = 3" | "row = 4" using r(1) by linarith
    then show ?thesis
    proof cases
      case 1
      then show ?thesis using at[of s a] a(2) r k l m n by simp
    next
      case 2
      then show ?thesis using at[of a b] b(2) r l m n by simp
    next
      case 3
      then show ?thesis using at[of b c] c(2) r m n by simp
    next
      case 4
      then show ?thesis using at[of c d] d(2) r n by simp
    next
      case 5
      then show ?thesis using at[of d t] t(2) by simp
    qed
  qed
  moreover have "video t k = video s k" if o: "\<forall>row<5. k < 2 * ?p row \<or> 2 * (?p row + 49) \<le> k" for k
  proof -
    have keep: "video v k = video u k" if "drawn (?p row) (?l row) u v" "row < 5" for row u v
    proof -
      have "k < 2 * ?p row \<or> 2 * (?p row + length (?l row)) \<le> k" using o that(2) unfolding len[OF that(2)] by blast
      then show ?thesis using that(1) unfolding drawn_def by blast
    qed
    show ?thesis using keep[OF a(2)] keep[OF b(2)] keep[OF c(2)] keep[OF d(2)] keep[OF t(2)] by simp
  qed
  ultimately show ?thesis by blast
qed

end
