(* ===== verification/Lists.thy ===== *)
theory Lists
  imports VMM_Frame
begin

unbundle bit_operations_syntax

text \<open>
  \<^verbatim>\<open>lib/list.c\<close> and \<^verbatim>\<open>lib/queue.c\<close>: doubly linked lists and the queue built on them. The nodes and the list heads are
  objects that \<^verbatim>\<open>vmm_alloc\<close> places in the kernel domain; they are kept in two stores indexed by their address, and a
  list shares its nodes with nothing else only because the allocator hands out fresh addresses. \<open>None\<close> is the
  dereference of a null pointer or a failure of the memory manager. The data of a node is a \<^verbatim>\<open>void*\<close>.
\<close>

subsection \<open>State\<close>

record list_node =
  node_data :: ptr
  node_prev :: ptr
  node_next :: ptr

record list_t =
  list_head :: ptr
  list_tail :: ptr

record heap = mm +
  node_store :: "ptr \<Rightarrow> list_node"
  list_store :: "ptr \<Rightarrow> list_t"

text \<open>\<^verbatim>\<open>sizeof(list_node_t)\<close> and \<^verbatim>\<open>sizeof(list_t)\<close>, then the accesses through pointers.\<close>

definition LIST_NODE_SIZE :: u32 where "LIST_NODE_SIZE = 12"
definition LIST_SIZE :: u32 where "LIST_SIZE = 8"

definition node_at :: "'a heap_scheme \<Rightarrow> ptr \<Rightarrow> list_node option" where
  "node_at s n = (if n = 0 then None else Some (node_store s n))"

definition set_node :: "ptr \<Rightarrow> (list_node \<Rightarrow> list_node) \<Rightarrow> 'a heap_scheme \<Rightarrow> 'a heap_scheme option" where
  "set_node n f s = (if n = 0 then None else Some (s\<lparr>node_store := (node_store s)(n := f (node_store s n))\<rparr>))"

definition list_at :: "'a heap_scheme \<Rightarrow> ptr \<Rightarrow> list_t option" where
  "list_at s l = (if l = 0 then None else Some (list_store s l))"

definition set_list :: "ptr \<Rightarrow> (list_t \<Rightarrow> list_t) \<Rightarrow> 'a heap_scheme \<Rightarrow> 'a heap_scheme option" where
  "set_list l f s = (if l = 0 then None else Some (s\<lparr>list_store := (list_store s)(l := f (list_store s l))\<rparr>))"

subsection \<open>list.c\<close>

definition list_create :: "'a heap_scheme \<Rightarrow> (ptr \<times> 'a heap_scheme) option" where
  "list_create s =
     do { (l, s) \<leftarrow> vmm_alloc LIST_SIZE VMM_KERNEL s;
          s \<leftarrow> set_list l (\<lambda>t. t\<lparr>list_head := 0, list_tail := 0\<rparr>) s;
          Some (l, s) }"

definition list_create_node :: "ptr \<Rightarrow> ptr \<Rightarrow> ptr \<Rightarrow> 'a heap_scheme \<Rightarrow> (ptr \<times> 'a heap_scheme) option" where
  "list_create_node x prv nxt s =
     do { (n, s) \<leftarrow> vmm_alloc LIST_NODE_SIZE VMM_KERNEL s;
          s \<leftarrow> set_node n (\<lambda>t. t\<lparr>node_data := x, node_prev := prv, node_next := nxt\<rparr>) s;
          Some (n, s) }"

text \<open>The walks along the \<^verbatim>\<open>next\<close> pointers end only when the list does.\<close>

partial_function (option) list_count :: "'a heap_scheme \<Rightarrow> ptr \<Rightarrow> u32 \<Rightarrow> u32 option" where
  "list_count s n num = (if n = 0 then Some num else list_count s (node_next (node_store s n)) (num + 1))"

definition list_size :: "'a heap_scheme \<Rightarrow> ptr \<Rightarrow> u32 option" where
  "list_size s l = do { t \<leftarrow> list_at s l; list_count s (list_head t) 0 }"

definition list_empty :: "'a heap_scheme \<Rightarrow> ptr \<Rightarrow> bool option" where
  "list_empty s l = do { t \<leftarrow> list_at s l; Some (list_head t = 0) }"

text \<open>\<^verbatim>\<open>list_check\<close> prints a message for the null pointer and returns it all the same.\<close>

definition list_front :: "'a heap_scheme \<Rightarrow> ptr \<Rightarrow> ptr option" where
  "list_front s l = do { t \<leftarrow> list_at s l; n \<leftarrow> node_at s (list_head t); Some (node_data n) }"

definition list_back :: "'a heap_scheme \<Rightarrow> ptr \<Rightarrow> ptr option" where
  "list_back s l = do { t \<leftarrow> list_at s l; n \<leftarrow> node_at s (list_tail t); Some (node_data n) }"

definition list_push_front :: "ptr \<Rightarrow> ptr \<Rightarrow> 'a heap_scheme \<Rightarrow> 'a heap_scheme option" where
  "list_push_front l x s =
     do { t \<leftarrow> list_at s l;
          (n, s) \<leftarrow> list_create_node x 0 (list_head t) s;
          s \<leftarrow> set_list l (\<lambda>t. t\<lparr>list_head := n\<rparr>) s;
          node \<leftarrow> node_at s n;
          s \<leftarrow> (if node_next node \<noteq> 0 then set_node (node_next node) (\<lambda>m. m\<lparr>node_prev := n\<rparr>) s else Some s);
          t \<leftarrow> list_at s l;
          if list_tail t = 0 then set_list l (\<lambda>t. t\<lparr>list_tail := list_head t\<rparr>) s else Some s }"

definition list_push_back :: "ptr \<Rightarrow> ptr \<Rightarrow> 'a heap_scheme \<Rightarrow> 'a heap_scheme option" where
  "list_push_back l x s =
     do { t \<leftarrow> list_at s l;
          (n, s) \<leftarrow> list_create_node x (list_tail t) 0 s;
          s \<leftarrow> set_list l (\<lambda>t. t\<lparr>list_tail := n\<rparr>) s;
          node \<leftarrow> node_at s n;
          s \<leftarrow> (if node_prev node \<noteq> 0 then set_node (node_prev node) (\<lambda>m. m\<lparr>node_next := n\<rparr>) s else Some s);
          t \<leftarrow> list_at s l;
          if list_head t = 0 then set_list l (\<lambda>t. t\<lparr>list_head := list_tail t\<rparr>) s else Some s }"

definition list_pop_front :: "ptr \<Rightarrow> 'a heap_scheme \<Rightarrow> (ptr \<times> 'a heap_scheme) option" where
  "list_pop_front l s =
     do { t \<leftarrow> list_at s l;
          let n = list_head t;
          node \<leftarrow> node_at s n;
          s \<leftarrow> set_list l (\<lambda>t. t\<lparr>list_head := node_next node\<rparr>) s;
          s \<leftarrow> vmm_free n LIST_NODE_SIZE s;
          s \<leftarrow> (if node_next node = 0 then set_list l (\<lambda>t. t\<lparr>list_tail := 0\<rparr>) s
               else set_node (node_next node) (\<lambda>m. m\<lparr>node_prev := 0\<rparr>) s);
          Some (node_data node, s) }"

definition list_pop_back :: "ptr \<Rightarrow> 'a heap_scheme \<Rightarrow> (ptr \<times> 'a heap_scheme) option" where
  "list_pop_back l s =
     do { t \<leftarrow> list_at s l;
          let n = list_tail t;
          node \<leftarrow> node_at s n;
          s \<leftarrow> set_list l (\<lambda>t. t\<lparr>list_tail := node_prev node\<rparr>) s;
          s \<leftarrow> vmm_free n LIST_NODE_SIZE s;
          s \<leftarrow> (if node_prev node = 0 then set_list l (\<lambda>t. t\<lparr>list_head := 0\<rparr>) s
               else set_node (node_prev node) (\<lambda>m. m\<lparr>node_next := 0\<rparr>) s);
          Some (node_data node, s) }"

partial_function (option) list_search :: "'a heap_scheme \<Rightarrow> ptr \<Rightarrow> ptr \<Rightarrow> ptr option" where
  "list_search s x n =
     (if n = 0 \<or> node_data (node_store s n) = x then Some n else list_search s x (node_next (node_store s n)))"

definition list_find :: "'a heap_scheme \<Rightarrow> ptr \<Rightarrow> ptr \<Rightarrow> bool option" where
  "list_find s l x = do { t \<leftarrow> list_at s l; n \<leftarrow> list_search s x (list_head t); Some (n \<noteq> 0) }"

definition list_remove :: "ptr \<Rightarrow> ptr \<Rightarrow> 'a heap_scheme \<Rightarrow> 'a heap_scheme option" where
  "list_remove l x s =
     do { t \<leftarrow> list_at s l;
          n \<leftarrow> list_search s x (list_head t);
          if n = 0 then Some s else do {
            node \<leftarrow> node_at s n;
            s \<leftarrow> (if node_prev node \<noteq> 0 then set_node (node_prev node) (\<lambda>m. m\<lparr>node_next := node_next node\<rparr>) s
                 else set_list l (\<lambda>t. t\<lparr>list_head := node_next node\<rparr>) s);
            node \<leftarrow> node_at s n;
            if node_next node \<noteq> 0 then set_node (node_next node) (\<lambda>m. m\<lparr>node_prev := node_prev node\<rparr>) s
            else set_list l (\<lambda>t. t\<lparr>list_tail := node_prev node\<rparr>) s } }"

partial_function (option) list_destroy_loop :: "ptr \<Rightarrow> 'a heap_scheme \<Rightarrow> 'a heap_scheme option" where
  "list_destroy_loop l s =
     do { e \<leftarrow> list_empty s l;
          if e then Some s else do { (_, s) \<leftarrow> list_pop_front l s; list_destroy_loop l s } }"

definition list_destroy :: "ptr \<Rightarrow> 'a heap_scheme \<Rightarrow> 'a heap_scheme option" where
  "list_destroy l s = do { s \<leftarrow> list_destroy_loop l s; vmm_free l LIST_SIZE s }"

subsection \<open>queue.c\<close>

definition queue_create :: "'a heap_scheme \<Rightarrow> (ptr \<times> 'a heap_scheme) option" where
  "queue_create = list_create"

definition queue_destroy :: "ptr \<Rightarrow> 'a heap_scheme \<Rightarrow> 'a heap_scheme option" where
  "queue_destroy = list_destroy"

definition queue_empty :: "'a heap_scheme \<Rightarrow> ptr \<Rightarrow> bool option" where
  "queue_empty = list_empty"

definition queue_size :: "'a heap_scheme \<Rightarrow> ptr \<Rightarrow> u32 option" where
  "queue_size = list_size"

definition queue_front :: "'a heap_scheme \<Rightarrow> ptr \<Rightarrow> ptr option" where
  "queue_front = list_front"

definition queue_enqueue :: "ptr \<Rightarrow> ptr \<Rightarrow> 'a heap_scheme \<Rightarrow> 'a heap_scheme option" where
  "queue_enqueue = list_push_back"

definition queue_dequeue :: "ptr \<Rightarrow> 'a heap_scheme \<Rightarrow> (ptr \<times> 'a heap_scheme) option" where
  "queue_dequeue = list_pop_front"

definition queue_find :: "'a heap_scheme \<Rightarrow> ptr \<Rightarrow> ptr \<Rightarrow> bool option" where
  "queue_find = list_find"

definition queue_remove :: "ptr \<Rightarrow> ptr \<Rightarrow> 'a heap_scheme \<Rightarrow> 'a heap_scheme option" where
  "queue_remove = list_remove"

subsection \<open>The list in memory\<close>

text \<open>\<open>chain m p ns q\<close>: the nodes \<open>ns\<close> are linked both ways, behind the node \<open>p\<close> and before the node \<open>q\<close>.\<close>

definition first :: "ptr list \<Rightarrow> ptr \<Rightarrow> ptr" where
  "first ns q = (case ns of [] \<Rightarrow> q | n # _ \<Rightarrow> n)"

definition final :: "ptr list \<Rightarrow> ptr \<Rightarrow> ptr" where
  "final ns p = (if ns = [] then p else last ns)"

lemma first_simps [simp]: "first [] q = q" "first (n # ns) q = n" "first (ns @ ms) q = first ns (first ms q)"
  by (simp_all add: first_def split: list.split)

lemma final_simps [simp]: "final [] p = p" "final (ns @ [n]) p = n" "final (n # ns) p = final ns n"
  "final (ns @ n # ms) p = final ms n"
  by (simp_all add: final_def)

fun chain :: "(ptr \<Rightarrow> list_node) \<Rightarrow> ptr \<Rightarrow> ptr list \<Rightarrow> ptr \<Rightarrow> bool" where
  "chain m p [] q \<longleftrightarrow> True"
| "chain m p (n # ns) q \<longleftrightarrow>
     n \<noteq> 0 \<and> node_prev (m n) = p \<and> node_next (m n) = first ns q \<and> chain m n ns q"

lemma chain_append [simp]: "chain m p (ns @ ms) q \<longleftrightarrow> chain m p ns (first ms q) \<and> chain m (final ns p) ms q"
  by (induction ns arbitrary: p) auto

lemma chain_other [simp]: "n \<notin> set ns \<Longrightarrow> chain (m(n := v)) p ns q \<longleftrightarrow> chain m p ns q"
  by (induction ns arbitrary: p) auto

lemma chain_nonzero: "chain m p ns q \<Longrightarrow> 0 \<notin> set ns"
  by (induction ns arbitrary: p) auto

definition is_list :: "'a heap_scheme \<Rightarrow> ptr \<Rightarrow> ptr list \<Rightarrow> ptr list \<Rightarrow> bool" where
  "is_list s l ns xs \<longleftrightarrow> l \<noteq> 0 \<and> distinct ns \<and> chain (node_store s) 0 ns 0 \<and>
     list_head (list_store s l) = first ns 0 \<and> list_tail (list_store s l) = final ns 0 \<and>
     map (\<lambda>n. node_data (node_store s n)) ns = xs"

lemma first_eq_0: "chain m p ns q \<Longrightarrow> first ns 0 = 0 \<longleftrightarrow> ns = []"
  by (cases ns) auto

lemma final_eq_0: "chain m p ns q \<Longrightarrow> final ns 0 = 0 \<longleftrightarrow> ns = []"
  using chain_nonzero[of m p ns q] by (auto simp: final_def) (metis last_in_set)

lemma chain_last: "chain m p (ns @ [n]) q \<Longrightarrow> n \<notin> set ns \<Longrightarrow> chain (m(n := (m n)\<lparr>node_next := q'\<rparr>)) p (ns @ [n]) q'"
  by simp

lemma data_update [simp]:
  "node_data (if x = n then (m n)\<lparr>node_next := q\<rparr> else m x) = node_data (m x)"
  "node_data (if x = n then (m n)\<lparr>node_prev := q\<rparr> else m x) = node_data (m x)"
  by simp_all

lemma heap_more:
  assumes "keeps s (t :: 'a heap_scheme)"
  shows "node_store t = node_store s" "list_store t = list_store s"
proof -
  have "mm.more t = mm.more s" using assms by (simp add: keeps_def)
  then show "node_store t = node_store s" "list_store t = list_store s" by (cases s, cases t, simp)+
qed

text \<open>The machine below the two stores is the same.\<close>

definition same_machine :: "'a heap_scheme \<Rightarrow> 'a heap_scheme \<Rightarrow> bool" where
  "same_machine s t \<longleftrightarrow> mm.truncate t = mm.truncate s"

lemma same_machine_updates [simp]:
  "same_machine s s" "same_machine s (t\<lparr>node_store := f\<rparr>) \<longleftrightarrow> same_machine s t"
  "same_machine s (t\<lparr>list_store := g\<rparr>) \<longleftrightarrow> same_machine s t"
  by (simp_all add: same_machine_def mm.truncate_def)

lemma is_listD:
  assumes "is_list s l ns xs"
  shows "l \<noteq> 0" "distinct ns" "chain (node_store s) 0 ns 0" "list_head (list_store s l) = first ns 0"
    "list_tail (list_store s l) = final ns 0" "map (\<lambda>n. node_data (node_store s n)) ns = xs" "0 \<notin> set ns"
  using assms chain_nonzero[of "node_store s" 0 ns 0] unfolding is_list_def by blast+

lemmas heap_ops = list_at_def set_list_def node_at_def set_node_def list_create_node_def Let_def

lemma push_back_spec:
  assumes l: "is_list s l ns xs" and a: "vmm_alloc LIST_NODE_SIZE VMM_KERNEL s = Some (n, u)" and n: "n \<noteq> 0" "n \<notin> set ns"
  shows "\<exists>t. list_push_back l x s = Some t \<and> is_list t l (ns @ [n]) (xs @ [x]) \<and> same_machine u t"
proof -
  let ?m = "final ns 0"
  let ?nodes = "(node_store s)(n := (node_store s n)\<lparr>node_data := x, node_prev := ?m, node_next := 0\<rparr>)"
  let ?list = "(list_store s l)\<lparr>list_tail := n\<rparr>"
  let ?t = "if ?m = 0 then u\<lparr>node_store := ?nodes, list_store := (list_store s)(l := ?list\<lparr>list_head := n\<rparr>)\<rparr>
            else u\<lparr>node_store := ?nodes(?m := (?nodes ?m)\<lparr>node_next := n\<rparr>), list_store := (list_store s)(l := ?list)\<rparr>"
  note d = is_listD[OF l] and k = heap_more[OF keeps_alloc[OF a]]
  have h: "first ns 0 = 0 \<longleftrightarrow> ns = []" "?m = 0 \<longleftrightarrow> ns = []"
    using first_eq_0[OF d(3)] final_eq_0[OF d(3)] by simp_all
  have c: "list_create_node x ?m 0 s = Some (n, u\<lparr>node_store := ?nodes\<rparr>)"
    by (simp add: list_create_node_def a set_node_def n(1) k del: VMM_KERNEL_def)
  have "list_push_back l x s = Some ?t"
    unfolding list_push_back_def using c by (cases "ns = []") (simp_all add: list_at_def d(1,4,5) c set_list_def node_at_def set_node_def n(1) h k)
  moreover have "is_list ?t l (ns @ [n]) (xs @ [x])"
  proof (cases ns rule: rev_cases)
    case Nil
    then show ?thesis using d(1,6) n by (auto simp: is_list_def)
  next
    case (snoc ms m)
    then have "m \<noteq> n" "m \<noteq> 0" "m \<notin> set ms" "n \<notin> set ms" using d n by auto
    then show ?thesis using d(1-4,6) n(1) snoc by (auto simp: is_list_def)
  qed
  moreover have "same_machine u ?t" by simp
  ultimately show ?thesis by blast
qed

lemma push_front_spec:
  assumes l: "is_list s l ns xs" and a: "vmm_alloc LIST_NODE_SIZE VMM_KERNEL s = Some (n, u)" and n: "n \<noteq> 0" "n \<notin> set ns"
  shows "\<exists>t. list_push_front l x s = Some t \<and> is_list t l (n # ns) (x # xs) \<and> same_machine u t"
proof -
  let ?m = "first ns 0"
  let ?nodes = "(node_store s)(n := (node_store s n)\<lparr>node_data := x, node_prev := 0, node_next := ?m\<rparr>)"
  let ?list = "(list_store s l)\<lparr>list_head := n\<rparr>"
  let ?t = "if ?m = 0 then u\<lparr>node_store := ?nodes, list_store := (list_store s)(l := ?list\<lparr>list_tail := n\<rparr>)\<rparr>
            else u\<lparr>node_store := ?nodes(?m := (?nodes ?m)\<lparr>node_prev := n\<rparr>), list_store := (list_store s)(l := ?list)\<rparr>"
  note d = is_listD[OF l] and k = heap_more[OF keeps_alloc[OF a]]
  have h: "?m = 0 \<longleftrightarrow> ns = []" "final ns 0 = 0 \<longleftrightarrow> ns = []"
    using first_eq_0[OF d(3)] final_eq_0[OF d(3)] by simp_all
  have c: "list_create_node x 0 ?m s = Some (n, u\<lparr>node_store := ?nodes\<rparr>)"
    by (simp add: list_create_node_def a set_node_def n(1) k del: VMM_KERNEL_def)
  have "list_push_front l x s = Some ?t"
    unfolding list_push_front_def using c by (cases "ns = []") (simp_all add: list_at_def d(1,4,5) c set_list_def node_at_def set_node_def n(1) h k)
  moreover have "is_list ?t l (n # ns) (x # xs)"
    using d(1-3,5,6) n by (cases ns) (auto simp: is_list_def)
  moreover have "same_machine u ?t" by simp
  ultimately show ?thesis by blast
qed

lemma pop_front_spec:
  assumes l: "is_list s l (n # ns) (x # xs)"
    and f: "vmm_free n LIST_NODE_SIZE (s\<lparr>list_store := (list_store s)(l := (list_store s l)\<lparr>list_head := first ns 0\<rparr>)\<rparr>) = Some u"
  shows "\<exists>t. list_pop_front l s = Some (x, t) \<and> is_list t l ns xs \<and> same_machine u t"
proof -
  let ?m = "first ns 0"
  let ?t = "if ?m = 0 then u\<lparr>list_store := (list_store u)(l := (list_store u l)\<lparr>list_tail := 0\<rparr>)\<rparr>
            else u\<lparr>node_store := (node_store u)(?m := (node_store u ?m)\<lparr>node_prev := 0\<rparr>)\<rparr>"
  note d = is_listD[OF l] and k = heap_more[OF keeps_free[OF f]]
  have h: "list_head (list_store s l) = n" "node_next (node_store s n) = ?m" "node_data (node_store s n) = x" "n \<noteq> 0"
    using d by simp_all
  have "list_pop_front l s = Some (x, ?t)"
    using d(1) h f by (simp add: list_pop_front_def list_at_def node_at_def set_list_def set_node_def)
  moreover have "is_list ?t l ns xs"
    using d k by (cases ns) (simp_all add: is_list_def)
  moreover have "same_machine u ?t" by simp
  ultimately show ?thesis by blast
qed

lemma pop_back_spec:
  assumes l: "is_list s l (ns @ [n]) (xs @ [x])"
    and f: "vmm_free n LIST_NODE_SIZE (s\<lparr>list_store := (list_store s)(l := (list_store s l)\<lparr>list_tail := final ns 0\<rparr>)\<rparr>) = Some u"
  shows "\<exists>t. list_pop_back l s = Some (x, t) \<and> is_list t l ns xs \<and> same_machine u t"
proof -
  let ?m = "final ns 0"
  let ?t = "if ?m = 0 then u\<lparr>list_store := (list_store u)(l := (list_store u l)\<lparr>list_head := 0\<rparr>)\<rparr>
            else u\<lparr>node_store := (node_store u)(?m := (node_store u ?m)\<lparr>node_next := 0\<rparr>)\<rparr>"
  note d = is_listD[OF l] and k = heap_more[OF keeps_free[OF f]]
  have h: "list_tail (list_store s l) = n" "node_prev (node_store s n) = ?m" "node_data (node_store s n) = x" "n \<noteq> 0"
    using d by simp_all
  have "list_pop_back l s = Some (x, ?t)"
    using d(1) h f by (simp add: list_pop_back_def list_at_def node_at_def set_list_def set_node_def)
  moreover have "is_list ?t l ns xs"
    using d k by (cases ns rule: rev_cases) (auto simp: is_list_def)
  moreover have "same_machine u ?t" by simp
  ultimately show ?thesis by blast
qed

lemma count_spec: "chain (node_store s) p ns 0 \<Longrightarrow> list_count s (first ns 0) k = Some (k + of_nat (length ns))"
proof (induction ns arbitrary: p k)
  case Nil
  show ?case by (subst list_count.simps) simp
next
  case (Cons n ns)
  have "list_count s n k = list_count s (first ns 0) (k + 1)" using Cons.prems by (subst list_count.simps) simp
  moreover have "chain (node_store s) n ns 0" using Cons.prems by simp
  ultimately show ?case using Cons.IH[of n "k + 1"] by (simp add: ac_simps)
qed

lemma size_spec: "is_list s l ns xs \<Longrightarrow> list_size s l = Some (of_nat (length xs))"
  using is_listD[of s l ns xs] count_spec[of s 0 ns 0] by (auto simp: list_size_def list_at_def)

lemma empty_spec: "is_list s l ns xs \<Longrightarrow> list_empty s l = Some (xs = [])"
  using is_listD[of s l ns xs] first_eq_0[of "node_store s" 0 ns 0] by (auto simp: list_empty_def list_at_def)

lemma front_spec: "is_list s l (n # ns) (x # xs) \<Longrightarrow> list_front s l = Some x"
  using is_listD[of s l "n # ns" "x # xs"] by (auto simp: list_front_def list_at_def node_at_def)

lemma back_spec: "is_list s l (ns @ [n]) (xs @ [x]) \<Longrightarrow> list_back s l = Some x"
  using is_listD[of s l "ns @ [n]" "xs @ [x]"] by (auto simp: list_back_def list_at_def node_at_def)

lemma search_absent:
  "chain (node_store s) p ns q \<Longrightarrow> x \<notin> (\<lambda>n. node_data (node_store s n)) ` set ns \<Longrightarrow>
   list_search s x (first ns q) = list_search s x q"
proof (induction ns arbitrary: p)
  case (Cons n ns)
  have "list_search s x n = list_search s x (first ns q)" using Cons.prems by (subst list_search.simps) auto
  then show ?case using Cons.prems Cons.IH[of n] by simp
qed simp

lemma search_0 [simp]: "list_search s x 0 = Some 0"
  by (subst list_search.simps) simp

lemma search_hit: "node_data (node_store s n) = x \<Longrightarrow> list_search s x n = Some n"
  by (subst list_search.simps) simp


lemma search_present:
  assumes l: "is_list s l ns xs" and x: "x \<in> set xs"
  obtains as n bs where "ns = as @ n # bs" "node_data (node_store s n) = x"
    "x \<notin> (\<lambda>n. node_data (node_store s n)) ` set as" "list_search s x (first ns 0) = Some n"
proof -
  note d = is_listD[OF l]
  have "\<exists>n\<in>set ns. node_data (node_store s n) = x" using x unfolding d(6)[symmetric] by auto
  from split_list_first_prop[OF this] obtain as n bs where
    n: "ns = as @ n # bs" "node_data (node_store s n) = x" and o: "\<forall>y\<in>set as. node_data (node_store s y) \<noteq> x" by blast
  have a: "x \<notin> (\<lambda>n. node_data (node_store s n)) ` set as" using o by auto
  have "chain (node_store s) 0 as n" "first ns 0 = first as n" using d(3) n(1) by simp_all
  then have "list_search s x (first ns 0) = Some n"
    using search_absent[of s 0 as n x] a search_hit[OF n(2)] by simp
  then show ?thesis by (rule that[OF n a])
qed

lemma find_spec:
  assumes l: "is_list s l ns xs"
  shows "list_find s l x = Some (x \<in> set xs)"
proof -
  note d = is_listD[OF l]
  have xs: "set xs = (\<lambda>n. node_data (node_store s n)) ` set ns" using d(6) by (metis set_map)
  show ?thesis
  proof (cases "x \<in> set xs")
    case False
    then have "list_search s x (first ns 0) = Some 0" using search_absent[OF d(3)] xs by simp
    then show ?thesis using d(1,4) False by (simp add: list_find_def list_at_def)
  next
    case True
    obtain as n bs where n: "ns = as @ n # bs" and "list_search s x (first ns 0) = Some n"
      using search_present[OF l True] .
    moreover from n have "n \<noteq> 0" using d(7) by simp
    ultimately show ?thesis using d(1,4) True by (simp add: list_find_def list_at_def)
  qed
qed

lemma remove_spec:
  assumes l: "is_list s l ns xs"
  shows "\<exists>t ns'. list_remove l x s = Some t \<and> is_list t l ns' (remove1 x xs) \<and> set ns' \<subseteq> set ns \<and> same_machine s t"
proof -
  note d = is_listD[OF l]
  have xs: "set xs = (\<lambda>n. node_data (node_store s n)) ` set ns" using d(6) by (metis set_map)
  show ?thesis
  proof (cases "x \<in> set xs")
    case False
    then have "list_search s x (first ns 0) = Some 0" using search_absent[OF d(3)] xs by simp
    then have "list_remove l x s = Some s" using d(1,4) by (simp add: list_remove_def list_at_def)
    then show ?thesis using l False by (auto simp: remove1_idem)
  next
    case True
    obtain as n bs where n: "ns = as @ n # bs" "node_data (node_store s n) = x"
      "x \<notin> (\<lambda>n. node_data (node_store s n)) ` set as" and hit: "list_search s x (first ns 0) = Some n"
      using search_present[OF l True] .
    let ?p = "final as 0" and ?q = "first bs 0"
    have c: "chain (node_store s) 0 as n" "chain (node_store s) n bs 0" "n \<noteq> 0" "node_prev (node_store s n) = ?p"
      "node_next (node_store s n) = ?q" using d(3) n(1) by simp_all
    have z: "?p = 0 \<longleftrightarrow> as = []" "?q = 0 \<longleftrightarrow> bs = []"
      using final_eq_0[OF c(1)] first_eq_0[OF c(2)] by simp_all
    have ne: "?p \<noteq> n" "?q \<noteq> n" "n \<notin> set as" "n \<notin> set bs" "distinct as" "distinct bs" "set as \<inter> set bs = {}"
      using d(2) n(1) c(3) by (auto simp: final_def first_def split: list.splits)
    let ?s1 = "if ?p \<noteq> 0 then s\<lparr>node_store := (node_store s)(?p := (node_store s ?p)\<lparr>node_next := ?q\<rparr>)\<rparr>
               else s\<lparr>list_store := (list_store s)(l := (list_store s l)\<lparr>list_head := ?q\<rparr>)\<rparr>"
    let ?t = "if ?q \<noteq> 0 then ?s1\<lparr>node_store := (node_store ?s1)(?q := (node_store ?s1 ?q)\<lparr>node_prev := ?p\<rparr>)\<rparr>
              else ?s1\<lparr>list_store := (list_store ?s1)(l := (list_store ?s1 l)\<lparr>list_tail := ?p\<rparr>)\<rparr>"
    have t: "list_remove l x s = Some ?t"
      unfolding list_remove_def using hit c(3-5) d(1,4) ne(1,2)
      by (simp add: list_at_def node_at_def set_node_def set_list_def)
    have m: "map (\<lambda>n. node_data (node_store s n)) (as @ bs) = remove1 x xs"
    proof -
      have "remove1 x (map (\<lambda>n. node_data (node_store s n)) as @ x # map (\<lambda>n. node_data (node_store s n)) bs) =
          map (\<lambda>n. node_data (node_store s n)) as @ map (\<lambda>n. node_data (node_store s n)) bs"
        using n(3) by (simp add: remove1_append)
      then show ?thesis using d(6) n(1,2) by auto
    qed
    have data: "node_data (node_store ?t y) = node_data (node_store s y)" for y by simp
    have "is_list ?t l (as @ bs) (remove1 x xs)"
      using c d(1,4,5) ne unfolding n(1) is_list_def data m
      by (cases as rule: rev_cases; cases bs) auto
    then show ?thesis using t n(1) by (intro exI[of _ ?t] exI[of _ "as @ bs"]) auto
  qed
qed

subsection \<open>Nodes come from the virtual memory manager\<close>

lemma node_size: "LIST_NODE_SIZE = 12" "unat (pmm_pages LIST_NODE_SIZE) = 1"
  by (simp_all add: LIST_NODE_SIZE_def unat_pmm_pages)

lemma vmm_alloc_node_eq: "vmm_alloc LIST_NODE_SIZE VMM_KERNEL s = vmm_alloc_node s"
  by (simp add: vmm_alloc_node_def LIST_NODE_SIZE_def)

lemma page_live_cong: "pmem t = pmem s \<Longrightarrow> page_live d t = page_live d s"
  using page_map_cong[of t s] by (simp add: page_live_def[abs_def])

lemma same_machineD:
  assumes "same_machine s t"
  shows "alloc_ready dm t d \<longleftrightarrow> alloc_ready dm s d" "page_live d t = page_live d s"
proof -
  have "bitmap t = bitmap s" "pmem t = pmem s" "cr3 t = cr3 s" "cr0_pg t = cr0_pg s" "page_directory t = page_directory s"
    using assms by (simp_all add: same_machine_def mm.truncate_def)
  then show "alloc_ready dm t d \<longleftrightarrow> alloc_ready dm s d" "page_live d t = page_live d s"
    by (rule alloc_ready_cong) (rule page_live_cong, fact)
qed

lemma vmm_ok_same:
  assumes "same_machine s t"
  shows "vmm_ok t d \<longleftrightarrow> vmm_ok s d"
proof -
  have f: "bitmap t = bitmap s" "pmem t = pmem s" "cr3 t = cr3 s" "cr0_pg t = cr0_pg s" "page_directory t = page_directory s"
    using assms by (simp_all add: same_machine_def mm.truncate_def)
  show ?thesis by (simp only: vmm_ok_def dir_view_def frame_used_def frame_state_def pmm_bitmap_get_def f)
qed

definition queue_ready :: "20 word \<Rightarrow> 'a heap_scheme \<Rightarrow> ptr \<Rightarrow> ptr list \<Rightarrow> ptr list \<Rightarrow> bool" where
  "queue_ready d s l ns xs \<longleftrightarrow> is_list s l ns xs \<and> alloc_ready kernel_domain s d \<and> (\<forall>n\<in>set ns. page_live d s n)"

lemma enqueue_spec:
  assumes "queue_ready d s l ns xs"
  shows "\<exists>n u. vmm_alloc_node s = Some (n, u) \<and> (n = 0 \<longrightarrow> queue_enqueue l x s = None) \<and>
    (n \<noteq> 0 \<longrightarrow> n \<notin> set ns \<and> (\<exists>t. queue_enqueue l x s = Some t \<and> queue_ready d t l (ns @ [n]) (xs @ [x])))"
proof -
  note q = assms[unfolded queue_ready_def]
  obtain n u where a: "vmm_alloc_node s = Some (n, u)" using vm_nodes.new_total q by blast
  note a' = a[folded vmm_alloc_node_eq]
  have ready: "alloc_ready kernel_domain u d" using vm_nodes.new_ok[OF _ a] q by blast
  have live: "page_live d u y \<longleftrightarrow> page_live d s y \<or> (n \<noteq> 0 \<and> y = n)" for y
    using vm_nodes.new_live[OF _ a] q by blast
  have "queue_enqueue l x s = None" if "n = 0"
    using that a' is_listD(1)[of s l ns xs] q
    by (simp add: queue_enqueue_def list_push_back_def list_create_node_def list_at_def set_node_def del: VMM_KERNEL_def)
  moreover have "n \<notin> set ns \<and> (\<exists>t. queue_enqueue l x s = Some t \<and> queue_ready d t l (ns @ [n]) (xs @ [x]))" if n: "n \<noteq> 0"
  proof -
    have fresh: "n \<notin> set ns" using vm_nodes.new_fresh[OF _ a] n q by blast
    then obtain t where t: "list_push_back l x s = Some t" "is_list t l (ns @ [n]) (xs @ [x])" "same_machine u t"
      using push_back_spec[OF conjunct1[OF q] a' n] by blast
    have "queue_ready d t l (ns @ [n]) (xs @ [x])"
      using t(2) ready live q n same_machineD[OF t(3)] by (auto simp: queue_ready_def)
    then show ?thesis using t(1) fresh by (auto simp: queue_enqueue_def)
  qed
  ultimately show ?thesis using a by blast
qed

lemma vmm_unmap_total:
  assumes "vmm_ok s d" "dir_index va \<noteq> 1023"
  shows "\<exists>t. vmm_unmap va s = Some t"
  using vmm_unmap_absent[OF assms(1)] vmm_unmap_present[OF assms] by blast

lemma vmm_free_node:
  assumes ok: "vmm_ok s d" and pg: "cr0_pg s" and q: "q < 1047552"
  shows "\<exists>t. vmm_free (page_addr q) LIST_NODE_SIZE s = Some t"
proof -
  obtain t where t: "vmm_unmap (page_addr q) s = Some t"
    using vmm_unmap_total[OF ok dir_index_low[OF q]] by blast
  have q': "q < 1048576" using q by simp
  have p: "pmm_get_page (page_addr q) 0 = of_nat q" "pmm_get_page (page_addr q) (LIST_NODE_SIZE - 1) = of_nat q"
    using range_pages[of LIST_NODE_SIZE q, unfolded node_size(2)] q by (simp_all add: node_size(1))
  have "vmm_unmap_range (page_addr q) LIST_NODE_SIZE s = Some t"
    using t p by (simp add: vmm_unmap_range_def vmm_map_range_detailed_def Let_def node_size(1))
  then show ?thesis using get_physical_address_page[OF ok pg q'] by (simp add: vmm_free_def)
qed

lemma dequeue_spec:
  assumes q: "is_list s l (n # ns) (x # xs)" and ok: "vmm_ok s d" "cr0_pg s" and n: "page_live d s n"
  shows "\<exists>t. queue_dequeue l s = Some (x, t) \<and> is_list t l ns xs"
proof -
  obtain k where k: "k < 1047552" "n = page_addr k" using n by (auto simp: page_live_def)
  let ?s = "s\<lparr>list_store := (list_store s)(l := (list_store s l)\<lparr>list_head := first ns 0\<rparr>)\<rparr>"
  have "vmm_ok ?s d" using vmm_ok_same[of s ?s d] ok(1) by simp
  then obtain u where "vmm_free n LIST_NODE_SIZE ?s = Some u" using vmm_free_node[of ?s d k] k ok(2) by auto
  then show ?thesis using pop_front_spec[OF q] unfolding queue_dequeue_def by blast
qed

text \<open>
  C29: Enqueueing on a queue whose nodes are pages of the kernel domain. The call fails on a null
  pointer exactly when the memory manager is out of memory; otherwise the data is behind all others, the queue has a
  node that it did not have before, and the nodes are still pages of the kernel domain.
\<close>

theorem queue_enqueue_correct:
  assumes "is_list s l ns xs" "alloc_ready kernel_domain s d" "\<forall>n\<in>set ns. page_live d s n"
  shows "\<exists>n u. vmm_alloc LIST_NODE_SIZE VMM_KERNEL s = Some (n, u) \<and>
    (if n = 0 then queue_enqueue l x s = None
     else n \<notin> set ns \<and> (\<exists>t. queue_enqueue l x s = Some t \<and> is_list t l (ns @ [n]) (xs @ [x]) \<and>
       alloc_ready kernel_domain t d \<and> (\<forall>m\<in>set (ns @ [n]). page_live d t m)))"
proof -
  have q: "queue_ready d s l ns xs" using assms by (simp add: queue_ready_def)
  show ?thesis using enqueue_spec[OF q, of x] unfolding vmm_alloc_node_eq queue_ready_def by auto
qed

text \<open>A queue with the item 7 in the page \<open>0x405000\<close>.\<close>

definition example_heap :: heap where
  "example_heap = mm.extend example_mm (heap.fields (\<lambda>_. \<lparr>node_data = 7, node_prev = 0, node_next = 0\<rparr>)
     (\<lambda>_. \<lparr>list_head = 0x405000, list_tail = 0x405000\<rparr>))"

lemma example_heap_list: "is_list example_heap 0x500000 [0x405000] [7]"
  by (simp add: example_heap_def is_list_def mm.defs heap.defs)

lemma example_heap_ready: "alloc_ready kernel_domain example_heap 1"
  using example_mm_ready by (subst alloc_ready_cong[of _ example_mm]) (simp_all add: example_heap_def mm.defs)

lemma example_heap_live: "page_live 1 example_heap 0x405000"
proof -
  have "page_map example_heap 1 0x405 = lookup example_mm 1 1 5"
    by (simp add: page_map_def lookup_def Let_def example_heap_def mm.defs cong: if_cong)
  then have "page_map example_heap 1 0x405 \<noteq> None" using example_mm_lookup(1)[of 5] by simp
  moreover have "(0x405000 :: ptr) = page_addr 0x405" by (simp add: pmm_get_address_def PAGE_SHIFT_def)
  ultimately show ?thesis unfolding page_live_def by (intro exI[of _ "0x405"]) simp
qed

theorem queue_enqueue_correct_witness:
  "\<exists>n u. vmm_alloc LIST_NODE_SIZE VMM_KERNEL example_heap = Some (n, u) \<and>
    (n \<noteq> 0 \<longrightarrow> (\<exists>t. queue_enqueue 0x500000 8 example_heap = Some t \<and> is_list t 0x500000 [0x405000, n] [7, 8]))"
  using queue_enqueue_correct[OF example_heap_list example_heap_ready, of 8] example_heap_live by fastforce

subsection \<open>First in, first out\<close>

primrec drain :: "ptr \<Rightarrow> nat \<Rightarrow> 'a heap_scheme \<Rightarrow> (ptr list \<times> 'a heap_scheme) option" where
  "drain l 0 s = Some ([], s)"
| "drain l (Suc n) s = do { (x, s) \<leftarrow> queue_dequeue l s; (xs, s) \<leftarrow> drain l n s; Some (x # xs, s) }"

lemma enqueue_all:
  "queue_ready d s l ns xs \<Longrightarrow> run (queue_enqueue l) ys s = Some t \<Longrightarrow> \<exists>ns. queue_ready d t l ns (xs @ ys)"
proof (induction ys arbitrary: s ns xs)
  case (Cons y ys)
  obtain u where u: "queue_enqueue l y s = Some u" "run (queue_enqueue l) ys u = Some t"
    using Cons.prems(2) by (auto split: bind_splits)
  obtain n where "queue_ready d u l (ns @ [n]) (xs @ [y])"
    using enqueue_spec[OF Cons.prems(1), of y] u(1) by auto
  then show ?case using Cons.IH[OF _ u(2)] by fastforce
qed auto


lemma dequeue_head:
  assumes l: "is_list s l ns xs" and t: "queue_dequeue l s = Some (y, t)"
  shows "\<exists>n ms ys. ns = n # ms \<and> xs = y # ys \<and> is_list t l ms ys"
proof (cases ns)
  case Nil
  then show ?thesis
    using t is_listD(4)[OF l] by (auto simp: queue_dequeue_def list_pop_front_def list_at_def node_at_def split: bind_splits if_splits)
next
  case (Cons n ms)
  note d = is_listD[OF l, unfolded Cons]
  obtain x ys where x: "xs = x # ys" using d(6) by (cases xs) simp_all
  let ?s = "s\<lparr>list_store := (list_store s)(l := (list_store s l)\<lparr>list_head := first ms 0\<rparr>)\<rparr>"
  have "vmm_free n LIST_NODE_SIZE ?s \<noteq> None"
    using t d by (auto simp: queue_dequeue_def list_pop_front_def list_at_def node_at_def set_list_def Let_def split: bind_splits if_splits)
  then show ?thesis using pop_front_spec[OF l[unfolded Cons x]] t Cons x by (auto simp: queue_dequeue_def)
qed

lemma drain_all: "is_list s l ns xs \<Longrightarrow> drain l k s = Some (ys, t) \<Longrightarrow> ys = take k xs \<and> k \<le> length xs \<and> (\<exists>ms. is_list t l ms (drop k xs))"
proof (induction k arbitrary: s ns xs ys)
  case (Suc k)
  obtain y u zs where u: "queue_dequeue l s = Some (y, u)" "drain l k u = Some (zs, t)" "ys = y # zs"
    using Suc.prems(2) by (auto split: bind_splits prod.splits)
  then show ?case using dequeue_head[OF Suc.prems(1) u(1)] Suc.IH[OF _ u(2)] by fastforce
qed auto



text \<open>
  C28: Removing an item takes its first occurrence out of the list and keeps the order of the others; an item that is not in the
  list is left alone. The memory of the removed node is not given back: nothing but pointers of the list changes.
\<close>

theorem list_remove_correct:
  assumes "is_list s l ns xs"
  shows "\<exists>t ms. list_remove l x s = Some t \<and> is_list t l ms (remove1 x xs) \<and> set ms \<subseteq> set ns \<and>
    list_find t l x = Some (x \<in> set (remove1 x xs)) \<and> mm.truncate t = mm.truncate s"
  using remove_spec[OF assms, of x] find_spec unfolding same_machine_def by blast

theorem list_remove_correct_witness:
  "\<exists>t. list_remove 0x500000 7 example_heap = Some t \<and> list_find t 0x500000 7 = Some False"
  using list_remove_correct[OF example_heap_list, of 7] by auto

end
