(* ===== verification/VMM_Window.thy ===== *)
theory VMM_Window
  imports VMM_Init
begin

unbundle bit_operations_syntax

text \<open>
  A window onto a page frame: with paging on, \<^verbatim>\<open>mem/vmm.c\<close> reaches a frame by mapping it at the first
  free page of the kernel domain (\<open>vmm_map_physical_memory\<close>) and unmapping it afterwards. The theory follows such a
  window from its opening to its closing and shows what it leaves behind (\<open>visited\<close>).
\<close>

subsection \<open>A window onto a frame\<close>

text \<open>In \<open>s\<close> the page at \<open>va\<close> is mapped to frame \<open>f\<close>, which is neither the directory nor the table of the page.\<close>

definition window :: "'a mm_scheme \<Rightarrow> 20 word \<Rightarrow> ptr \<Rightarrow> 20 word \<Rightarrow> bool" where
  "window s d va f \<longleftrightarrow> dir_view s d \<and> cr0_pg s \<and> unat va mod 4096 = 0 \<and> f \<noteq> d \<and>
     entry_pr (pmem s d (dir_index va)) \<and> f \<noteq> entry_frame (pmem s d (dir_index va)) \<and>
     entry_pr (pmem s (entry_frame (pmem s d (dir_index va))) (tab_index va)) \<and>
     entry_frame (pmem s (entry_frame (pmem s d (dir_index va))) (tab_index va)) = f"

lemma window_access:
  assumes "window s d va f"
  shows "load s (va + 4 * ucast (j :: 10 word)) = Some (pmem s f j)"
    and "store (va + 4 * ucast j) v s = Some (poke f j v s)"
proof -
  have cr: "phys_frame (cr3 s) = d" and pg: "cr0_pg s" and al: "unat va mod 4096 = 0"
    using assms by (auto simp: window_def dir_view_def)
  note ix = page_dword(2,3,4)[OF al, of j]
  note a = access_paged[OF pg cr, of "va + 4 * ucast j", unfolded ix]
  show "load s (va + 4 * ucast j) = Some (pmem s f j)" "store (va + 4 * ucast j) v s = Some (poke f j v s)"
    using a assms by (simp_all add: window_def)
qed

lemma window_content:
  assumes "window s d va f"
  shows "window (s\<lparr>pmem := (pmem s)(f := c)\<rparr>) d va f"
proof -
  let ?s = "s\<lparr>pmem := (pmem s)(f := c)\<rparr>"
  note w = assms[unfolded window_def]
  have same: "pmem ?s d = pmem s d"
    "pmem ?s (entry_frame (pmem s d (dir_index va))) = pmem s (entry_frame (pmem s d (dir_index va)))"
    using w by auto
  have "dir_view ?s d" using w same by (intro dir_view_cong[of s d ?s]) simp_all
  then show ?thesis unfolding window_def same using w by simp
qed

lemma window_poke: "window s d va f \<Longrightarrow> window (poke f j v s) d va f"
  unfolding poke_def by (rule window_content)

lemma window_memset:
  assumes "window s d va f"
  shows "memset_dwords ENTRIES va v s = Some (s\<lparr>pmem := (pmem s)(f := \<lambda>_. v)\<rparr>)"
  by (rule memset_page_window[where Q = "\<lambda>s. window s d va f"]) (use assms window_access(2) window_poke in blast)+

lemma slot_of_nat: "k < 1024 \<Longrightarrow> (ucast (of_nat k :: 10 word) :: u32) = of_nat k"
  by (simp add: word_unat_eq_iff unat_ucast_slot unat_of_nat_small)

text \<open>Copying entries of the current directory through the window.\<close>

lemma window_memcpy:
  assumes "window s d va f" "k + n \<le> 1024"
  shows "memcpy_dwords n (va + 4 * of_nat k) (VMM_PAGEDIR + 4 * of_nat k) s =
    Some (s\<lparr>pmem := (pmem s)(f := \<lambda>j. if k \<le> unat j \<and> unat j < k + n then pmem s d j else pmem s f j)\<rparr>)"
  using assms
proof (induction n arbitrary: k s)
  case 0
  have "(\<lambda>j. if k \<le> unat j \<and> unat j < k then pmem s d j else pmem s f j) = pmem s f" by (rule ext) auto
  then show ?case by simp
next
  case (Suc n)
  have k: "k < 1024" using Suc.prems(2) by simp
  then have uk: "unat (of_nat k :: 10 word) = k" by (simp add: unat_of_nat_small)
  note ck = slot_of_nat[OF k]
  have fd: "d \<noteq> f" and dv: "dir_view s d" and pd: "page_directory s = VMM_PAGEDIR"
    using Suc.prems(1) by (auto simp: window_def dir_view_def)
  let ?s = "poke f (of_nat k) (pmem s d (of_nat k)) s"
  have ld: "load s (VMM_PAGEDIR + 4 * of_nat k) = Some (pmem s d (of_nat k))"
    using dir_entry_access(1)[OF dv, of "of_nat k"] ck by (simp add: dir_entry_ptr_def pd)
  have st: "store (va + 4 * of_nat k) (pmem s d (of_nat k)) s = Some ?s"
    using window_access(2)[OF Suc.prems(1), of "of_nat k"] ck by simp
  have eq: "a + 4 * of_nat k + 4 = a + 4 * of_nat (Suc k)" for a :: u32 by (simp add: algebra_simps)
  have "memcpy_dwords n (va + 4 * of_nat (Suc k)) (VMM_PAGEDIR + 4 * of_nat (Suc k)) ?s =
    Some (?s\<lparr>pmem := (pmem ?s)(f := \<lambda>j. if Suc k \<le> unat j \<and> unat j < Suc k + n then pmem ?s d j else pmem ?s f j)\<rparr>)"
    using Suc.prems by (intro Suc.IH window_poke) simp_all
  also have "\<dots> = Some (s\<lparr>pmem := (pmem s)(f := \<lambda>j. if k \<le> unat j \<and> unat j < k + Suc n then pmem s d j else pmem s f j)\<rparr>)"
  proof -
    have "(\<lambda>j. if Suc k \<le> unat j \<and> unat j < Suc k + n then pmem ?s d j else pmem ?s f j) =
          (\<lambda>j. if k \<le> unat j \<and> unat j < k + Suc n then pmem s d j else pmem s f j)"
      using uk fd by (intro ext) (auto simp: word_unat_eq_iff[of _ "of_nat k"])
    then show ?thesis by (simp only: poke_fields(1)) (simp add: poke_def)
  qed
  finally show ?case by (simp only: memcpy_dwords.simps ld st Option.bind.simps eq)
qed

subsection \<open>Opening and closing the window\<close>

text \<open>The directory entries of the kernel domain, which \<open>vmm_refresh_page_directory\<close> copies.\<close>

definition kernel_slot :: "10 word \<Rightarrow> bool" where
  "kernel_slot i \<longleftrightarrow> 1 \<le> unat i \<and> unat i \<le> 255"

lemma kernel_slot_low: "kernel_slot i \<Longrightarrow> i \<noteq> 1023"
  by (auto simp: kernel_slot_def)

text \<open>
  The current directory is ready for temporary mappings: no page of the kernel domain is mapped to frame
  0, no table of it maps its last page only (\<open>drops_table\<close>), and a page of it is free.
\<close>

definition kernel_ready :: "'a mm_scheme \<Rightarrow> 20 word \<Rightarrow> bool" where
  "kernel_ready s d \<longleftrightarrow> vmm_ok s d \<and> cr0_pg s \<and>
     (\<forall>i j e. kernel_slot i \<longrightarrow> lookup s d i j = Some e \<longrightarrow> entry_frame e \<noteq> 0) \<and>
     (\<forall>i. kernel_slot i \<longrightarrow> lookup s d i 1023 \<noteq> None \<longrightarrow> (\<exists>j. j \<noteq> 1023 \<and> lookup s d i j \<noteq> None)) \<and>
     (\<exists>i j. kernel_slot i \<and> lookup s d i j = None)"

lemma kernel_pages: "domain_low kernel_domain = 1024" "domain_high kernel_domain = 262144"
  by (simp_all add: domain_low_def domain_high_def)

lemma page_of_slots:
  assumes "kernel_slot i"
  obtains q where "1024 \<le> q" "q < 262144" "page_map s d q = lookup s d i j"
proof -
  let ?q = "unat i * 1024 + unat j"
  have j: "unat j < 1024" using unat_bound[of j] by simp
  have i: "1 \<le> unat i" "unat i \<le> 255" using assms by (simp_all add: kernel_slot_def)
  have "?q div 1024 = unat i" "?q mod 1024 = unat j" using j by simp_all
  then have "page_map s d ?q = lookup s d i j" by (simp add: page_map_def)
  moreover have "1024 \<le> ?q" "?q < 262144" using i j by linarith+
  ultimately show ?thesis using that by blast
qed

lemma slots_of_page:
  assumes "1024 \<le> q" "q < 262144"
  shows "kernel_slot (dir_index (page_addr q))"
proof -
  have "q div 1024 < 256" "1 \<le> q div 1024" using assms by (simp_all add: div_less_iff_less_mult)
  then show ?thesis using assms by (simp add: kernel_slot_def page_addr_index unat_of_nat_small)
qed

lemma find_loop_first:
  assumes "\<And>i. i \<le> e \<Longrightarrow> vmm_get_physical_address s (page_addr i) = Some (g i)"
    and "i \<le> q" "q \<le> e" "g q = 0" "\<And>k. i \<le> k \<Longrightarrow> k < q \<Longrightarrow> g k \<noteq> 0"
  shows "vmm_find_loop s 1 e i 0 = Some (page_addr q)"
  using assms(2,5)
proof (induction "q - i" arbitrary: i)
  case 0
  then have "i = q" by simp
  then show ?case using assms(1)[OF assms(3)] assms(3,4) by (simp add: vmm_find_loop.simps[of s 1 e q 0])
next
  case (Suc n)
  then have i: "i < q" by simp
  then have g: "g i \<noteq> 0" using Suc.prems(2) by simp
  have "vmm_find_loop s 1 e i 0 = vmm_find_loop s 1 e (Suc i) 0"
    using assms(1)[of i] i assms(3) g by (simp add: vmm_find_loop.simps[of s 1 e i 0])
  then show ?case using Suc.hyps(1)[of "Suc i"] Suc.hyps(2) Suc.prems i by simp
qed

lemma find_kernel_page:
  assumes "kernel_ready s d"
  obtains q where "vmm_find_free s PAGE_SIZE kernel_domain = Some (page_addr q)" "1024 \<le> q" "q < 262144"
    "page_map s d q = None"
proof -
  note K = assms[unfolded kernel_ready_def]
  let ?g = "\<lambda>i. case page_map s d i of None \<Rightarrow> 0 | Some e \<Rightarrow> pmm_get_address (entry_page e) 0"
  let ?P = "\<lambda>q. 1024 \<le> q \<and> ?g q = 0"
  have ok: "vmm_ok s d" and pg: "cr0_pg s" using K by blast+
  obtain i j where ij: "kernel_slot i" "lookup s d i j = None" using K by blast
  obtain r where r: "1024 \<le> r" "r < 262144" "page_map s d r = None"
    by (rule page_of_slots[OF ij(1), of s d j]) (simp only: ij(2))
  define q where "q = (LEAST q. ?P q)"
  have Pr: "?P r" using r by simp
  have q: "?P q" unfolding q_def by (rule LeastI[of ?P, OF Pr])
  have le: "q \<le> r" unfolding q_def by (rule Least_le[of ?P, OF Pr])
  have first: "?g k \<noteq> 0" if "1024 \<le> k" "k < q" for k
    using not_less_Least[of k ?P] that unfolding q_def by blast
  have phys: "vmm_get_physical_address s (page_addr i) = Some (?g i)" if "i \<le> 262143" for i
    using get_physical_address_page[OF ok pg, of i] that by simp
  have "vmm_find_loop s 1 262143 1024 0 = Some (page_addr q)"
    by (rule find_loop_first[OF phys]) (use q le r first in auto)
  moreover have "pmm_pages PAGE_SIZE = 1" by (simp add: word_unat_eq_iff unat_pmm_pages)
  moreover have "unat (pmm_get_page (domain_end kernel_domain) 0) = 262143"
    "unat (pmm_get_page (domain_start kernel_domain) 0) = 1024" by (simp_all add: unat_get_page)
  ultimately have f: "vmm_find_free s PAGE_SIZE kernel_domain = Some (page_addr q)"
    by (simp add: vmm_find_free_def)
  have q2: "q < 262144" using le r(2) by simp
  have "page_map s d q = None"
  proof (cases "page_map s d q")
    case (Some e)
    then have "entry_frame e = 0" using q entry_address_eq_0[of e] by simp
    moreover have "kernel_slot (dir_index (page_addr q))" using slots_of_page q q2 by blast
    moreover have "lookup s d (dir_index (page_addr q)) (tab_index (page_addr q)) = Some e"
      using Some lookup_page_addr[of q s d] q2 by simp
    ultimately show ?thesis using K by blast
  qed simp
  then show ?thesis using that[OF f _ q2] q by blast
qed

lemma aligned_page_addr: "unat pa mod 4096 = 0 \<Longrightarrow> pa = page_addr (unat (phys_frame pa))"
  using unat_page_addr[of "unat (phys_frame pa)"] unat_bound[of "phys_frame pa"] unat_phys_frame[of pa]
  by (auto simp: word_unat_eq_iff)

lemma map_one_page:
  assumes "vmm_domain_check s (page_addr q) VMM_KERNEL" "q < 1047552" "unat pa mod 4096 = 0"
  shows "vmm_map_range (page_addr q) pa PAGE_SIZE VMM_KERNEL s = map_option snd (vmm_map (page_addr q) pa VMM_KERNEL s)"
proof -
  have n: "unat (pmm_pages PAGE_SIZE) = 1" by (simp add: unat_pmm_pages)
  let ?f = "unat (phys_frame pa)"
  have "?f < 1048576" using unat_bound[of "phys_frame pa"] by simp
  then have "vmm_map_range (page_addr q) (page_addr ?f) PAGE_SIZE VMM_KERNEL s =
      vmm_map_loop 1 (of_nat q) (of_nat ?f) VMM_KERNEL s"
    using vmm_map_range_pages[of PAGE_SIZE q ?f s VMM_KERNEL] assms(1,2) unfolding n by simp
  also have "\<dots> = map_option snd (vmm_map (page_addr q) (page_addr ?f) VMM_KERNEL s)"
    by (cases "vmm_map (page_addr q) (page_addr ?f) VMM_KERNEL s") (auto simp del: VMM_KERNEL_def)
  finally show ?thesis using aligned_page_addr[OF assms(3)] by simp
qed

lemma unmap_one_page:
  assumes "q < 1047552"
  shows "vmm_unmap_range (page_addr q) PAGE_SIZE s = vmm_unmap (page_addr q) s"
proof -
  have n: "unat (pmm_pages PAGE_SIZE) = 1" by (simp add: unat_pmm_pages)
  have "pmm_get_page (page_addr q) (PAGE_SIZE - 1) = of_nat q" "pmm_get_page (page_addr q) 0 = of_nat q"
    using range_pages[of PAGE_SIZE q] assms unfolding n by (simp_all del: PAGE_SIZE_def) (simp_all add: PAGE_SIZE_def)
  moreover have "vmm_unmap_loop (Suc 0) (of_nat q) s = vmm_unmap (page_addr q) s"
    by (cases "vmm_unmap (page_addr q) s") auto
  ultimately show ?thesis by (simp add: vmm_unmap_range_def vmm_map_range_detailed_def Let_def)
qed

definition opened :: "'a mm_scheme \<Rightarrow> 20 word \<Rightarrow> nat \<Rightarrow> ptr \<Rightarrow> 'a mm_scheme \<Rightarrow> bool" where
  "opened s d q pa u \<longleftrightarrow> 1024 \<le> q \<and> q < 262144 \<and> page_map s d q = None \<and> extends s d u \<and>
     takes_frame s d (page_addr q) u \<and> window u d (page_addr q) (phys_frame pa) \<and>
     (\<exists>e. \<forall>r<1047552. page_map u d r = (if r = q then Some e else page_map s d r))"

lemma open_window:
  assumes ready: "kernel_ready s d" and room: "free_frames s \<noteq> {}" and al: "unat pa mod 4096 = 0"
    and f: "frame_used s (phys_frame pa)" "phys_frame pa \<noteq> d" "\<not> is_table s d (phys_frame pa)"
  obtains q u where "vmm_map_physical_memory pa PAGE_SIZE VMM_KERNEL s = Some (page_addr q, u)" "opened s d q pa u"
proof -
  have ok: "vmm_ok s d" and pg: "cr0_pg s" using ready by (simp_all add: kernel_ready_def)
  obtain q where q: "vmm_find_free s PAGE_SIZE kernel_domain = Some (page_addr q)" "1024 \<le> q" "q < 262144"
    "page_map s d q = None" by (rule find_kernel_page[OF ready])
  have ql: "q < 1047552" "q < 1048576" using q(3) by simp_all
  have dm: "vmm_get_domain VMM_KERNEL = kernel_domain" by (simp add: vmm_get_domain_def)
  have dc: "vmm_domain_check s (page_addr q) VMM_KERNEL"
    using page_addr_domain[of kernel_domain q] q(2,3) dm by (simp add: vmm_domain_check_def kernel_pages del: VMM_KERNEL_def)
  obtain u e where u: "vmm_map (page_addr q) pa VMM_KERNEL s = Some (True, u)" "extends s d u"
      "takes_frame s d (page_addr q) u" "maps_to e pa VMM_KERNEL"
      "\<And>r. r < 1047552 \<Longrightarrow> page_map u d r = (if r = q then Some e else page_map s d r)"
    using map_new_page[OF ok ql(1) q(4) dc room, of pa] by blast
  have nz: "page_addr q \<noteq> 0" using unat_page_addr[OF ql(2)] q(2) by auto
  have "vmm_map_physical_memory pa PAGE_SIZE VMM_KERNEL s = Some (page_addr q, u)"
    using q(1) pg dm nz map_one_page[OF dc ql(1) al] u(1)
    by (simp add: vmm_map_physical_memory_def mmu_get_paging_def del: VMM_KERNEL_def PAGE_SIZE_def)
  moreover have "opened s d q pa u"
  proof -
    let ?va = "page_addr q"
    have "lookup u d (dir_index ?va) (tab_index ?va) = Some e" using u(5)[OF ql(1)] lookup_page_addr[OF ql(2), of u d] by simp
    then have pr: "entry_pr (pmem u d (dir_index ?va))"
      "entry_pr (pmem u (entry_frame (pmem u d (dir_index ?va))) (tab_index ?va))"
      "pmem u (entry_frame (pmem u d (dir_index ?va))) (tab_index ?va) = e"
      by (auto simp: lookup_def Let_def split: if_splits)
    note ext = u(2)[unfolded extends_def]
    have "is_table u d (entry_frame (pmem u d (dir_index ?va)))"
      using pr(1) dir_index_low[OF ql(1)] by (auto simp: is_table_def)
    then have g: "phys_frame pa \<noteq> entry_frame (pmem u d (dir_index ?va))" using ext f(1,3) by metis
    have "window u d ?va (phys_frame pa)"
      unfolding window_def using pr g f(2) u(4) vmm_okD(1)[OF extendsD(1)[OF u(2)]] extendsD(4)[OF u(2)] pg unat_page_addr[OF ql(2)]
      by (simp add: maps_to_def)
    then show ?thesis using q(2-4) u(2,3,5) by (auto simp: opened_def)
  qed
  ultimately show ?thesis by (rule that)
qed

lemma vmm_ok_content: "vmm_ok s d \<Longrightarrow> f \<noteq> d \<Longrightarrow> vmm_ok (s\<lparr>pmem := (pmem s)(f := c)\<rparr>) d"
proof -
  assume ok: "vmm_ok s d" and f: "f \<noteq> d"
  let ?t = "s\<lparr>pmem := (pmem s)(f := c)\<rparr>"
  have "dir_view ?t d" by (rule dir_view_cong[OF vmm_okD(1)[OF ok]]) (use f in simp_all)
  moreover have "frame_used ?t = frame_used s" using frame_state_bitmap[of ?t s] by (simp add: frame_used_def fun_eq_iff)
  moreover have "pmem ?t d = pmem s d" using f by simp
  ultimately show ?thesis using ok unfolding vmm_ok_def by presburger
qed

lemma lookup_content:
  assumes "f \<noteq> d" "\<not> is_table s d f" "i \<noteq> 1023"
  shows "lookup (s\<lparr>pmem := (pmem s)(f := c)\<rparr>) d i j = lookup s d i j"
  using assms by (auto simp: lookup_def Let_def is_table_def)

lemma lookup_as_page:
  assumes "i \<noteq> 1023"
  shows "lookup s d i j = page_map s d (unat i * 1024 + unat j)" "unat i * 1024 + unat j < 1047552"
proof -
  have i: "unat i < 1023" using assms unat_bound[of i] by (auto simp: word_unat_eq_iff)
  have j: "unat j < 1024" using unat_bound[of j] by simp
  then have "(unat i * 1024 + unat j) div 1024 = unat i" "(unat i * 1024 + unat j) mod 1024 = unat j" by simp_all
  then show "lookup s d i j = page_map s d (unat i * 1024 + unat j)" by (simp add: page_map_def)
  show "unat i * 1024 + unat j < 1047552" using i j by linarith
qed

text \<open>
  What remains in \<open>t\<close> of a visit of frame \<open>f\<close> through a window of directory \<open>d\<close>: the frame has the content
  \<open>c\<close>, and apart from a page table that the window may have needed everything else is as it was.
\<close>

definition visited :: "'a mm_scheme \<Rightarrow> 20 word \<Rightarrow> 20 word \<Rightarrow> (10 word \<Rightarrow> u32) \<Rightarrow> 'a mm_scheme \<Rightarrow> bool" where
  "visited s d f c t \<longleftrightarrow> vmm_ok t d \<and> ctrl t = ctrl s \<and> pmem t f = c \<and>
     (\<forall>i j. i \<noteq> 1023 \<longrightarrow> lookup t d i j = lookup s d i j) \<and>
     (\<forall>i. \<not> kernel_slot i \<longrightarrow> pmem t d i = pmem s d i) \<and>
     (\<forall>h. frame_used s h \<longrightarrow> frame_used t h) \<and>
     (\<forall>h. is_table t d h \<longrightarrow> is_table s d h \<or> \<not> frame_used s h) \<and>
     (\<forall>h. frame_used s h \<longrightarrow> h \<noteq> f \<longrightarrow> h \<noteq> d \<longrightarrow> \<not> is_table s d h \<longrightarrow> pmem t h = pmem s h) \<and>
     card (free_frames s) \<le> Suc (card (free_frames t))"

lemma opened_cost:
  assumes "takes_frame s d va u"
  shows "card (free_frames s) \<le> Suc (card (free_frames u))"
proof -
  obtain g where g: "\<And>f. frame_used u f \<longleftrightarrow> frame_used s f \<or> \<not> entry_pr (pmem s d (dir_index va)) \<and> f = g"
    using assms by (auto simp: takes_frame_def)
  then have "free_frames s - {g} \<subseteq> free_frames u" by (auto simp: free_frames_def)
  then have "card (free_frames s - {g}) \<le> card (free_frames u)" by (intro card_mono) simp_all
  then show ?thesis using diff_card_le_card_Diff[of "{g}" "free_frames s"] by simp
qed

lemma close_window:
  assumes ready: "kernel_ready s d" and op: "opened s d q pa u"
    and f: "frame_used s (phys_frame pa)" "phys_frame pa \<noteq> d" "\<not> is_table s d (phys_frame pa)"
  shows "\<exists>t. vmm_unmap_physical_memory (page_addr q) PAGE_SIZE (u\<lparr>pmem := (pmem u)(phys_frame pa := c)\<rparr>) = Some t \<and>
    visited s d (phys_frame pa) c t \<and> pmem t d = pmem u d"
proof -
  let ?f = "phys_frame pa" and ?va = "page_addr q"
  let ?v = "u\<lparr>pmem := (pmem u)(?f := c)\<rparr>"
  note O = op[unfolded opened_def]
  have ql: "q < 1047552" "q < 1048576" using O by simp_all
  have ext: "extends s d u" and w: "window u d ?va ?f" and none: "page_map s d q = None" using O by blast+
  note E = extendsD[OF ext]
  obtain e where e: "\<And>r. r < 1047552 \<Longrightarrow> page_map u d r = (if r = q then Some e else page_map s d r)" using O by blast
  have low: "dir_index ?va \<noteq> 1023" by (rule dir_index_low[OF ql(1)])
  have ks: "kernel_slot (dir_index ?va)" using slots_of_page[of q] O by blast
  have ix: "dir_index ?va = of_nat (q div 1024)" "tab_index ?va = of_nat (q mod 1024)" by (rule page_addr_index[OF ql(2)])+
  have nt: "\<not> is_table u d ?f" using ext[unfolded extends_def] f(1,3) by metis
  have okv: "vmm_ok ?v d" by (rule vmm_ok_content[OF E(1) f(2)])
  have lv: "lookup ?v d i j = lookup u d i j" if "i \<noteq> 1023" for i j by (rule lookup_content[OF f(2) nt that])
  have lu: "lookup u d i j = (if i = dir_index ?va \<and> j = tab_index ?va then Some e else lookup s d i j)"
    if i: "i \<noteq> 1023" for i j
  proof -
    let ?r = "unat i * 1024 + unat j"
    note r1 = lookup_as_page(1)[OF i, of _ _ j] and r2 = lookup_as_page(2)[OF i, of j]
    have j: "unat j < 1024" using unat_bound[of j] by simp
    have "i = of_nat (?r div 1024)" "j = of_nat (?r mod 1024)" using j by simp_all
    then have "(i = dir_index ?va \<and> j = tab_index ?va) \<longleftrightarrow> ?r = q"
      using dir_index_of_nat_eq[of ?r q] r2 ql(2) unfolding ix by simp
    then show ?thesis using e[OF r2] r1[of u d] r1[of s d] by auto
  qed
  have pres: "lookup ?v d (dir_index ?va) (tab_index ?va) \<noteq> None" using lv[OF low] lu[OF low] by simp
  have nd: "\<not> drops_table ?v d ?va"
  proof
    assume "drops_table ?v d ?va"
    then have d: "tab_index ?va \<noteq> 1023" "lookup s d (dir_index ?va) 1023 \<noteq> None"
      "\<And>j. j \<noteq> 1023 \<Longrightarrow> j \<noteq> tab_index ?va \<Longrightarrow> lookup s d (dir_index ?va) j = None"
      unfolding drops_table_def using lv[OF low] lu[OF low] by (auto split: if_splits)
    then obtain j where "j \<noteq> 1023" "lookup s d (dir_index ?va) j \<noteq> None"
      using ready ks unfolding kernel_ready_def by blast
    then have "lookup s d (dir_index ?va) (tab_index ?va) \<noteq> None" using d(3) by metis
    then show False using none lookup_page_addr[OF ql(2), of s d] by simp
  qed
  let ?g = "entry_frame (pmem ?v d (dir_index ?va))"
  let ?t = "mmu_flush_tlb ?va (poke ?g (tab_index ?va) 0 ?v)"
  have pg: "cr0_pg ?v" using w by (simp add: window_def)
  have un: "unmapped ?v d ?va = ?t" using nd pg unfolding unmapped_def Let_def by (simp only: if_True if_False)
  have pd: "pmem ?v d = pmem u d" using f(2) by simp
  have pru: "entry_pr (pmem u d (dir_index ?va))" using w by (simp add: window_def)
  have g: "is_table u d ?g" unfolding pd using low pru by (auto simp: is_table_def)
  have gd: "?g \<noteq> d" using vmm_okD(4)[OF E(1) low pru] pd by simp
  have gf: "?g \<noteq> ?f" using g nt by metis
  note sp = unmapped_spec[OF okv low pres, unfolded un]
  have run: "vmm_unmap_physical_memory ?va PAGE_SIZE ?v = Some ?t"
    using vmm_unmap_present[OF okv low pres] unmap_one_page[OF ql(1), of ?v] pg un
    by (simp add: vmm_unmap_physical_memory_def mmu_get_paging_def del: PAGE_SIZE_def)
  have pmt: "pmem ?t = (pmem u)(?f := c, ?g := (pmem u ?g)(tab_index ?va := 0))"
    using gf by (simp add: mmu_flush_tlb_def fun_upd_twist)
  have ptd: "pmem ?t d = pmem u d" unfolding pmt using f(2) gd by simp
  have fu: "frame_used ?t h \<longleftrightarrow> frame_used u h" for h
    using frame_state_bitmap[of ?t u] by (simp add: mmu_flush_tlb_def frame_used_def)
  have it: "is_table ?t d h \<longleftrightarrow> is_table u d h" for h unfolding is_table_def ptd ..
  have "visited s d ?f c ?t"
    unfolding visited_def
  proof (intro conjI allI impI)
    show "vmm_ok ?t d" by (rule sp(1))
    show "ctrl ?t = ctrl s" using E(2) by (simp add: ctrl_def mmu_flush_tlb_def)
    show "pmem ?t ?f = c" unfolding pmt using gf by simp
    show "lookup ?t d i j = lookup s d i j" if "i \<noteq> 1023" for i j
      using sp(3)[OF that, of j] nd lv[OF that, of j] lu[OF that, of j] none lookup_page_addr[OF ql(2), of s d]
      by (simp split: if_splits)
    show "pmem ?t d i = pmem s d i" if "\<not> kernel_slot i" for i
    proof -
      have "i \<noteq> dir_index ?va" using that ks by metis
      then show ?thesis unfolding ptd using O by (simp add: takes_frame_def)
    qed
    show "frame_used ?t h" if "frame_used s h" for h using E(3)[OF that] fu by simp
    show "is_table s d h \<or> \<not> frame_used s h" if "is_table ?t d h" for h
      using that it ext unfolding extends_def by metis
    show "pmem ?t h = pmem s h" if h: "frame_used s h" "h \<noteq> ?f" "h \<noteq> d" "\<not> is_table s d h" for h
    proof -
      have "h \<noteq> ?g" using g ext h(1,4) unfolding extends_def by metis
      then show ?thesis unfolding pmt using h E(11)[OF h(1,3,4)] by simp
    qed
    have "free_frames ?t = free_frames u" using fu by (simp add: free_frames_def)
    then show "card (free_frames s) \<le> Suc (card (free_frames ?t))" using opened_cost[of s d ?va u] O by simp
  qed
  then show ?thesis using run ptd by blast
qed

end
