(* ===== verification/VMM_Dir.thy ===== *)
theory VMM_Dir
  imports VMM_Window
begin

unbundle bit_operations_syntax

text \<open>
  Page directories with paging on (\<^verbatim>\<open>mem/vmm.c\<close>): what \<open>vmm_create_page_directory\<close> and
  \<open>vmm_load_page_directory\<close> do to a set of address spaces. The directories stay apart, and the kernel's part
  is the same in the one that is current.
\<close>

subsection \<open>Address spaces\<close>

text \<open>
  The frames a directory has for itself (the directory and the tables outside the kernel domain) and the
  kernel's tables, which all directories share.
\<close>

definition user_slot :: "10 word \<Rightarrow> bool" where
  "user_slot i \<longleftrightarrow> i \<noteq> 1023 \<and> \<not> kernel_slot i"

definition own_frames :: "'a mm_scheme \<Rightarrow> 20 word \<Rightarrow> 20 word set" where
  "own_frames s e = insert e {h. \<exists>i. user_slot i \<and> entry_pr (pmem s e i) \<and> entry_frame (pmem s e i) = h}"

definition kernel_tables :: "'a mm_scheme \<Rightarrow> 20 word \<Rightarrow> 20 word set" where
  "kernel_tables s d = {h. \<exists>i. kernel_slot i \<and> entry_pr (pmem s d i) \<and> entry_frame (pmem s d i) = h}"

definition space :: "'a mm_scheme \<Rightarrow> 20 word \<Rightarrow> bool" where
  "space s e \<longleftrightarrow> frame_used s e \<and> entry_pr (pmem s e 1023) \<and> entry_frame (pmem s e 1023) = e \<and>
     (\<forall>i. user_slot i \<longrightarrow> entry_pr (pmem s e i) \<longrightarrow>
        entry_frame (pmem s e i) \<noteq> e \<and> entry_frame (pmem s e i) \<noteq> 0 \<and> frame_used s (entry_frame (pmem s e i))) \<and>
     (\<forall>i j. user_slot i \<longrightarrow> user_slot j \<longrightarrow> i \<noteq> j \<longrightarrow> entry_pr (pmem s e i) \<longrightarrow> entry_pr (pmem s e j) \<longrightarrow>
        entry_frame (pmem s e i) \<noteq> entry_frame (pmem s e j))"

definition spaces :: "'a mm_scheme \<Rightarrow> 20 word \<Rightarrow> 20 word set \<Rightarrow> bool" where
  "spaces s d D \<longleftrightarrow> kernel_ready s d \<and> d \<in> D \<and>
     (\<forall>e\<in>D. space s e \<and> own_frames s e \<inter> kernel_tables s d = {}) \<and>
     (\<forall>e\<in>D. \<forall>e'\<in>D. e \<noteq> e' \<longrightarrow> own_frames s e \<inter> own_frames s e' = {})"

definition same_views :: "'a mm_scheme \<Rightarrow> 20 word set \<Rightarrow> 'a mm_scheme \<Rightarrow> bool" where
  "same_views s D t \<longleftrightarrow> (\<forall>e\<in>D. \<forall>i j. user_slot i \<longrightarrow> lookup t e i j = lookup s e i j)"

lemma slot_cases: "i = 1023 \<or> kernel_slot i \<or> user_slot i"
  by (auto simp: user_slot_def)

lemma user_slot_not: "user_slot i \<Longrightarrow> \<not> kernel_slot i" "user_slot i \<Longrightarrow> i \<noteq> 1023"
  by (simp_all add: user_slot_def)

lemma space_cong:
  assumes "\<And>i. \<not> kernel_slot i \<Longrightarrow> pmem t e i = pmem s e i" and "\<And>h. frame_used s h \<Longrightarrow> frame_used t h"
  shows "space s e \<Longrightarrow> space t e" "own_frames t e = own_frames s e"
proof -
  have k: "\<not> kernel_slot 1023" using kernel_slot_low by blast
  have p: "pmem t e 1023 = pmem s e 1023" "user_slot i \<Longrightarrow> pmem t e i = pmem s e i" for i
    using assms(1) k user_slot_not by blast+
  show "space s e \<Longrightarrow> space t e" using assms(2) unfolding space_def by (simp add: p)
  show "own_frames t e = own_frames s e" unfolding own_frames_def using p(2) by auto
qed

lemma space_used: "space s e \<Longrightarrow> h \<in> own_frames s e \<Longrightarrow> frame_used s h"
  unfolding space_def own_frames_def by blast

lemma table_of_space: "is_table s d h \<Longrightarrow> h \<in> own_frames s d \<or> h \<in> kernel_tables s d"
  unfolding is_table_def own_frames_def kernel_tables_def using slot_cases by blast

lemma vmm_ok_apart:
  assumes "vmm_ok s d"
  shows "own_frames s d \<inter> kernel_tables s d = {}"
proof -
  have False if h: "h \<in> own_frames s d" "h \<in> kernel_tables s d" for h
  proof -
    obtain i where i: "kernel_slot i" "entry_pr (pmem s d i)" "entry_frame (pmem s d i) = h"
      using h(2) by (auto simp: kernel_tables_def)
    note i' = kernel_slot_low[OF i(1)]
    have "h \<noteq> d" using vmm_okD(4)[OF assms i' i(2)] i(3) by simp
    then obtain j where j: "user_slot j" "entry_pr (pmem s d j)" "entry_frame (pmem s d j) = h"
      using h(1) by (auto simp: own_frames_def)
    have "j = i" using vmm_okD(6)[OF assms user_slot_not(2)[OF j(1)] i' j(2) i(2)] i(3) j(3) by simp
    then show False using user_slot_not(1)[OF j(1)] i(1) by simp
  qed
  then show ?thesis by blast
qed

lemma kernel_ready_cong:
  assumes "kernel_ready s d" "vmm_ok t e" "cr0_pg t" "\<And>i j. kernel_slot i \<Longrightarrow> lookup t e i j = lookup s d i j"
  shows "kernel_ready t e"
  using assms unfolding kernel_ready_def by (metis (no_types, lifting))

lemma visited_space:
  assumes sp: "spaces s d D" and vis: "visited s d f c t" and fu: "frame_used s f"
    and f: "f \<notin> (\<Union>e\<in>D. own_frames s e) \<or> f \<in> D \<and> f \<noteq> d \<and> (\<forall>i. \<not> kernel_slot i \<longrightarrow> c i = pmem s f i)"
    and e: "e \<in> D"
  shows "space t e \<and> own_frames t e = own_frames s e \<and> (\<forall>i j. user_slot i \<longrightarrow> lookup t e i j = lookup s e i j)"
proof -
  note S = sp[unfolded spaces_def] and V = vis[unfolded visited_def]
  have dD: "d \<in> D" using S by blast
  have spe: "space s e" using S e by blast
  have away: "h \<noteq> d \<and> \<not> is_table s d h" if "h \<in> own_frames s e" "e \<noteq> d" for h
  proof -
    have "own_frames s e \<inter> own_frames s d = {}" "own_frames s e \<inter> kernel_tables s d = {}" using S e dD that(2) by blast+
    moreover have "d \<in> own_frames s d" by (simp add: own_frames_def)
    ultimately show ?thesis using that(1) table_of_space[of s d h] by blast
  qed
  have keep: "pmem t h = pmem s h" if h: "h \<in> own_frames s e" "e \<noteq> d" "h \<noteq> f" for h
    using V space_used[OF spe h(1)] away[OF h(1,2)] h(3) by blast
  have ee: "e \<in> own_frames s e" by (simp add: own_frames_def)
  have dir: "pmem t e i = pmem s e i" if "\<not> kernel_slot i" for i
  proof (cases "e = d")
    case True
    then show ?thesis using V that by blast
  next
    case False
    show ?thesis
    proof (cases "e = f")
      case True
      then have "f \<in> D \<and> f \<noteq> d \<and> (\<forall>i. \<not> kernel_slot i \<longrightarrow> c i = pmem s f i)" using f e ee by blast
      then show ?thesis using V that True by simp
    qed (use keep[OF ee False] in simp)
  qed
  have lk: "lookup t e i j = lookup s e i j" if i: "user_slot i" for i j
  proof (cases "e = d")
    case True
    then show ?thesis using V user_slot_not(2)[OF i] by blast
  next
    case False
    have p: "pmem t e i = pmem s e i" using dir user_slot_not(1)[OF i] by blast
    show ?thesis
    proof (cases "entry_pr (pmem s e i)")
      case True
      let ?h = "entry_frame (pmem s e i)"
      have h: "?h \<in> own_frames s e" using True i by (auto simp: own_frames_def)
      have "?h \<noteq> f"
      proof
        assume hf: "?h = f"
        then have "f \<in> D" "f \<noteq> d" using f h e by auto
        moreover have "f \<noteq> e" using spe True i hf unfolding space_def by metis
        ultimately have "own_frames s e \<inter> own_frames s f = {}" using S e by blast
        then show False using h hf by (auto simp: own_frames_def)
      qed
      then show ?thesis using keep[OF h False] p by (simp add: lookup_def Let_def)
    qed (use p in \<open>simp add: lookup_absent\<close>)
  qed
  have used: "frame_used s h \<Longrightarrow> frame_used t h" for h using V by blast
  show ?thesis using space_cong[of t e s, OF dir used] spe lk by blast
qed

lemma visited_spaces:
  assumes sp: "spaces s d D" and vis: "visited s d f c t" and fu: "frame_used s f"
    and f: "f \<notin> (\<Union>e\<in>D. own_frames s e) \<or> f \<in> D \<and> f \<noteq> d \<and> (\<forall>i. \<not> kernel_slot i \<longrightarrow> c i = pmem s f i)"
  shows "spaces t d D" "same_views s D t"
proof -
  note S = sp[unfolded spaces_def] and V = vis[unfolded visited_def]
  note each = visited_space[OF sp vis fu f]
  have ok: "vmm_ok t d" using V by blast
  have pg: "cr0_pg t = cr0_pg s" using V by (simp add: ctrl_def)
  have "kernel_ready t d"
    by (rule kernel_ready_cong[of s d]) (use S V ok pg kernel_slot_low in \<open>auto simp: kernel_ready_def\<close>)
  moreover have "own_frames t e \<inter> kernel_tables t d = {}" if e: "e \<in> D" for e
  proof (cases "e = d")
    case True
    then show ?thesis using vmm_ok_apart[OF ok] by simp
  next
    case False
    have "h \<notin> own_frames s e" if h: "h \<in> kernel_tables t d" for h
    proof
      assume he: "h \<in> own_frames s e"
      have "is_table t d h" using h kernel_slot_low by (auto simp: kernel_tables_def is_table_def)
      then have "is_table s d h" using V space_used[of s e h] he S e by blast
      then show False using table_of_space[of s d h] S e False he by blast
    qed
    then show ?thesis using each[OF e] by blast
  qed
  ultimately show "spaces t d D" unfolding spaces_def using S each by simp
  show "same_views s D t" using each by (simp add: same_views_def)
qed

subsection \<open>Creating a directory\<close>

lemma spaces_pmm_use:
  assumes sp: "spaces s d D" and fl: "flags \<noteq> PMM_UNUSED"
  shows "spaces (pmm_use p len flags s) d D"
proof -
  let ?s1 = "pmm_use p len flags s"
  note S = sp[unfolded spaces_def]
  have pm: "pmem ?s1 = pmem s" by simp
  have used: "frame_used s h \<Longrightarrow> frame_used ?s1 h" for h by (rule frame_used_pmm_use[OF fl])
  have ok: "vmm_ok ?s1 d" by (rule vmm_ok_pmm_use[OF _ fl]) (use S in \<open>simp add: kernel_ready_def\<close>)
  have pg: "cr0_pg ?s1" using S by (simp add: kernel_ready_def)
  have "kernel_ready ?s1 d"
    by (rule kernel_ready_cong[of s d]) (use S ok pg lookup_cong[OF pm] in auto)
  moreover have "space ?s1 e \<and> own_frames ?s1 e = own_frames s e" if "e \<in> D" for e
    using space_cong[of ?s1 e s] pm used S that by simp
  moreover have "kernel_tables ?s1 d = kernel_tables s d" by (simp add: kernel_tables_def)
  ultimately show "spaces ?s1 d D" using S unfolding spaces_def by simp
qed

lemma spaces_alloc:
  assumes sp: "spaces s d D" and al: "pmm_alloc len flags s = (p, s1)" and fl: "flags \<noteq> PMM_UNUSED"
  shows "spaces s1 d D" "pmem s1 = pmem s" "ctrl s1 = ctrl s"
proof -
  have s1: "s1 = s \<or> s1 = pmm_use p len flags s" using al by (auto simp: pmm_alloc_def Let_def split: if_splits)
  then show "pmem s1 = pmem s" "ctrl s1 = ctrl s" by (auto simp: ctrl_def)
  show "spaces s1 d D" using s1 sp spaces_pmm_use[OF sp fl] by auto
qed

definition fresh_directory :: "20 word \<Rightarrow> 10 word \<Rightarrow> u32" where
  "fresh_directory f = (\<lambda>_. 0)(1023 := set_flag 0 True (set_page (ucast f) 0))"

lemma fresh_directory_entries:
  "i \<noteq> 1023 \<Longrightarrow> fresh_directory f i = 0" "entry_pr (fresh_directory f 1023)" "entry_frame (fresh_directory f 1023) = f"
proof -
  have "entry_frame (set_page (ucast f) 0) = f"
    unfolding entry_frame_def set_page_def and_mask_12 by (auto intro!: bit_word_eqI simp: bit_simps)
  then show "i \<noteq> 1023 \<Longrightarrow> fresh_directory f i = 0" "entry_pr (fresh_directory f 1023)" "entry_frame (fresh_directory f 1023) = f"
    by (simp_all add: fresh_directory_def entry_frame_set_flag)
qed

lemma create_directory_run:
  assumes ready: "kernel_ready s1 d" and al: "pmm_alloc PAGE_SIZE PMM_KERNEL s = (p, s1)" and room: "free_frames s1 \<noteq> {}"
    and p: "unat p mod 4096 = 0"
    and f: "frame_used s1 (phys_frame p)" "phys_frame p \<noteq> d" "\<not> is_table s1 d (phys_frame p)"
  shows "\<exists>t. vmm_create_page_directory s = Some (p, t) \<and> visited s1 d (phys_frame p) (fresh_directory (phys_frame p)) t"
proof -
  let ?f = "phys_frame p"
  obtain q u where u: "vmm_map_physical_memory p PAGE_SIZE VMM_KERNEL s1 = Some (page_addr q, u)" "opened s1 d q p u"
    by (rule open_window[OF ready room p f])
  have w: "window u d (page_addr q) ?f" using u(2) by (simp add: opened_def)
  let ?v = "u\<lparr>pmem := (pmem u)(?f := \<lambda>_. 0)\<rparr>"
  have st: "store (page_addr q + 4 * of_nat (ENTRIES - 1)) e ?v = Some (poke ?f 1023 e ?v)" for e
    using window_access(2)[OF window_content[OF w], of 1023] slot_of_nat[of 1023] by (simp add: ENTRIES_def)
  have c: "poke ?f 1023 (set_flag 0 True (set_page (pmm_get_page p 0) 0)) ?v = u\<lparr>pmem := (pmem u)(?f := fresh_directory ?f)\<rparr>"
    by (simp add: poke_def fresh_directory_def ucast_phys_frame[symmetric])
  obtain t where t: "vmm_unmap_physical_memory (page_addr q) PAGE_SIZE (u\<lparr>pmem := (pmem u)(?f := fresh_directory ?f)\<rparr>) = Some t"
    "visited s1 d ?f (fresh_directory ?f) t"
    using close_window[OF ready u(2) f] by blast
  have "vmm_create_page_directory s = Some (p, t)"
    unfolding vmm_create_page_directory_def
    by (simp only: al u(1) window_memset[OF w] st c t(1) Let_def prod.case Option.bind.simps)
  then show ?thesis using t(2) by blast
qed

lemma create_directory_spec:
  assumes sp: "spaces s d D" and room: "2 \<le> card (free_frames s)"
  obtains p t where "vmm_create_page_directory s = Some (p, t)" "p \<noteq> 0" "unat p mod 4096 = 0" "\<not> frame_used s (phys_frame p)"
    "spaces t d (insert (phys_frame p) D)" "same_views s D t" "pmem t (phys_frame p) = fresh_directory (phys_frame p)"
    "ctrl t = ctrl s" "card (free_frames s) \<le> 2 + card (free_frames t)"
    "\<And>h. frame_used s h \<Longrightarrow> frame_used t h"
    "\<And>i j. kernel_slot i \<Longrightarrow> lookup t d i j = lookup s d i j"
proof -
  note S = sp[unfolded spaces_def]
  have ok: "vmm_ok s d" using S by (simp add: kernel_ready_def)
  obtain p s1 where al: "pmm_alloc PAGE_SIZE PMM_KERNEL s = (p, s1)" by force
  have ne: "free_frames s \<noteq> {}" using room by auto
  have p0: "p \<noteq> 0" by (rule alloc_page_works(1)[OF vmm_okD(3)[OF ok] ne al])
  let ?f = "phys_frame p"
  note a = pmm_alloc_page[OF al p0]
  have fresh: "\<not> frame_used s ?f" and al4: "unat p mod 4096 = 0" using a(1,3) by simp_all
  have used: "frame_used s1 h \<longleftrightarrow> frame_used s h \<or> h = ?f" for h using a(2) by simp
  note sp1 = spaces_alloc[OF sp al pmm_flags.distinct(4)]
  note S1 = sp1(1)[unfolded spaces_def]
  have own: "?f \<notin> own_frames s1 e" if "e \<in> D" for e
  proof -
    have "own_frames s1 e = own_frames s e" by (rule space_cong(2)[of s1 e s]) (use sp1(2) used in simp_all)
    then show ?thesis using fresh space_used[of s e] S that by blast
  qed
  have fd: "?f \<noteq> d" using fresh vmm_okD(2)[OF ok] by metis
  have ft: "\<not> is_table s1 d ?f"
    using fresh vmm_okD(5)[OF ok] unfolding is_table_def sp1(2) by metis
  have fr1: "free_frames s1 = free_frames s - {?f}" using used by (auto simp: free_frames_def)
  have card1: "card (free_frames s) \<le> Suc (card (free_frames s1))"
    using diff_card_le_card_Diff[of "{?f}" "free_frames s"] unfolding fr1 by simp
  then have ne1: "free_frames s1 \<noteq> {}" using room by auto
  have fu1: "frame_used s1 ?f" using used by simp
  obtain t where t: "vmm_create_page_directory s = Some (p, t)" and vis: "visited s1 d ?f (fresh_directory ?f) t"
    using create_directory_run[OF _ al ne1 al4 fu1 fd ft] S1 by blast
  have out: "?f \<notin> (\<Union>e\<in>D. own_frames s1 e)" using own by blast
  note sp2 = visited_spaces[OF sp1(1) vis fu1 disjI1[OF out]]
  note each = visited_space[OF sp1(1) vis fu1 disjI1[OF out]]
  note V = vis[unfolded visited_def]
  have pf: "pmem t ?f = fresh_directory ?f" using V by blast
  have "space t ?f"
    unfolding space_def pf using V fu1 fresh_directory_entries user_slot_not(2) by (metis not_entry_pr_0)
  moreover have of: "own_frames t ?f = {?f}"
    unfolding own_frames_def pf using fresh_directory_entries(1) user_slot_not(2) by (auto simp: not_entry_pr_0)
  moreover have "?f \<notin> kernel_tables t d"
  proof
    assume "?f \<in> kernel_tables t d"
    then have "is_table t d ?f" using kernel_slot_low by (auto simp: kernel_tables_def is_table_def)
    then show False using V ft fu1 by blast
  qed
  moreover have "?f \<notin> own_frames t e" if "e \<in> D" for e using each[OF that] own[OF that] by simp
  ultimately have spt: "spaces t d (insert ?f D)" using sp2(1) unfolding spaces_def by auto
  have views: "same_views s D t" using sp2(2) by (simp add: same_views_def lookup_cong[OF sp1(2)])
  have ctl: "ctrl t = ctrl s" using V sp1(3) by simp
  have cost: "card (free_frames s) \<le> 2 + card (free_frames t)" using V card1 by linarith
  have grow: "frame_used s h \<Longrightarrow> frame_used t h" for h using V used by blast
  have ker: "lookup t d i j = lookup s d i j" if "kernel_slot i" for i j
    using V kernel_slot_low[OF that] by (simp add: lookup_cong[OF sp1(2)])
  show ?thesis by (rule that[OF t p0 al4 fresh spt views pf ctl cost grow ker])
qed

subsection \<open>Loading a directory\<close>

lemma current_directory_address:
  assumes "vmm_ok s d" "cr0_pg s"
  shows "vmm_get_physical_address s (page_directory s) = Some (push_bit 12 (ucast d))"
proof -
  have dv: "page_directory s = VMM_PAGEDIR" "entry_pr (pmem s d 1023)" "entry_frame (pmem s d 1023) = d"
    using vmm_okD(1)[OF assms(1)] assms(2) by (simp_all add: dir_view_def)
  have lk: "lookup s d 1023 1023 = Some (pmem s d 1023)" using dv(2,3) by (simp add: lookup_def)
  show ?thesis
    using get_physical_address_lookup[OF assms, of VMM_PAGEDIR] lk dv PAGEDIR_index(2,3)
      address_join[of "pmem s d 1023" VMM_PAGEDIR]
    by (simp add: va_page_offset_def VMM_PAGEDIR_def)
qed

text \<open>What \<open>vmm_refresh_page_directory\<close> writes: the kernel's entries of \<open>cur\<close>, the other entries of \<open>old\<close>.\<close>

definition refreshed :: "(10 word \<Rightarrow> u32) \<Rightarrow> (10 word \<Rightarrow> u32) \<Rightarrow> 10 word \<Rightarrow> u32" where
  "refreshed cur old i = (if kernel_slot i then cur i else old i)"

lemma refresh_directory_run:
  assumes ready: "kernel_ready s d" and room: "free_frames s \<noteq> {}" and n: "unat n mod 4096 = 0"
    and f: "frame_used s (phys_frame n)" "phys_frame n \<noteq> d" "\<not> is_table s d (phys_frame n)"
  shows "\<exists>t. vmm_refresh_page_directory n s = Some t \<and>
    visited s d (phys_frame n) (refreshed (pmem t d) (pmem s (phys_frame n))) t"
proof -
  let ?f = "phys_frame n"
  obtain q u where u: "vmm_map_physical_memory n PAGE_SIZE VMM_KERNEL s = Some (page_addr q, u)" "opened s d q n u"
    by (rule open_window[OF ready room n f])
  have w: "window u d (page_addr q) ?f" and ext: "extends s d u" using u(2) by (simp_all add: opened_def)
  have uf: "pmem u ?f = pmem s ?f" using extendsD(11)[OF ext f] .
  let ?c = "refreshed (pmem u d) (pmem s ?f)"
  have pd: "page_directory u = VMM_PAGEDIR" using w by (auto simp: window_def dir_view_def)
  have first: "va_page_table (domain_start kernel_domain) = 1" "va_page_table (domain_end kernel_domain) = 255"
    by (simp_all add: va_page_table_def)
  have c: "(\<lambda>j. if 1 \<le> unat j \<and> unat j < 1 + 255 then pmem u d j else pmem u ?f j) = ?c"
    by (auto simp: refreshed_def kernel_slot_def uf fun_eq_iff)
  have cp: "memcpy_dwords (unat (255 - 1 + 1 :: u32)) (page_addr q + 1 * 4) (page_directory u + 1 * 4) u =
      Some (u\<lparr>pmem := (pmem u)(?f := ?c)\<rparr>)"
    using window_memcpy[OF w, of 1 255] unfolding pd c[symmetric] by simp
  obtain t where t: "vmm_unmap_physical_memory (page_addr q) PAGE_SIZE (u\<lparr>pmem := (pmem u)(?f := ?c)\<rparr>) = Some t"
    "visited s d ?f ?c t" "pmem t d = pmem u d"
    using close_window[OF ready u(2) f] by blast
  have "vmm_refresh_page_directory n s = Some t"
    unfolding vmm_refresh_page_directory_def first Let_def
    by (simp only: u(1) prod.case Option.bind.simps cp t(1))
  then show ?thesis using t(2,3) by auto
qed

lemma load_spaces:
  assumes sp: "spaces s d D" and f: "f \<in> D" "f \<noteq> d" and k: "\<And>i. kernel_slot i \<Longrightarrow> pmem s f i = pmem s d i"
    and t: "pmem t = pmem s" "bitmap t = bitmap s" "cr0_pg t" "phys_frame (cr3 t) = f" "page_directory t = VMM_PAGEDIR"
  shows "spaces t f D"
proof -
  note S = sp[unfolded spaces_def]
  have ok: "vmm_ok s d" using S by (simp add: kernel_ready_def)
  have fu: "frame_used t = frame_used s" using frame_state_bitmap[OF t(2)] by (simp add: frame_used_def fun_eq_iff)
  have spf: "space s f" and dis: "own_frames s f \<inter> kernel_tables s d = {}" using S f by blast+
  have kt: "kernel_tables t f = kernel_tables s d" using k unfolding kernel_tables_def t(1) by auto
  have own: "h \<in> own_frames s f \<Longrightarrow> h \<notin> kernel_tables s d" for h using dis by blast
  have kin: "kernel_slot i \<Longrightarrow> entry_pr (pmem s d i) \<Longrightarrow> entry_frame (pmem s d i) \<in> kernel_tables s d" for i
    by (auto simp: kernel_tables_def)
  have uin: "user_slot i \<Longrightarrow> entry_pr (pmem s f i) \<Longrightarrow> entry_frame (pmem s f i) \<in> own_frames s f" for i
    by (auto simp: own_frames_def)
  have fin: "f \<in> own_frames s f" by (simp add: own_frames_def)
  have "dir_view t f" using t spf by (simp add: dir_view_def space_def)
  moreover have "entry_frame (pmem s f i) \<noteq> f \<and> entry_frame (pmem s f i) \<noteq> 0 \<and> frame_used s (entry_frame (pmem s f i))"
    if i: "i \<noteq> 1023" "entry_pr (pmem s f i)" for i
  proof (cases "kernel_slot i")
    case True
    then show ?thesis using k[OF True] i vmm_okD(5,7)[OF ok i(1)] kin[OF True] own[OF fin] by auto
  next
    case False
    then show ?thesis using i spf by (simp add: space_def user_slot_def)
  qed
  moreover have "entry_frame (pmem s f i) \<noteq> entry_frame (pmem s f j)"
    if ij: "i \<noteq> 1023" "j \<noteq> 1023" "i \<noteq> j" "entry_pr (pmem s f i)" "entry_pr (pmem s f j)" for i j
  proof -
    consider "kernel_slot i" "kernel_slot j" | "kernel_slot i" "user_slot j" | "user_slot i" "kernel_slot j"
      | "user_slot i" "user_slot j" using slot_cases ij(1,2) by blast
    then show ?thesis
    proof cases
      case 1
      then show ?thesis using k ij vmm_okD(6)[OF ok ij(1,2)] by simp
    next
      case 2
      then show ?thesis using k kin[OF 2(1)] uin[OF 2(2)] own ij by fastforce
    next
      case 3
      then show ?thesis using k kin[OF 3(2)] uin[OF 3(1)] own ij by fastforce
    next
      case 4
      then show ?thesis using spf ij unfolding space_def by blast
    qed
  qed
  moreover have "frame_used s f" "frame_used s 0" using spf vmm_okD(3)[OF ok] by (simp_all add: space_def)
  ultimately have okt: "vmm_ok t f" unfolding vmm_ok_def fu t(1) by blast
  have "lookup t f i j = lookup s d i j" if "kernel_slot i" for i j
    using k[OF that] by (simp add: lookup_def Let_def t(1))
  then have "kernel_ready t f" using kernel_ready_cong[OF _ okt t(3)] S by blast
  moreover have "space t e \<and> own_frames t e = own_frames s e" if "e \<in> D" for e
    using space_cong[of t e s] t(1) fu S that by simp
  ultimately show ?thesis using S f(1) kt unfolding spaces_def by simp
qed

lemma load_directory_spec:
  assumes sp: "spaces s d D" and room: "free_frames s \<noteq> {}" and n: "unat n mod 4096 = 0" "n \<noteq> VMM_PAGEDIR"
    and f: "phys_frame n \<in> D" "phys_frame n \<noteq> d"
  obtains t where "vmm_load_page_directory n s = Some (push_bit 12 (ucast d), t)"
    "spaces t (phys_frame n) D" "same_views s D t"
    "\<And>i j. kernel_slot i \<Longrightarrow> lookup t (phys_frame n) i j = lookup s d i j"
    "cr3 t = n" "eflags_if t = eflags_if s" "old_directory t = old_directory s" "old_interrupts t = old_interrupts s"
    "domain_check_enabled t = domain_check_enabled s" "card (free_frames s) \<le> Suc (card (free_frames t))"
    "\<And>h. frame_used s h \<Longrightarrow> frame_used t h"
proof -
  let ?f = "phys_frame n"
  note S = sp[unfolded spaces_def]
  have ready: "kernel_ready s d" and ok: "vmm_ok s d" and pg: "cr0_pg s" using S by (simp_all add: kernel_ready_def)
  have spf: "space s ?f" using S f(1) by blast
  have fu: "frame_used s ?f" using spf by (simp add: space_def)
  have ft: "\<not> is_table s d ?f"
  proof
    assume "is_table s d ?f"
    then have "?f \<in> own_frames s d \<or> ?f \<in> kernel_tables s d" by (rule table_of_space)
    moreover have "?f \<in> own_frames s ?f" by (simp add: own_frames_def)
    ultimately show False using S f by blast
  qed
  obtain v where v: "vmm_refresh_page_directory n s = Some v" "visited s d ?f (refreshed (pmem v d) (pmem s ?f)) v"
    using refresh_directory_run[OF ready room n(1) fu f(2) ft] by blast
  note V = v(2)[unfolded visited_def]
  have c: "?f \<in> D \<and> ?f \<noteq> d \<and> (\<forall>i. \<not> kernel_slot i \<longrightarrow> refreshed (pmem v d) (pmem s ?f) i = pmem s ?f i)"
    using f by (simp add: refreshed_def)
  note sv = visited_spaces[OF sp v(2) fu disjI2[OF c]]
  let ?t = "(mmu_load_page_directory n v)\<lparr>page_directory := VMM_PAGEDIR\<rparr>"
  have pf: "pmem v ?f i = pmem v d i" if "kernel_slot i" for i using V that by (simp add: refreshed_def)
  have pt: "pmem ?t = pmem v" by (simp add: mmu_load_page_directory_def)
  have ctl: "ctrl v = ctrl s" using V by blast
  have spt: "spaces ?t ?f D"
    by (rule load_spaces[OF sv(1) f pf]) (use ctl pg in \<open>simp_all add: mmu_load_page_directory_def ctrl_def\<close>)
  have run: "vmm_load_page_directory n s = Some (push_bit 12 (ucast d), ?t)"
    using n(2) current_directory_address[OF ok pg] v(1) pg by (simp add: vmm_load_page_directory_def mmu_get_paging_def)
  have views: "same_views s D ?t" using sv(2) by (simp add: same_views_def lookup_cong[OF pt])
  have ker: "lookup ?t ?f i j = lookup s d i j" if i: "kernel_slot i" for i j
  proof -
    have "lookup ?t ?f i j = lookup v d i j" using pf[OF i] by (simp add: lookup_def Let_def pt)
    then show ?thesis using V kernel_slot_low[OF i] by simp
  qed
  have fr: "free_frames ?t = free_frames v"
    using frame_state_bitmap[of ?t v] by (simp add: free_frames_def frame_used_def mmu_load_page_directory_def)
  have cost: "card (free_frames s) \<le> Suc (card (free_frames ?t))" using V fr by simp
  have "frame_used ?t = frame_used v"
    using frame_state_bitmap[of ?t v] by (simp add: frame_used_def mmu_load_page_directory_def fun_eq_iff)
  then have grow: "frame_used s h \<Longrightarrow> frame_used ?t h" for h using V by simp
  show ?thesis
    by (rule that[OF run spt views ker _ _ _ _ _ cost grow])
       (use ctl in \<open>simp_all add: mmu_load_page_directory_def ctrl_def\<close>)
qed

subsection \<open>Creating and switching address spaces\<close>

lemma vmm_ok_space:
  assumes "vmm_ok s d" "cr0_pg s"
  shows "space s d"
  using vmm_okD(1,2,4,5,6,7)[OF assms(1)] assms(2) user_slot_not(2)
  unfolding space_def dir_view_def by (metis (no_types, lifting))

lemma spaces_single: "kernel_ready s d \<Longrightarrow> spaces s d {d}"
  using vmm_ok_space[of s d] vmm_ok_apart[of s d] by (simp add: spaces_def kernel_ready_def)

lemma translate_lookup:
  assumes "dir_view s d" "cr0_pg s"
  shows "mmu_translate s va = map_option (\<lambda>e. push_bit 12 (ucast (entry_frame e)) OR (va AND 0xFFF))
    (lookup s d (dir_index va) (tab_index va))"
  using assms by (simp add: mmu_translate_def lookup_def Let_def dir_view_def)

lemma spaces_view: "spaces s d D \<Longrightarrow> dir_view s d \<and> cr0_pg s"
  by (simp add: spaces_def kernel_ready_def vmm_ok_def)


text \<open>
  C3: Switching the address space, with paging on. Loading another directory returns the address of the
  current one and makes the new one current. Every address of the kernel domain translates as before, although the new
  directory may never have seen the kernel's later mappings; every directory keeps its mappings
  outside the kernel domain, and the directories stay apart, so that the next switch can follow.
\<close>

theorem vmm_load_page_directory_switches:
  assumes "spaces s d D" "free_frames s \<noteq> {}" "unat n mod 4096 = 0" "n \<noteq> VMM_PAGEDIR"
    and "phys_frame n \<in> D" "phys_frame n \<noteq> d"
  shows "\<exists>t. vmm_load_page_directory n s = Some (push_bit 12 (ucast d), t) \<and> cr3 t = n \<and>
    spaces t (phys_frame n) D \<and> same_views s D t \<and>
    (\<forall>va. kernel_slot (dir_index va) \<longrightarrow> mmu_translate t va = mmu_translate s va)"
proof -
  obtain t where t: "vmm_load_page_directory n s = Some (push_bit 12 (ucast d), t)"
    "spaces t (phys_frame n) D" "same_views s D t"
    "\<And>i j. kernel_slot i \<Longrightarrow> lookup t (phys_frame n) i j = lookup s d i j" "cr3 t = n"
    by (rule load_directory_spec[OF assms]) blast
  have "mmu_translate t va = mmu_translate s va" if "kernel_slot (dir_index va)" for va
    using spaces_view[OF t(2)] spaces_view[OF assms(1)] t(4)[OF that]
      translate_lookup[of t "phys_frame n" va] translate_lookup[of s d va] by simp
  then show ?thesis using t(1-3,5) by blast
qed

lemma example_mm_kernel_ready: "kernel_ready example_mm 1"
proof -
  have "lookup example_mm 1 i j = (if i = 1 \<and> (j = 5 \<or> j = 1023) then Some 0x700003 else None)"
    if "kernel_slot i" for i j
  proof -
    have "(ucast i + 2 :: 20 word) = 3 \<longleftrightarrow> i = 1" using ucast_10_20_inject[of i 1] by simp
    then show ?thesis
      using example_table_entry[of i] example_frame_bounds(1)[of i] kernel_slot_low[OF that]
      by (auto simp: lookup_def Let_def example_mm_def entry_pr_def)
  qed
  moreover have "entry_frame 0x700003 \<noteq> 0" by (simp add: entry_frame_def)
  moreover have "kernel_slot 1" "kernel_slot 2" by (simp_all add: kernel_slot_def)
  moreover have "cr0_pg example_mm" by (simp add: example_mm_def)
  moreover have "\<exists>j :: 10 word. j \<noteq> 1023 \<and> (j = 5 \<or> j = 1023)" by (intro exI[of _ 5]) simp
  ultimately show ?thesis
    unfolding kernel_ready_def using example_mm_ok by (auto split: if_splits)
qed

lemma frame_used_bits:
  "frame_used s g \<longleftrightarrow> bitmap_bit (bitmap s) (ucast g * 2) \<or> bitmap_bit (bitmap s) (ucast g * 2 + 1)"
proof -
  have "pmm_bitmap_get s (ucast g) = 0 \<longleftrightarrow> (\<forall>n. \<not> bit (pmm_bitmap_get s (ucast g)) n)"
    by (auto intro: bit_word_eqI)
  also have "\<dots> \<longleftrightarrow> \<not> bitmap_bit (bitmap s) (ucast g * 2) \<and> \<not> bitmap_bit (bitmap s) (ucast g * 2 + 1)"
  proof -
    have "(\<forall>n<2. P n) \<longleftrightarrow> P 0 \<and> P 1" for P :: "nat \<Rightarrow> bool" by (auto simp: less_2_cases_iff)
    from this[of "\<lambda>n. \<not> bitmap_bit (bitmap s) (ucast g * 2 + of_nat n)"] show ?thesis
      unfolding pmm_bitmap_get_bit[OF ucast_page_less] by auto
  qed
  finally show ?thesis by (simp add: frame_used_def pmm_bitmap_get_0_iff)
qed

lemma example_mm_free: "frame_used example_mm g \<longleftrightarrow> \<not> (1600 \<le> unat g \<and> unat g < 1616)"
proof -
  have u: "unat (ucast g * 2 :: u32) = unat g * 2" "unat (ucast g * 2 + 1 :: u32) = unat g * 2 + 1"
    using unat_bound[of g] by (simp_all add: unat_mult_small unat_add_small unat_ucast_frame)
  have "(ucast g * 2 div 32 :: u32) = 100 \<longleftrightarrow> unat g * 2 div 32 = 100"
    "((ucast g * 2 + 1) div 32 :: u32) = 100 \<longleftrightarrow> (unat g * 2 + 1) div 32 = 100"
    unfolding word_unat_eq_iff by (simp_all add: unat_div u)
  moreover have "unat g * 2 div 32 = 100 \<longleftrightarrow> 1600 \<le> unat g \<and> unat g < 1616"
    "(unat g * 2 + 1) div 32 = 100 \<longleftrightarrow> 1600 \<le> unat g \<and> unat g < 1616" by linarith+
  ultimately have d: "(ucast g * 2 div 32 :: u32) = 100 \<longleftrightarrow> 1600 \<le> unat g \<and> unat g < 1616"
    "((ucast g * 2 + 1) div 32 :: u32) = 100 \<longleftrightarrow> 1600 \<le> unat g \<and> unat g < 1616" by blast+
  show ?thesis
    unfolding frame_used_bits bitmap_bit_def
    using d mod32_less[of "ucast g * 2"] mod32_less[of "ucast g * 2 + 1"] by (simp add: example_mm_def)
qed

lemma example_mm_room: "16 \<le> card (free_frames example_mm)"
proof -
  have "(\<lambda>n. of_nat n :: 20 word) ` {1600..<1616} \<subseteq> free_frames example_mm"
    by (auto simp: free_frames_def example_mm_free unat_of_nat_small)
  then have "card ((\<lambda>n. of_nat n :: 20 word) ` {1600..<1616}) \<le> card (free_frames example_mm)"
    by (rule card_mono[OF finite_free_frames])
  moreover have "card ((\<lambda>n. of_nat n :: 20 word) ` {1600..<1616}) = 16"
    by (subst card_image) (auto intro!: inj_on_inverseI[where g = unat] simp: unat_of_nat_small)
  ultimately show ?thesis by simp
qed


theorem vmm_load_page_directory_switches_witness:
  "\<exists>p s t. vmm_create_page_directory example_mm = Some (p, s) \<and>
     vmm_load_page_directory p s = Some (0x1000, t) \<and> mmu_translate t 0x405123 = mmu_translate s 0x405123"
proof -
  have room: "2 \<le> card (free_frames example_mm)" using example_mm_room by linarith
  obtain p s where s: "vmm_create_page_directory example_mm = Some (p, s)" "p \<noteq> 0" "unat p mod 4096 = 0"
      "\<not> frame_used example_mm (phys_frame p)" "spaces s 1 {phys_frame p, 1}"
      "card (free_frames example_mm) \<le> 2 + card (free_frames s)"
    by (rule create_directory_spec[OF spaces_single[OF example_mm_kernel_ready] room])
  have f: "1600 \<le> unat (phys_frame p)" "unat (phys_frame p) < 1616" using s(4) by (simp_all add: example_mm_free)
  have "p \<noteq> VMM_PAGEDIR" using f(2) unat_phys_frame[of p] by (auto simp: VMM_PAGEDIR_def)
  moreover have "free_frames s \<noteq> {}" using s(6) example_mm_room by auto
  moreover have "phys_frame p \<noteq> 1" using f(1) by auto
  moreover have "kernel_slot (dir_index 0x405123)" by (simp add: kernel_slot_def dir_index_def)
  moreover have "(push_bit 12 (ucast (1 :: 20 word)) :: ptr) = 0x1000" by simp
  ultimately show ?thesis using vmm_load_page_directory_switches[OF s(5) _ s(3)] s(1) by (metis insertI1)
qed

end
