(* ===== verification/VMM_Space.thy ===== *)
theory VMM_Space
  imports VMM_Dir
begin

unbundle bit_operations_syntax

text \<open>
  Allocating in one address space among others: \<open>vmm_find_free\<close> returns the first run that fits, and
  \<open>vmm_alloc\<close> creates the page tables it needs and leaves the other address spaces alone.
\<close>

subsection \<open>vmm_find_free is first fit\<close>

lemma find_loop_first_run:
  assumes phys: "\<And>i. lo \<le> i \<Longrightarrow> i \<le> e \<Longrightarrow> vmm_get_physical_address s (page_addr i) = Some (g i)"
    and n: "unat pages = n" "0 < n" "n \<le> 1048576" and e: "e < 1048576"
    and run: "lo \<le> q" "q + n \<le> Suc e" "\<And>k. k < n \<Longrightarrow> g (q + k) = 0"
    and least: "\<And>p. lo \<le> p \<Longrightarrow> p < q \<Longrightarrow> \<exists>k<n. g (p + k) \<noteq> 0"
    and f: "unat f < n" "lo + unat f \<le> i" "i < q + n" "i - unat f \<le> q" "\<And>k. i - unat f \<le> k \<Longrightarrow> k < i \<Longrightarrow> g k = 0"
  shows "vmm_find_loop s pages e i f = Some (page_addr q)"
  using f
proof (induction "q + n - i" arbitrary: i f)
  case 0
  then show ?case by simp
next
  case (Suc m)
  have i: "i \<le> e" "lo \<le> i" using Suc.prems(2,3) run(2) by linarith+
  let ?f' = "if g i = 0 then f + 1 else 0"
  have f1: "unat (f + 1) = Suc (unat f)" using Suc.prems(1) n(3) by (simp add: unat_add_small)
  note unfold = vmm_find_loop.simps[of s pages e i f]
  show ?case
  proof (cases "pages \<le> ?f'")
    case True
    have g0: "g i = 0" using True n(1,2) by (auto simp: word_le_nat_alt split: if_splits)
    have nf: "n = Suc (unat f)" using True g0 f1 n(1) Suc.prems(1) by (simp add: word_le_nat_alt)
    have "g (i - unat f + k) = 0" if "k < n" for k
      using Suc.prems(5)[of "i - unat f + k"] g0 that nf Suc.prems(2) by (cases "k = unat f") auto
    then have "\<not> i - unat f < q" using least[of "i - unat f"] Suc.prems(2) by fastforce
    then have q: "q = i - unat f" using Suc.prems(4) by simp
    have "of_nat i - (f + 1) + 1 = (of_nat q :: u32)"
      using word_run_start[of "f + 1" i] f1 Suc.prems(2) q by simp
    then show ?thesis using i phys[OF i(2,1)] True g0 by (simp add: unfold)
  next
    case False
    have st: "vmm_find_loop s pages e i f = vmm_find_loop s pages e (Suc i) ?f'"
      using i phys[OF i(2,1)] False by (simp add: unfold)
    have ne: "Suc i < q + n"
    proof (rule ccontr)
      assume "\<not> Suc i < q + n"
      then have eq: "Suc i = q + n" using Suc.prems(3) by simp
      then have "g i = 0" using run(3)[of "n - 1"] n(2) by (metis Suc_diff_1 add_Suc_right lessI nat.inject)
      moreover have "n \<le> Suc (unat f)" using eq Suc.prems(2,4) by linarith
      ultimately show False using False f1 n(1) by (simp add: word_le_nat_alt)
    qed
    show ?thesis
      unfolding st
    proof (rule Suc.hyps(1))
      show "m = q + n - Suc i" using Suc.hyps(2) by simp
      show "unat ?f' < n" using False n f1 by (auto simp: word_le_nat_alt)
      show "lo + unat ?f' \<le> Suc i" using Suc.prems(2) f1 i by simp
      show "Suc i < q + n" by (rule ne)
      show "Suc i - unat ?f' \<le> q"
      proof (cases "g i = 0")
        case True
        then show ?thesis using Suc.prems(4) f1 by simp
      next
        case False
        have "i < q"
        proof (rule ccontr)
          assume "\<not> i < q"
          then have "i - q < n" "q + (i - q) = i" using Suc.prems(3) by linarith+
          then show False using run(3)[of "i - q"] False by simp
        qed
        then show ?thesis using False by simp
      qed
      show "g k = 0" if "Suc i - unat ?f' \<le> k" "k < Suc i" for k
        using that Suc.prems(5)[of k] f1 by (cases "k = i") (auto split: if_splits)
    qed
  qed
qed

text \<open>A run of free pages, and what the search returns.\<close>

definition page_run :: "'a mm_scheme \<Rightarrow> 20 word \<Rightarrow> vmm_domain \<Rightarrow> nat \<Rightarrow> nat \<Rightarrow> bool" where
  "page_run s d dm n q \<longleftrightarrow> domain_low dm \<le> q \<and> q + n \<le> domain_high dm \<and> (\<forall>k<n. page_free s d (q + k))"

lemma vmm_find_free_first:
  assumes ok: "vmm_ok s d" "cr0_pg s" and len: "len \<noteq> 0"
  defines "n \<equiv> unat (pmm_pages len)"
  obtains "vmm_find_free s len dm = Some 0"
  | q where "vmm_find_free s len dm = Some (page_addr q)" "page_addr q \<noteq> 0" "page_run s d dm n q"
    "\<And>p. p < q \<Longrightarrow> \<not> page_run s d dm n p"
proof (cases "\<exists>q. page_run s d dm n q")
  case True
  define q where "q = (LEAST q. page_run s d dm n q)"
  have run: "page_run s d dm n q" unfolding q_def using True by (rule LeastI_ex)
  have least: "\<not> page_run s d dm n p" if "p < q" for p using that unfolding q_def by (rule not_less_Least)
  let ?e = "unat (pmm_get_page (domain_end dm) 0)"
  let ?g = "\<lambda>i. case page_map s d i of None \<Rightarrow> 0 | Some e \<Rightarrow> pmm_get_address (entry_page e) 0"
  have e: "Suc ?e = domain_high dm" "?e < 1048576" using domain_pages[of dm] by linarith+
  have g: "?g i = 0 \<longleftrightarrow> page_free s d i" for i
    by (simp add: page_free_def entry_address_eq_0 split: option.splits)
  have R: "domain_low dm \<le> q" "q + n \<le> domain_high dm" "\<And>k. k < n \<Longrightarrow> page_free s d (q + k)"
    using run by (auto simp: page_run_def)
  have "vmm_find_loop s (pmm_pages len) ?e (domain_low dm) 0 = Some (page_addr q)"
  proof (rule find_loop_first_run[where lo = "domain_low dm" and g = ?g and n = n])
    show "vmm_get_physical_address s (page_addr i) = Some (?g i)" if "i \<le> ?e" for i
      using get_physical_address_page[OF ok, of i] that e(2) by simp
    show "unat (pmm_pages len) = n" "0 < n" "n \<le> 1048576" using pmm_pages_bounds[OF len] by (simp_all add: n_def)
    show "\<exists>k<n. ?g (p + k) \<noteq> 0" if "domain_low dm \<le> p" "p < q" for p
      using least[OF that(2)] that R(2) unfolding g page_run_def by auto
    show "unat (0 :: u32) < n" using pmm_pages_bounds(1)[OF len] by (simp add: n_def)
    show "domain_low dm < q + n" using R(1) pmm_pages_bounds(1)[OF len] by (simp add: n_def)
  qed (use R g e in simp_all)
  then have "vmm_find_free s len dm = Some (page_addr q)"
    using len by (simp add: vmm_find_free_def domain_pages(1))
  moreover have "page_addr q \<noteq> 0"
  proof -
    have "0 < q" "q < 1048576" using R(1,2) domain_pages(3,4)[of dm] pmm_pages_bounds(1)[OF len] unfolding n_def by linarith+
    then show ?thesis using unat_page_addr[of q] by auto
  qed
  ultimately show ?thesis using that(2) run least by blast
next
  case False
  obtain v where v: "vmm_find_free s len dm = Some v"
    "v \<noteq> 0 \<Longrightarrow> \<exists>q. v = page_addr q \<and> domain_low dm \<le> q \<and> q + n \<le> domain_high dm \<and> (\<forall>k<n. page_free s d (q + k))"
    using vmm_find_free_run[OF ok len, of dm] unfolding n_def by blast
  have "v = 0" using v(2) False unfolding page_run_def by blast
  then show ?thesis using that(1) v(1) by blast
qed

subsection \<open>Mapping a range and creating its tables\<close>

lemma map_loop_grow:
  assumes "vmm_ok s d" "q + n \<le> 1047552" "n \<le> card (free_frames s)"
    and "\<And>k. k < n \<Longrightarrow> page_map s d (q + k) = None \<and> vmm_domain_check s (page_addr (q + k)) flags"
  shows "\<exists>t. vmm_map_loop n (of_nat q) (of_nat f) flags s = Some t \<and> extends s d t \<and>
    (\<forall>k<n. \<exists>e. page_map t d (q + k) = Some e \<and> maps_to e (page_addr (f + k)) flags) \<and>
    (\<forall>r<1047552. r < q \<or> q + n \<le> r \<longrightarrow> page_map t d r = page_map s d r) \<and>
    card (free_frames s) \<le> n + card (free_frames t)"
  using assms
proof (induction n arbitrary: q f s)
  case 0
  then show ?case by (simp add: extends_refl)
next
  case (Suc n)
  from Suc.prems(2) Suc.prems(4)[of 0] have q: "q < 1047552" "page_map s d q = None"
    "vmm_domain_check s (page_addr q) flags" by simp_all
  have ne: "free_frames s \<noteq> {}" using Suc.prems(3) by auto
  obtain s1 e where s1: "vmm_map (page_addr q) (page_addr f) flags s = Some (True, s1)"
    "extends s d s1" "takes_frame s d (page_addr q) s1" "maps_to e (page_addr f) flags"
    "\<And>r. r < 1047552 \<Longrightarrow> page_map s1 d r = (if r = q then Some e else page_map s d r)"
    using map_new_page[OF Suc.prems(1) q(1,2,3) ne, of "page_addr f"] by blast
  note c1 = opened_cost[OF s1(3)]
  have dce: "domain_check_enabled s1 = domain_check_enabled s" by (rule extendsD(8)[OF s1(2)])
  have pages: "page_map s1 d (Suc q + k) = None \<and> vmm_domain_check s1 (page_addr (Suc q + k)) flags" if "k < n" for k
    using Suc.prems(4)[of "Suc k"] s1(5)[of "Suc q + k"] that Suc.prems(2) dce by (simp add: vmm_domain_check_def split: if_splits)
  have "n \<le> card (free_frames s1)" using c1 Suc.prems(3) by linarith
  with Suc.IH[OF extendsD(1)[OF s1(2)] _ _ pages, of "Suc f"] Suc.prems(2) obtain t where
    t: "vmm_map_loop n (of_nat (Suc q)) (of_nat (Suc f)) flags s1 = Some t" "extends s1 d t"
      "\<And>k. k < n \<Longrightarrow> \<exists>e. page_map t d (Suc q + k) = Some e \<and> maps_to e (page_addr (Suc f + k)) flags"
      "\<And>r. r < 1047552 \<Longrightarrow> r < Suc q \<or> Suc q + n \<le> r \<Longrightarrow> page_map t d r = page_map s1 d r"
      "card (free_frames s1) \<le> n + card (free_frames t)"
    by auto
  have "vmm_map_loop (Suc n) (of_nat q) (of_nat f) flags s = Some t"
    using s1(1) t(1) by (simp add: add.commute)
  moreover have "extends s d t" by (rule extends_trans[OF s1(2) t(2)])
  moreover have "\<exists>e. page_map t d (q + k) = Some e \<and> maps_to e (page_addr (f + k)) flags" if "k < Suc n" for k
    using t(3)[of "k - 1"] t(4)[of q] s1(4,5) q(1) that by (cases k) auto
  moreover have "page_map t d r = page_map s d r" if "r < 1047552" "r < q \<or> q + Suc n \<le> r" for r
    using t(4)[of r] s1(5)[of r] that by auto
  moreover have "card (free_frames s) \<le> Suc n + card (free_frames t)" using c1 t(5) by linarith
  ultimately show ?case by blast
qed

subsection \<open>Growing the current address space\<close>

lemma extends_spaces:
  assumes sp: "spaces s d D" and ext: "extends s d t" and ready: "kernel_ready t d"
  shows "spaces t d D" "same_views s (D - {d}) t"
proof -
  note S = sp[unfolded spaces_def] and X = ext[unfolded extends_def]
  have ok: "vmm_ok t d" and pg: "cr0_pg t" using ready by (simp_all add: kernel_ready_def)
  have used: "frame_used s h \<Longrightarrow> frame_used t h" for h using X by blast
  have sep: "own_frames s e \<inter> own_frames s e' = {}" if "e \<in> D" "e' \<in> D" "e \<noteq> e'" for e e' using S that by metis
  have away: "h \<noteq> d \<and> \<not> is_table s d h" if "h \<in> own_frames s e" "e \<in> D" "e \<noteq> d" for h e
  proof -
    have "own_frames s e \<inter> own_frames s d = {}" "own_frames s e \<inter> kernel_tables s d = {}" using S that by blast+
    moreover have "d \<in> own_frames s d" by (simp add: own_frames_def)
    ultimately show ?thesis using that(1) table_of_space[of s d h] by blast
  qed
  have other: "pmem t h = pmem s h" if "h \<in> own_frames s e" "e \<in> D" "e \<noteq> d" for h e
    using X space_used[of s e h] away[OF that] S that by blast
  have ee: "e \<in> own_frames s e" for e by (simp add: own_frames_def)
  have each: "space t e \<and> own_frames t e = own_frames s e" if e: "e \<in> D" "e \<noteq> d" for e
    using space_cong[of t e s, OF _ used] other[OF ee e] S e(1) by simp
  have lk: "lookup t e i j = lookup s e i j" if e: "e \<in> D" "e \<noteq> d" and i: "user_slot i" for e i j
  proof (cases "entry_pr (pmem s e i)")
    case True
    then have "entry_frame (pmem s e i) \<in> own_frames s e" using i by (auto simp: own_frames_def)
    then show ?thesis using other[OF _ e] other[OF ee e] by (simp add: lookup_def Let_def)
  qed (use other[OF ee e] in \<open>simp add: lookup_absent\<close>)
  have new: "h = d \<or> is_table s d h \<or> \<not> frame_used s h" if "h \<in> own_frames t d \<union> kernel_tables t d" for h
  proof -
    have "h = d \<or> is_table t d h"
      using that kernel_slot_low user_slot_not(2) unfolding own_frames_def kernel_tables_def is_table_def by blast
    then show ?thesis using X by blast
  qed
  have apart: "own_frames s e \<inter> (own_frames t d \<union> kernel_tables t d) = {}" if e: "e \<in> D" "e \<noteq> d" for e
    using new away[OF _ e] space_used[of s e] S e by blast
  have spd: "space t d" by (rule vmm_ok_space[OF ok pg])
  have kd: "own_frames t d \<inter> kernel_tables t d = {}" by (rule vmm_ok_apart[OF ok])
  have one: "space t e \<and> own_frames t e \<inter> kernel_tables t d = {}" if "e \<in> D" for e
    using each[OF that] apart[OF that] spd kd by (cases "e = d") auto
  have two: "own_frames t e \<inter> own_frames t e' = {}" if ee': "e \<in> D" "e' \<in> D" "e \<noteq> e'" for e e'
  proof -
    consider "e = d" "e' \<noteq> d" | "e \<noteq> d" "e' = d" | "e \<noteq> d" "e' \<noteq> d" using ee'(3) by blast
    then show ?thesis
    proof cases
      case 1
      then show ?thesis using each[OF ee'(2)] apart[OF ee'(2)] by auto
    next
      case 2
      then show ?thesis using each[OF ee'(1)] apart[OF ee'(1)] by auto
    next
      case 3
      have "own_frames s e \<inter> own_frames s e' = {}" by (rule sep[OF ee'])
      then show ?thesis using each[OF ee'(1) 3(1)] each[OF ee'(2) 3(2)] by simp
    qed
  qed
  have "d \<in> D" using S by blast
  then show "spaces t d D" unfolding spaces_def using ready one two by (intro conjI ballI impI) simp_all
  show "same_views s (D - {d}) t" using lk by (simp add: same_views_def)
qed

subsection \<open>The kernel's pages after an allocation\<close>

definition kernel_room :: "'a mm_scheme \<Rightarrow> 20 word \<Rightarrow> nat set" where
  "kernel_room s d = {q. 1024 \<le> q \<and> q < 262144 \<and> page_map s d q = None}"

lemma finite_kernel_room [simp]: "finite (kernel_room s d)"
  by (rule finite_subset[of _ "{..<262144}"]) (auto simp: kernel_room_def)

lemma slot_page:
  assumes "1 \<le> b" "b < 256" "k < 1024"
  shows "kernel_slot (of_nat b)" "page_map s d (1024 * b + k) = lookup s d (of_nat b) (of_nat k)"
  using assms by (simp_all add: kernel_slot_def page_map_def unat_of_nat_small)

lemma kernel_ready_pages:
  "kernel_ready s d \<longleftrightarrow> vmm_ok s d \<and> cr0_pg s \<and>
     (\<forall>q e. 1024 \<le> q \<longrightarrow> q < 262144 \<longrightarrow> page_map s d q = Some e \<longrightarrow> entry_frame e \<noteq> 0) \<and>
     (\<forall>b. 1 \<le> b \<longrightarrow> b < 256 \<longrightarrow> page_map s d (1024 * b + 1023) \<noteq> None \<longrightarrow>
        (\<exists>k<1023. page_map s d (1024 * b + k) \<noteq> None)) \<and> kernel_room s d \<noteq> {}"
proof -
  have zero: "(\<forall>i j e. kernel_slot i \<longrightarrow> lookup s d i j = Some e \<longrightarrow> entry_frame e \<noteq> 0) \<longleftrightarrow>
      (\<forall>q e. 1024 \<le> q \<longrightarrow> q < 262144 \<longrightarrow> page_map s d q = Some e \<longrightarrow> entry_frame e \<noteq> 0)"
  proof safe
    fix q e
    assume a: "\<forall>i j e. kernel_slot i \<longrightarrow> lookup s d i j = Some e \<longrightarrow> entry_frame e \<noteq> 0" "1024 \<le> q" "q < 262144"
      "page_map s d q = Some e" "entry_frame e = 0"
    show False using a slots_of_page[OF a(2,3)] lookup_page_addr[of q s d] by simp
  next
    fix i j e
    assume a: "\<forall>q e. 1024 \<le> q \<longrightarrow> q < 262144 \<longrightarrow> page_map s d q = Some e \<longrightarrow> entry_frame e \<noteq> 0" "kernel_slot i"
      "lookup s d i j = Some e" "entry_frame e = 0"
    show False by (rule page_of_slots[OF a(2), of s d j]) (use a in auto)
  qed
  have lone: "(\<exists>j. j \<noteq> 1023 \<and> lookup s d (of_nat b) j \<noteq> None) \<longleftrightarrow> (\<exists>k<1023. page_map s d (1024 * b + k) \<noteq> None)"
    if b: "1 \<le> b" "b < 256" for b
  proof
    assume "\<exists>j. j \<noteq> 1023 \<and> lookup s d (of_nat b) j \<noteq> None"
    then obtain j where j: "j \<noteq> 1023" "lookup s d (of_nat b) j \<noteq> None" by blast
    have "unat j < 1023" using j(1) unat_bound[of j] by (auto simp: word_unat_eq_iff)
    then show "\<exists>k<1023. page_map s d (1024 * b + k) \<noteq> None"
      using slot_page(2)[OF b, of "unat j" s d] j(2) by (intro exI[of _ "unat j"]) simp
  next
    assume "\<exists>k<1023. page_map s d (1024 * b + k) \<noteq> None"
    then obtain k where k: "k < 1023" "page_map s d (1024 * b + k) \<noteq> None" by blast
    have "(of_nat k :: 10 word) \<noteq> 1023" using k(1) by (simp add: word_unat_eq_iff unat_of_nat_small)
    then show "\<exists>j. j \<noteq> 1023 \<and> lookup s d (of_nat b) j \<noteq> None"
      using slot_page(2)[OF b, of k s d] k by (intro exI[of _ "of_nat k"]) simp
  qed
  have last: "page_map s d (1024 * b + 1023) = lookup s d (of_nat b) 1023" if "1 \<le> b" "b < 256" for b
    using slot_page(2)[OF that, of 1023 s d] by simp
  have tabs: "(\<forall>i. kernel_slot i \<longrightarrow> P i) \<longleftrightarrow> (\<forall>b. 1 \<le> b \<longrightarrow> b < 256 \<longrightarrow> P (of_nat b))" for P :: "10 word \<Rightarrow> bool"
  proof (intro iffI allI impI)
    fix i assume a: "\<forall>b. 1 \<le> b \<longrightarrow> b < 256 \<longrightarrow> P (of_nat b)" "kernel_slot i"
    then have "P (of_nat (unat i))" unfolding kernel_slot_def by (auto simp: le_imp_less_Suc)
    then show "P i" by simp
  qed (use slot_page(1)[of _ 0] in auto)
  have room: "(\<exists>i j. kernel_slot i \<and> lookup s d i j = None) \<longleftrightarrow> kernel_room s d \<noteq> {}"
  proof
    assume "\<exists>i j. kernel_slot i \<and> lookup s d i j = None"
    then obtain i j where ij: "kernel_slot i" "lookup s d i j = None" by blast
    show "kernel_room s d \<noteq> {}"
      by (rule page_of_slots[OF ij(1), of s d j]) (use ij(2) in \<open>auto simp: kernel_room_def\<close>)
  next
    assume "kernel_room s d \<noteq> {}"
    then obtain q where q: "1024 \<le> q" "q < 262144" "page_map s d q = None" by (auto simp: kernel_room_def)
    then show "\<exists>i j. kernel_slot i \<and> lookup s d i j = None"
      using slots_of_page[OF q(1,2)] lookup_page_addr[of q s d] by (intro exI[of _ "dir_index (page_addr q)"] exI[of _ "tab_index (page_addr q)"]) simp
  qed
  show ?thesis
    unfolding kernel_ready_def zero room tabs using lone last by simp
qed

lemma kernel_ready_alloc:
  assumes ready: "kernel_ready s d" and t: "vmm_ok t d" "cr0_pg t"
    and run: "page_run s d kernel_domain n q" "\<And>p. p < q \<Longrightarrow> \<not> page_run s d kernel_domain n p"
    and new: "\<And>k. k < n \<Longrightarrow> \<exists>e. page_map t d (q + k) = Some e \<and> entry_frame e \<noteq> 0"
    and old: "\<And>r. r < 1047552 \<Longrightarrow> r < q \<or> q + n \<le> r \<Longrightarrow> page_map t d r = page_map s d r"
    and room: "n < card (kernel_room s d)"
  shows "kernel_ready t d" "card (kernel_room s d) \<le> n + card (kernel_room t d)"
proof -
  note R = ready[unfolded kernel_ready_pages]
  have Rl: "\<exists>k<1023. page_map s d (1024 * b + k) \<noteq> None"
    if "1 \<le> b" "b < 256" "page_map s d (1024 * b + 1023) \<noteq> None" for b using R that by simp
  have q: "1024 \<le> q" "q + n \<le> 262144" "\<And>k. k < n \<Longrightarrow> page_free s d (q + k)"
    using run(1) by (auto simp: page_run_def kernel_pages)
  have cases: "(\<exists>k<n. r = q + k) \<or> r < q \<or> q + n \<le> r" for r
    using le_Suc_ex[of q r] by (metis add_less_cancel_left linorder_not_less)
  have "kernel_room s d - {q..<q + n} \<subseteq> kernel_room t d" using old by (auto simp: kernel_room_def)
  then have "card (kernel_room s d - {q..<q + n}) \<le> card (kernel_room t d)" by (rule card_mono[OF finite_kernel_room])
  then show room': "card (kernel_room s d) \<le> n + card (kernel_room t d)"
    using diff_card_le_card_Diff[of "{q..<q + n}" "kernel_room s d"] by simp
  have zero: "entry_frame e \<noteq> 0" if r: "1024 \<le> r" "r < 262144" "page_map t d r = Some e" for r e
  proof (cases "\<exists>k<n. r = q + k")
    case True
    then show ?thesis using new r(3) by (metis option.inject)
  next
    case False
    then have "page_map s d r = Some e" using cases[of r] old[of r] r by auto
    then show ?thesis using R r(1,2) by blast
  qed
  have lone: "\<exists>k<1023. page_map t d (1024 * b + k) \<noteq> None"
    if b: "1 \<le> b" "b < 256" and l: "page_map t d (1024 * b + 1023) \<noteq> None" for b
  proof (rule ccontr)
    assume "\<not> ?thesis"
    then have none: "\<And>k. k < 1023 \<Longrightarrow> page_map t d (1024 * b + k) = None" by blast
    have low: "1024 * b + k < 1047552" if "k < 1024" for k using b that by linarith
    have out: "1024 * b + k < q \<or> q + n \<le> 1024 * b + k" if k: "k < 1023" for k
      using cases[of "1024 * b + k"] new none[OF k] by (metis option.distinct(1))
    have sn: "page_map s d (1024 * b + k) = None" if k: "k < 1023" for k
      using old[OF low out[OF k]] none[OF k] k by simp
    have "1024 * b + 1023 < q \<or> q + n \<le> 1024 * b + 1023 \<or> q = 1024 * b + 1023"
      using out[of 1022] cases[of "1024 * b + 1023"] by auto
    then show False
    proof (elim disjE)
      assume q_eq: "q = 1024 * b + 1023"
      have "page_free s d (1024 * b + k)" if k: "k < n" for k
      proof (cases "k < 1023")
        case True
        then show ?thesis using sn by (simp add: page_free_def)
      next
        case False
        then have "1024 * b + k = q + (k - 1023)" "k - 1023 < n" using q_eq k by linarith+
        then show ?thesis using q(3) by metis
      qed
      moreover have "1024 * b + n \<le> 262144" using q(2) q_eq by linarith
      ultimately have "page_run s d kernel_domain n (1024 * b)" using b by (simp add: page_run_def kernel_pages)
      then show False using run(2)[of "1024 * b"] q_eq by simp
    next
      assume "1024 * b + 1023 < q"
      then have "page_map s d (1024 * b + 1023) \<noteq> None" using old[OF low[of 1023]] l by simp
      then obtain k where "k < 1023" "page_map s d (1024 * b + k) \<noteq> None" using Rl[OF b] by blast
      then show False using sn by simp
    next
      assume "q + n \<le> 1024 * b + 1023"
      then have "page_map s d (1024 * b + 1023) \<noteq> None" using old[OF low[of 1023]] l by simp
      then obtain k where "k < 1023" "page_map s d (1024 * b + k) \<noteq> None" using Rl[OF b] by blast
      then show False using sn by simp
    qed
  qed
  have "kernel_room t d \<noteq> {}" using room room' by auto
  then show "kernel_ready t d"
    unfolding kernel_ready_pages using t zero lone by (intro conjI allI impI) auto
qed

subsection \<open>vmm_alloc in an address space\<close>

lemma free_frames_alloc:
  assumes "pmm_alloc len flags s = (p, s1)" "flags \<noteq> PMM_UNUSED"
  shows "card (free_frames s) \<le> unat (pmm_pages len) + card (free_frames s1)"
proof (cases "p = 0")
  case True
  then show ?thesis using pmm_alloc_zero[OF assms(1)] by simp
next
  case False
  let ?n = "unat (pmm_pages len)"
  obtain f where len: "len \<noteq> 0" and run: "free_run s f ?n" and p: "p = page_addr f" and s1: "s1 = pmm_use p len flags s"
    using pmm_alloc_success[OF assms(1) False] by metis
  let ?R = "(\<lambda>k. of_nat (f + k) :: 20 word) ` {..<?n}"
  have le: "f + ?n \<le> PAGE_NUMBER" using run by (simp add: free_run_def)
  have "g \<in> ?R" if g: "f \<le> unat g" "unat g < f + ?n" for g :: "20 word"
    using g by (intro image_eqI[of _ _ "unat g - f"]) auto
  then have "frame_used s g" if "frame_used s1 g" "g \<notin> ?R" for g
    using frame_state_use_run[OF len le ucast_page_less[of g], of flags s] that
    by (cases "f \<le> unat g \<and> unat g < f + ?n") (auto simp: frame_used_def s1 p unat_ucast_frame)
  then have "free_frames s - ?R \<subseteq> free_frames s1" unfolding free_frames_def by blast
  then have "card (free_frames s - ?R) \<le> card (free_frames s1)" by (intro card_mono) simp_all
  moreover have "card ?R \<le> ?n" using card_image_le[of "{..<?n}" "\<lambda>k. of_nat (f + k) :: 20 word"] by simp
  ultimately show ?thesis using diff_card_le_card_Diff[of ?R "free_frames s"] by simp
qed

text \<open>No page of the domain is mapped to frame 0, which \<open>vmm_find_free\<close> cannot tell from an unmapped one.\<close>

definition no_frame_0 :: "'a mm_scheme \<Rightarrow> 20 word \<Rightarrow> vmm_domain \<Rightarrow> bool" where
  "no_frame_0 s d dm \<longleftrightarrow> (\<forall>q e. domain_low dm \<le> q \<longrightarrow> q < domain_high dm \<longrightarrow> page_map s d q = Some e \<longrightarrow> entry_frame e \<noteq> 0)"

text \<open>The pages that an allocation returned: unmapped before, and mapped now to frames nobody used.\<close>

definition new_pages :: "u32 \<Rightarrow> u32 \<Rightarrow> 20 word \<Rightarrow> 'a mm_scheme \<Rightarrow> ptr \<Rightarrow> 'a mm_scheme \<Rightarrow> bool" where
  "new_pages len flags d s va t \<longleftrightarrow>
     (\<exists>q f. va = page_addr q \<and> domain_low (vmm_get_domain flags) \<le> q \<and>
        q + unat (pmm_pages len) \<le> domain_high (vmm_get_domain flags) \<and>
        (\<forall>k<unat (pmm_pages len). page_map s d (q + k) = None \<and> \<not> frame_used s (of_nat (f + k)) \<and>
           (\<exists>e. page_map t d (q + k) = Some e \<and> maps_to e (page_addr (f + k)) flags)) \<and>
        (\<forall>r<1047552. r < q \<or> q + unat (pmm_pages len) \<le> r \<longrightarrow> page_map t d r = page_map s d r))"

lemma no_frame_0_kernel: "kernel_ready s d \<Longrightarrow> no_frame_0 s d kernel_domain"
  unfolding kernel_ready_pages no_frame_0_def kernel_pages by blast

lemma run_frames:
  assumes "free_run s f n" "k < n"
  shows "\<not> frame_used s (of_nat (f + k))" "f + k < 1048576"
proof -
  show lt: "f + k < 1048576" using assms by (auto simp: free_run_def)
  then have "(ucast (of_nat (f + k) :: 20 word) :: u32) = of_nat (f + k)"
    by (simp add: word_unat_eq_iff unat_ucast_frame unat_of_nat_small del: of_nat_add)
  then show "\<not> frame_used s (of_nat (f + k))" using assms by (simp add: frame_used_def free_run_def)
qed

lemma mapped_frame:
  assumes "maps_to e (page_addr x) flags" "x < 1048576" "0 < x"
  shows "entry_frame e \<noteq> 0"
proof
  assume "entry_frame e = 0"
  then have "unat (phys_frame (page_addr x)) = 0" using assms(1) by (simp add: maps_to_def)
  then show False using phys_frame_page_addr[OF assms(2)] assms(3) by simp
qed

lemma map_run_spaces:
  fixes len flags :: u32
  defines "n \<equiv> unat (pmm_pages len)" and "dm \<equiv> vmm_get_domain flags"
  assumes sp: "spaces s1 d D" and z: "no_frame_0 s1 d dm" and frames: "n \<le> card (free_frames s1)"
    and room: "dm = kernel_domain \<Longrightarrow> n < card (kernel_room s1 d)" and len: "len \<noteq> 0"
    and f: "0 < f" "f + n \<le> 1048576"
    and q: "page_run s1 d dm n q" "\<And>p. p < q \<Longrightarrow> \<not> page_run s1 d dm n p"
  shows "\<exists>t. vmm_map_range (page_addr q) (page_addr f) len flags s1 = Some t \<and> spaces t d D \<and>
    same_views s1 (D - {d}) t \<and> ctrl t = ctrl s1 \<and> card (free_frames s1) \<le> n + card (free_frames t) \<and>
    card (kernel_room s1 d) \<le> n + card (kernel_room t d) \<and> no_frame_0 t d dm \<and>
    (\<forall>k<n. page_map s1 d (q + k) = None \<and>
       (\<exists>e. page_map t d (q + k) = Some e \<and> maps_to e (page_addr (f + k)) flags)) \<and>
    (\<forall>r<1047552. r < q \<or> q + n \<le> r \<longrightarrow> page_map t d r = page_map s1 d r) \<and>
    (\<forall>h. frame_used s1 h \<longrightarrow> frame_used t h)"
proof -
  have ready: "kernel_ready s1 d" and ok: "vmm_ok s1 d" and pg: "cr0_pg s1"
    using sp by (simp_all add: spaces_def kernel_ready_def)
  have n: "0 < n" using pmm_pages_bounds[OF len] by (simp add: n_def)
  have Q: "domain_low dm \<le> q" "q + n \<le> domain_high dm" "\<And>k. k < n \<Longrightarrow> page_free s1 d (q + k)"
    using q(1) by (simp_all add: page_run_def)
  have high: "q + n \<le> 1047552" using Q(2) domain_pages(4)[of dm] by simp
  have dc: "vmm_domain_check s1 (page_addr (q + k)) flags" if "k < n" for k
    using page_addr_domain[of dm "q + k"] Q(1,2) that by (simp add: vmm_domain_check_def dm_def)
  have none: "page_map s1 d (q + k) = None" if k: "k < n" for k
  proof (cases "page_map s1 d (q + k)")
    case (Some e)
    then have "entry_frame e \<noteq> 0" using z Q(1,2) k unfolding no_frame_0_def by (metis add_lessD1 le_add1 le_trans nat_add_left_cancel_less order_less_le_trans)
    then show ?thesis using Q(3)[OF k] Some by (simp add: page_free_def)
  qed
  obtain t where t: "vmm_map_loop n (of_nat q) (of_nat f) flags s1 = Some t" "extends s1 d t"
    "\<And>k. k < n \<Longrightarrow> \<exists>e. page_map t d (q + k) = Some e \<and> maps_to e (page_addr (f + k)) flags"
    "\<And>r. r < 1047552 \<Longrightarrow> r < q \<or> q + n \<le> r \<Longrightarrow> page_map t d r = page_map s1 d r"
    "card (free_frames s1) \<le> n + card (free_frames t)"
    using map_loop_grow[OF ok high frames, of flags f] none dc by blast
  have eq: "vmm_map_range (page_addr q) (page_addr f) len flags s1 = Some t"
    using t(1) vmm_map_range_pages[OF len, of q f s1 flags] high f dc[of 0] n by (simp add: n_def)
  have okt: "vmm_ok t d" and pgt: "cr0_pg t" using extendsD(1,4)[OF t(2)] pg by simp_all
  have nz: "\<exists>e. page_map t d (q + k) = Some e \<and> entry_frame e \<noteq> 0" if k: "k < n" for k
    using t(3)[OF k] mapped_frame[of _ "f + k" flags] f k by fastforce
  have readyt: "kernel_ready t d" and roomt: "card (kernel_room s1 d) \<le> n + card (kernel_room t d)"
  proof -
    have "kernel_ready t d \<and> card (kernel_room s1 d) \<le> n + card (kernel_room t d)"
    proof (cases dm)
      case kernel_domain
      show ?thesis
        using kernel_ready_alloc[OF ready okt pgt q[unfolded kernel_domain] nz t(4) room[OF kernel_domain]] by blast
    next
      case user_domain
      have "262144 \<le> q" using Q(1) user_domain by (simp add: domain_low_def)
      then have same: "page_map t d r = page_map s1 d r" if "r < 262144" for r using t(4)[of r] that by simp
      have "kernel_room t d = kernel_room s1 d" using same by (auto simp: kernel_room_def)
      moreover have "kernel_ready t d"
        using ready okt pgt unfolding kernel_ready_pages \<open>kernel_room t d = kernel_room s1 d\<close> by (simp add: same cong: conj_cong)
      ultimately show ?thesis by simp
    qed
    then show "kernel_ready t d" "card (kernel_room s1 d) \<le> n + card (kernel_room t d)" by blast+
  qed
  note spt = extends_spaces[OF sp t(2) readyt]
  have "no_frame_0 t d dm"
    unfolding no_frame_0_def
  proof (intro allI impI)
    fix r e assume r: "domain_low dm \<le> r" "r < domain_high dm" "page_map t d r = Some e"
    show "entry_frame e \<noteq> 0"
    proof (cases "q \<le> r \<and> r < q + n")
      case True
      then have "r - q < n" "q + (r - q) = r" by auto
      then show ?thesis using nz[of "r - q"] r(3) by simp
    next
      case False
      then have "page_map s1 d r = Some e" using t(4)[of r] r domain_pages(4)[of dm] by auto
      then show ?thesis using z r(1,2) unfolding no_frame_0_def by blast
    qed
  qed
  then show ?thesis using eq spt extendsD(2,3)[OF t(2)] t(3-5) none roomt by (intro exI[of _ t]) blast
qed

lemma vmm_alloc_spaces:
  fixes len flags :: u32
  defines "n \<equiv> unat (pmm_pages len)" and "dm \<equiv> vmm_get_domain flags"
  assumes sp: "spaces s d D" and z: "no_frame_0 s d dm" and frames: "2 * n \<le> card (free_frames s)"
    and room: "dm = kernel_domain \<Longrightarrow> n < card (kernel_room s d)"
  obtains va t where "vmm_alloc len flags s = Some (va, t)" "spaces t d D" "same_views s (D - {d}) t" "ctrl t = ctrl s"
    "card (free_frames s) \<le> 2 * n + card (free_frames t)" "card (kernel_room s d) \<le> n + card (kernel_room t d)"
    "no_frame_0 t d dm" "va = 0 \<and> page_map t = page_map s \<or> va \<noteq> 0 \<and> new_pages len flags d s va t"
    "\<And>h. frame_used s h \<Longrightarrow> frame_used t h"
proof -
  obtain p s1 where al: "pmm_alloc len (vmm_get_pmm_flags flags) s = (p, s1)" by force
  note s1 = spaces_alloc[OF sp al owner_used]
  have pm1: "page_map s1 = page_map s" by (rule page_map_cong[OF s1(2)])
  have kr1: "kernel_room s1 d = kernel_room s d" by (simp add: kernel_room_def pm1)
  have c1: "card (free_frames s) \<le> n + card (free_frames s1)"
    using free_frames_alloc[OF al owner_used] by (simp add: n_def)
  have ok1: "vmm_ok s1 d" "cr0_pg s1" using s1(1) by (simp_all add: spaces_def kernel_ready_def)
  have v1: "same_views s X s1" for X by (simp add: same_views_def lookup_cong[OF s1(2)])
  have z1: "no_frame_0 s1 d dm" using z by (simp add: no_frame_0_def pm1)
  have c2: "card (free_frames s) \<le> 2 * n + card (free_frames s1)" using c1 by linarith
  have k1: "card (kernel_room s d) \<le> n + card (kernel_room s1 d)" using kr1 by simp
  have "s1 = s \<or> s1 = pmm_use p len (vmm_get_pmm_flags flags) s" using al by (auto simp: pmm_alloc_def Let_def split: if_splits)
  then have u1: "frame_used s h \<Longrightarrow> frame_used s1 h" for h using frame_used_pmm_use[OF owner_used] by blast
  note fail = that[OF _ s1(1) v1 s1(3) c2 k1 z1 disjI1[OF conjI[OF refl pm1]] u1]
  show thesis
  proof (cases "len = 0")
    case True
    then have "vmm_alloc len flags s = Some (0, s1)" using al by (auto simp: vmm_alloc_def pmm_alloc_def pmm_find_free_def vmm_find_free_def)
    then show thesis by (rule fail)
  next
    case len: False
    show thesis
    proof (rule vmm_find_free_first[OF ok1 len, of dm])
      assume "vmm_find_free s1 len dm = Some 0"
      then have "vmm_alloc len flags s = Some (0, s1)" using al by (simp add: vmm_alloc_def dm_def)
      then show thesis by (rule fail)
    next
      fix q
      assume q: "vmm_find_free s1 len dm = Some (page_addr q)" "page_addr q \<noteq> 0"
        "page_run s1 d dm (unat (pmm_pages len)) q" "\<And>p. p < q \<Longrightarrow> \<not> page_run s1 d dm (unat (pmm_pages len)) p"
      show thesis
      proof (cases "p = 0")
        case True
        then have "vmm_alloc len flags s = Some (0, s1)" using al q(1) by (simp add: vmm_alloc_def dm_def)
        then show thesis by (rule fail)
      next
        case False
        obtain f where run: "free_run s f n" and p: "p = page_addr f"
          using pmm_alloc_success[OF al False] unfolding n_def by metis
        have n: "0 < n" using pmm_pages_bounds[OF len] by (simp add: n_def)
        have "frame_state s 0 \<noteq> PMM_UNUSED"
          using sp by (intro frame_state_0_used[of s d]) (simp add: spaces_def kernel_ready_def)
        then have f: "0 < f" "f + n \<le> 1048576" using free_run_pos[OF _ run n] run by (auto simp: free_run_def)
        have fr: "n \<le> card (free_frames s1)" using c1 frames by linarith
        obtain t where t: "vmm_map_range (page_addr q) (page_addr f) len flags s1 = Some t" "spaces t d D"
          "same_views s1 (D - {d}) t" "ctrl t = ctrl s1" "card (free_frames s1) \<le> n + card (free_frames t)"
          "card (kernel_room s1 d) \<le> n + card (kernel_room t d)" "no_frame_0 t d dm"
          "\<forall>k<n. page_map s1 d (q + k) = None \<and> (\<exists>e. page_map t d (q + k) = Some e \<and> maps_to e (page_addr (f + k)) flags)"
          "\<forall>r<1047552. r < q \<or> q + n \<le> r \<longrightarrow> page_map t d r = page_map s1 d r"
          "\<And>h. frame_used s1 h \<Longrightarrow> frame_used t h"
          using map_run_spaces[OF s1(1) z1[unfolded dm_def] fr[unfolded n_def] room[unfolded dm_def n_def kr1[symmetric]] len f[unfolded n_def] q(3,4)[unfolded dm_def]]
          unfolding n_def dm_def by blast
        have run': "vmm_alloc len flags s = Some (page_addr q, t)"
          using al q(1,2) t(1) False by (simp add: vmm_alloc_def dm_def p)
        have views: "same_views s (D - {d}) t" using t(3) by (simp add: same_views_def lookup_cong[OF s1(2)])
        have cost: "card (free_frames s) \<le> 2 * n + card (free_frames t)" using c1 t(5) by linarith
        have "new_pages len flags d s (page_addr q) t"
          unfolding new_pages_def n_def[symmetric] dm_def[symmetric]
          using q(3) t(8,9) run_frames(1)[OF run] unfolding pm1 page_run_def n_def[symmetric]
          by (intro exI[of _ q] exI[of _ f]) (simp del: of_nat_add)
        then show thesis
          using that[OF run' t(2) views _ cost _ t(7)] t(4,6,10) u1 s1(3) kr1 q(2) by simp
      qed
    qed
  qed
qed

end
