(* ===== verification/VMM_Bracket.thy ===== *)
theory VMM_Bracket
  imports VMM_Space
begin

unbundle bit_operations_syntax

text \<open>
  The bracket \<^verbatim>\<open>vmm_modify_page_directory\<close> \dots \<^verbatim>\<open>vmm_modified_page_directory\<close> among address spaces, and the
  memory a task gets inside it.
\<close>

subsection \<open>The bracket around another directory\<close>

lemma spaces_cong:
  assumes "pmem t = pmem s" "bitmap t = bitmap s" "cr3 t = cr3 s" "cr0_pg t = cr0_pg s" "page_directory t = page_directory s"
  shows "spaces t d D \<longleftrightarrow> spaces s d D"
proof -
  have "frame_used t = frame_used s" using frame_state_bitmap[OF assms(2)] by (simp add: frame_used_def fun_eq_iff)
  then have "vmm_ok t d = vmm_ok s d" "space t = space s" "own_frames t = own_frames s" "kernel_tables t = kernel_tables s"
    by (simp_all add: vmm_ok_def dir_view_def space_def own_frames_def kernel_tables_def fun_eq_iff assms)
  then show ?thesis by (simp add: spaces_def kernel_ready_def assms lookup_cong[OF assms(1)])
qed

lemma frame_address_directory:
  "unat (push_bit 12 (ucast (d :: 20 word)) :: ptr) mod 4096 = 0" "phys_frame (push_bit 12 (ucast d)) = d"
  by (simp_all add: unat_frame_address phys_frame_of_frame)

text \<open>The frames whose address the code does not take for \<^verbatim>\<open>0\<close> or \<^verbatim>\<open>VMM_PAGEDIR\<close>.\<close>

definition proper_frame :: "20 word \<Rightarrow> bool" where
  "proper_frame d \<longleftrightarrow> d \<noteq> 0 \<and> d \<noteq> 0xFFFFF"

lemma proper_frame_address:
  assumes "proper_frame (phys_frame n)" "unat n mod 4096 = 0"
  shows "n \<noteq> 0" "n \<noteq> VMM_PAGEDIR"
  using assms by (auto simp: proper_frame_def phys_frame_def VMM_PAGEDIR_def)

lemma modify_spaces:
  assumes sp: "spaces s d D" and room: "free_frames s \<noteq> {}" and n: "unat n mod 4096 = 0"
    and f: "phys_frame n \<in> D" "phys_frame n \<noteq> d" "proper_frame (phys_frame n)" and old: "old_directory s = 0"
  obtains t where "vmm_modify_page_directory n s = Some t" "spaces t (phys_frame n) D" "same_views s D t"
    "\<And>i j. kernel_slot i \<Longrightarrow> lookup t (phys_frame n) i j = lookup s d i j"
    "old_directory t = push_bit 12 (ucast d)" "\<not> eflags_if t" "old_interrupts t = eflags_if s"
    "card (free_frames s) \<le> Suc (card (free_frames t))" "\<And>h. frame_used s h \<Longrightarrow> frame_used t h"
proof -
  let ?s = "s\<lparr>eflags_if := False, old_interrupts := eflags_if s\<rparr>"
  have sp': "spaces ?s d D" using sp by (subst spaces_cong) simp_all
  have ff: "free_frames ?s = free_frames s" using frame_state_bitmap[of ?s s] by (simp add: free_frames_def frame_used_def)
  have lk: "lookup ?s = lookup s" by (rule lookup_cong) simp
  obtain t where t: "vmm_load_page_directory n ?s = Some (push_bit 12 (ucast d), t)" "spaces t (phys_frame n) D"
    "same_views ?s D t" "\<And>i j. kernel_slot i \<Longrightarrow> lookup t (phys_frame n) i j = lookup ?s d i j"
    "eflags_if t = eflags_if ?s" "old_interrupts t = old_interrupts ?s"
    "card (free_frames ?s) \<le> Suc (card (free_frames t))" "\<And>h. frame_used ?s h \<Longrightarrow> frame_used t h"
    by (rule load_directory_spec[OF sp' _ n proper_frame_address(2)[OF f(3) n] f(1,2)]) (use room ff in simp_all)
  let ?t = "t\<lparr>old_directory := push_bit 12 (ucast d)\<rparr>"
  have lt: "lookup ?t = lookup t" by (rule lookup_cong) simp
  have ft: "free_frames ?t = free_frames t" using frame_state_bitmap[of ?t t] by (simp add: free_frames_def frame_used_def)
  have "vmm_modify_page_directory n s = Some ?t" using t(1) old by (simp add: vmm_modify_page_directory_def)
  moreover have "spaces ?t (phys_frame n) D" using t(2) by (subst spaces_cong) simp_all
  moreover have "same_views s D ?t" using t(3) unfolding same_views_def lk lt .
  moreover have "frame_used ?t h" if "frame_used s h" for h
    using t(8)[of h] that frame_state_bitmap[of ?s s] frame_state_bitmap[of ?t t] by (simp add: frame_used_def)
  ultimately show ?thesis using that[of ?t] t(4-7) unfolding ff ft lk lt by simp
qed

lemma modified_spaces:
  assumes sp: "spaces s f D" and room: "free_frames s \<noteq> {}" and d: "d \<in> D" "f \<noteq> d" "proper_frame d"
    and old: "old_directory s = push_bit 12 (ucast d)"
  obtains t where "vmm_modified_page_directory s = Some t" "spaces t d D" "same_views s D t"
    "\<And>i j. kernel_slot i \<Longrightarrow> lookup t d i j = lookup s f i j" "cr3 t = push_bit 12 (ucast d)"
    "old_directory t = 0" "eflags_if t = old_interrupts s"
proof -
  let ?n = "push_bit 12 (ucast d) :: ptr"
  note fa = frame_address_directory[of d]
  have nz: "?n \<noteq> 0" "?n \<noteq> VMM_PAGEDIR" using proper_frame_address[of ?n] d(3) fa by simp_all
  have in_D: "phys_frame ?n \<in> D" and ne: "phys_frame ?n \<noteq> f" using fa d by auto
  obtain t where t: "vmm_load_page_directory ?n s = Some (push_bit 12 (ucast f), t)" "spaces t (phys_frame ?n) D"
    "same_views s D t" "\<And>i j. kernel_slot i \<Longrightarrow> lookup t (phys_frame ?n) i j = lookup s f i j" "cr3 t = ?n"
    "old_interrupts t = old_interrupts s"
    by (rule load_directory_spec[OF sp room fa(1) nz(2) in_D ne]) blast
  let ?t = "t\<lparr>old_directory := 0, eflags_if := old_interrupts s\<rparr>"
  have lt: "lookup ?t = lookup t" by (rule lookup_cong) simp
  have "vmm_modified_page_directory s = Some ?t"
    using t(1,6) old nz(1) by (simp add: vmm_modified_page_directory_def Let_def)
  moreover have "spaces ?t d D" using t(2) unfolding fa(2) by (subst spaces_cong) simp_all
  moreover have "same_views s D ?t" using t(3) unfolding same_views_def lt .
  ultimately show ?thesis using that[of ?t] t(4,5) unfolding lt fa(2) by simp
qed

subsection \<open>What an allocation leaves alone\<close>

lemma slot_page_number:
  fixes i j :: "10 word"
  assumes "i \<noteq> 1023"
  shows "kernel_slot i \<longleftrightarrow> 1024 \<le> unat i * 1024 + unat j \<and> unat i * 1024 + unat j < 262144"
proof -
  have "unat j < 1024" using unat_bound[of j] by simp
  then show ?thesis unfolding kernel_slot_def by linarith
qed

lemma alloc_outside:
  assumes out: "va = 0 \<and> page_map t = page_map s \<or> va \<noteq> 0 \<and> new_pages len flags d s va t"
    and i: "i \<noteq> 1023" and o: "kernel_slot i \<longleftrightarrow> vmm_get_domain flags = user_domain"
  shows "lookup t d i j = lookup s d i j"
proof (cases "va = 0")
  case True
  then show ?thesis using out lookup_as_page(1)[OF i] by metis
next
  case False
  let ?r = "unat i * 1024 + unat j" and ?n = "unat (pmm_pages len)" and ?dm = "vmm_get_domain flags"
  obtain q where q: "domain_low ?dm \<le> q" "q + ?n \<le> domain_high ?dm"
    "\<forall>r<1047552. r < q \<or> q + ?n \<le> r \<longrightarrow> page_map t d r = page_map s d r"
    using out False unfolding new_pages_def by blast
  have "?r < q \<or> q + ?n \<le> ?r"
  proof (cases ?dm)
    case kernel_domain
    then have "\<not> (1024 \<le> ?r \<and> ?r < 262144)" using o slot_page_number[OF i, of j] by simp
    then show ?thesis using q(1,2) unfolding kernel_domain kernel_pages by linarith
  next
    case user_domain
    then have "?r < 262144" using o slot_page_number[OF i, of j] by simp
    moreover have "262144 \<le> q" using q(1) user_domain by (simp add: domain_low_def)
    ultimately show ?thesis by simp
  qed
  then have "page_map t d ?r = page_map s d ?r" using q(3) lookup_as_page(2)[OF i, of j] by blast
  then show ?thesis by (simp only: lookup_as_page(1)[OF i])
qed

lemma alloc_views:
  assumes "va = 0 \<and> page_map t = page_map s \<or> va \<noteq> 0 \<and> new_pages len flags d s va t"
    and "vmm_get_domain flags = kernel_domain" "same_views s (D - {d}) t"
  shows "same_views s D t"
proof -
  have "lookup t e i j = lookup s e i j" if "e \<in> D" "user_slot i" for e i j
    using alloc_outside[OF assms(1), of i j] assms(2,3) that user_slot_not[of i]
    by (cases "e = d") (auto simp: same_views_def)
  then show ?thesis by (simp add: same_views_def)
qed

lemma same_views_trans: "same_views s D t \<Longrightarrow> same_views t D u \<Longrightarrow> same_views s D u"
  by (simp add: same_views_def)

lemma same_views_mono: "same_views s D t \<Longrightarrow> E \<subseteq> D \<Longrightarrow> same_views s E t"
  by (auto simp: same_views_def)

lemma same_views_pmem: "pmem u = pmem t \<Longrightarrow> same_views s D u \<longleftrightarrow> same_views s D t"
  using lookup_cong[of u t] by (simp add: same_views_def)

lemma kernel_page_cong:
  assumes "\<And>i j. kernel_slot i \<Longrightarrow> lookup t e i j = lookup s d i j" and q: "1024 \<le> q" "q < 262144"
  shows "page_map t e q = page_map s d q"
  using assms(1)[OF slots_of_page[OF q], of "tab_index (page_addr q)"] lookup_page_addr[of q t e] lookup_page_addr[of q s d] q(2)
  by simp

lemma kernel_room_cong:
  assumes "\<And>i j. kernel_slot i \<Longrightarrow> lookup t e i j = lookup s d i j"
  shows "kernel_room t e = kernel_room s d"
  using kernel_page_cong[of t e s d, OF assms] by (auto simp: kernel_room_def)

lemma user_page_slot:
  assumes "262144 \<le> q" "q < 1047552"
  shows "user_slot (dir_index (page_addr q))"
proof -
  have "256 \<le> q div 1024" "q div 1024 < 1024" using assms by (simp_all add: div_less_iff_less_mult)
  then have "unat (dir_index (page_addr q)) = q div 1024" using assms by (simp add: page_addr_index unat_of_nat_small)
  then show ?thesis using dir_index_low[OF assms(2)] \<open>256 \<le> q div 1024\<close> by (auto simp: user_slot_def kernel_slot_def)
qed

lemma same_views_page:
  assumes "same_views s D t" "e \<in> D" "262144 \<le> q" "q < 1047552"
  shows "page_map t e q = page_map s e q"
proof -
  have "lookup t e (dir_index (page_addr q)) (tab_index (page_addr q)) = lookup s e (dir_index (page_addr q)) (tab_index (page_addr q))"
    using assms(1,2) user_page_slot[OF assms(3,4)] by (simp add: same_views_def)
  then show ?thesis using lookup_page_addr[of q s e] lookup_page_addr[of q t e] assms(4) by simp
qed

subsection \<open>A new address space with its stacks\<close>

text \<open>
  The sequence of calls by which a task gets its memory (\<^verbatim>\<open>tasks/task.c\<close>, \<open>task_create_detailed\<close>): memory for its
  structure and a directory, then, inside the bracket, the kernel and the user stack.
\<close>

lemma new_space:
  assumes sp: "spaces s d D" and old: "old_directory s = 0" and top: "frame_used s 0xFFFFF"
    and frames: "2 * unat (pmm_pages tlen) + 4 \<le> card (free_frames s)"
    and room: "unat (pmm_pages tlen) < card (kernel_room s d)"
  obtains t s1 p s2 s3 where
    "vmm_alloc tlen VMM_KERNEL s = Some (t, s1)" "vmm_create_page_directory s1 = Some (p, s2)"
    "vmm_modify_page_directory p s2 = Some s3" "p = push_bit 12 (ucast (phys_frame p))" "p \<noteq> 0"
    "\<not> frame_used s (phys_frame p)" "spaces s3 (phys_frame p) (insert (phys_frame p) D)" "same_views s D s3"
    "\<And>i j. user_slot i \<Longrightarrow> lookup s3 (phys_frame p) i j = None"
    "\<And>i j. kernel_slot i \<Longrightarrow> lookup s3 (phys_frame p) i j = lookup s1 d i j"
    "old_directory s3 = push_bit 12 (ucast d)" "old_interrupts s3 = eflags_if s"
    "card (free_frames s) \<le> 2 * unat (pmm_pages tlen) + 3 + card (free_frames s3)"
    "card (kernel_room s d) \<le> unat (pmm_pages tlen) + card (kernel_room s3 (phys_frame p))"
    "\<And>h. frame_used s h \<Longrightarrow> frame_used s3 h" "t = 0 \<or> new_pages tlen VMM_KERNEL d s t s1"
proof -
  let ?nt = "unat (pmm_pages tlen)"
  have dk: "vmm_get_domain VMM_KERNEL = kernel_domain" by (simp add: vmm_get_domain_def)
  have ready: "kernel_ready s d" and dD: "d \<in> D" using sp by (simp_all add: spaces_def)
  have fr: "2 * ?nt \<le> card (free_frames s)" using frames by simp
  obtain t s1 where s1: "vmm_alloc tlen VMM_KERNEL s = Some (t, s1)" "spaces s1 d D" "same_views s (D - {d}) s1" "ctrl s1 = ctrl s"
      "card (free_frames s) \<le> 2 * ?nt + card (free_frames s1)" "card (kernel_room s d) \<le> ?nt + card (kernel_room s1 d)"
      "t = 0 \<and> page_map s1 = page_map s \<or> t \<noteq> 0 \<and> new_pages tlen VMM_KERNEL d s t s1"
      "\<And>h. frame_used s h \<Longrightarrow> frame_used s1 h"
    by (rule vmm_alloc_spaces[OF sp _ fr, of VMM_KERNEL]) (use dk no_frame_0_kernel[OF ready] room in simp_all)
  have v1: "same_views s D s1" by (rule alloc_views[OF s1(7) dk s1(3)])
  have fr1: "2 \<le> card (free_frames s1)" using frames s1(5) by simp
  obtain p s2 where s2: "vmm_create_page_directory s1 = Some (p, s2)" "p \<noteq> 0" "unat p mod 4096 = 0" "\<not> frame_used s1 (phys_frame p)"
      "spaces s2 d (insert (phys_frame p) D)" "same_views s1 D s2" "pmem s2 (phys_frame p) = fresh_directory (phys_frame p)"
      "ctrl s2 = ctrl s1" "card (free_frames s1) \<le> 2 + card (free_frames s2)" "\<And>h. frame_used s1 h \<Longrightarrow> frame_used s2 h"
      "\<And>i j. kernel_slot i \<Longrightarrow> lookup s2 d i j = lookup s1 d i j"
    by (rule create_directory_spec[OF s1(2) fr1], rule that) (assumption | simp)+
  let ?f = "phys_frame p"
  have fresh: "\<not> frame_used s ?f" using s2(4) s1(8) by blast
  have used: "frame_used s d" "frame_used s 0" using sp by (simp_all add: spaces_def kernel_ready_def vmm_ok_def)
  have fd: "?f \<noteq> d" and pf: "proper_frame ?f" using fresh used top by (auto simp: proper_frame_def)
  have fr2: "free_frames s2 \<noteq> {}" using frames s1(5) s2(9) by auto
  have c2: "old_directory s2 = 0" "eflags_if s2 = eflags_if s" using s2(8) s1(4) old by (simp_all add: ctrl_def)
  obtain s3 where s3: "vmm_modify_page_directory p s2 = Some s3" "spaces s3 ?f (insert ?f D)" "same_views s2 (insert ?f D) s3"
      "\<And>i j. kernel_slot i \<Longrightarrow> lookup s3 ?f i j = lookup s2 d i j"
      "old_directory s3 = push_bit 12 (ucast d)" "\<not> eflags_if s3" "old_interrupts s3 = eflags_if s2"
      "card (free_frames s2) \<le> Suc (card (free_frames s3))" "\<And>h. frame_used s2 h \<Longrightarrow> frame_used s3 h"
    by (rule modify_spaces[OF s2(5) fr2 s2(3) _ fd pf c2(1)]) blast+
  have k3: "lookup s3 ?f i j = lookup s1 d i j" if "kernel_slot i" for i j using s3(4)[OF that] s2(11)[OF that] by simp
  have kr3: "kernel_room s3 ?f = kernel_room s1 d" by (rule kernel_room_cong) (simp add: k3)
  have none: "lookup s3 ?f i j = None" if i: "user_slot i" for i j
  proof -
    have "lookup s3 ?f i j = lookup s2 ?f i j" using s3(3) i unfolding same_views_def by blast
    then show ?thesis using fresh_directory_entries(1)[OF user_slot_not(2)[OF i]] by (simp add: lookup_absent s2(7))
  qed
  have v3: "same_views s D s3"
    by (rule same_views_trans[OF same_views_trans[OF v1 s2(6)] same_views_mono[OF s3(3) subset_insertI]])
  have pa: "p = push_bit 12 (ucast ?f)"
    using aligned_page_addr[OF s2(3)] unat_frame_address[of ?f] unat_page_addr[of "unat ?f"] unat_bound[of ?f]
    by (simp only: word_unat_eq_iff) simp
  have cost: "card (free_frames s) \<le> 2 * ?nt + 3 + card (free_frames s3)" using s1(5) s2(9) s3(8) by simp
  have left: "card (kernel_room s d) \<le> ?nt + card (kernel_room s3 ?f)" using s1(6) by (simp add: kr3)
  have grow: "frame_used s h \<Longrightarrow> frame_used s3 h" for h using s1(8) s2(10) s3(9) by blast
  have tt: "t = 0 \<or> new_pages tlen VMM_KERNEL d s t s1" using s1(7) by blast
  have ctl: "old_interrupts s3 = eflags_if s" using s3(7) c2(2) by simp
  show ?thesis
    by (rule that[OF s1(1) s2(1) s3(1) pa s2(2) fresh s3(2) v3 none k3 s3(5) ctl cost left grow tt])
qed

lemma stacks_in_space:
  assumes sp: "spaces s f D" and none: "\<And>i j. user_slot i \<Longrightarrow> lookup s f i j = None"
    and frames: "2 * (unat (pmm_pages klen) + unat (pmm_pages ulen)) < card (free_frames s)"
    and room: "unat (pmm_pages klen) < card (kernel_room s f)"
  obtains ks t us u where
    "vmm_alloc klen VMM_KERNEL s = Some (ks, t)" "vmm_alloc ulen (VMM_USER OR VMM_WRITABLE) t = Some (us, u)"
    "spaces u f D" "same_views s (D - {f}) u" "ctrl u = ctrl s" "free_frames u \<noteq> {}"
    "us = 0 \<or> new_pages ulen (VMM_USER OR VMM_WRITABLE) f t us u" "ks = 0 \<or> new_pages klen VMM_KERNEL f s ks t"
    "\<And>i j. kernel_slot i \<Longrightarrow> lookup u f i j = lookup t f i j" "\<And>h. frame_used s h \<Longrightarrow> frame_used t h"
proof -
  let ?nk = "unat (pmm_pages klen)" and ?nu = "unat (pmm_pages ulen)" and ?U = "VMM_USER OR VMM_WRITABLE"
  have dk: "vmm_get_domain VMM_KERNEL = kernel_domain" and du: "vmm_get_domain ?U = user_domain"
    by (simp_all add: vmm_get_domain_def)
  have ready: "kernel_ready s f" using sp by (simp add: spaces_def)
  have fr: "2 * ?nk \<le> card (free_frames s)" using frames by simp
  obtain ks t where t: "vmm_alloc klen VMM_KERNEL s = Some (ks, t)" "spaces t f D" "same_views s (D - {f}) t" "ctrl t = ctrl s"
      "card (free_frames s) \<le> 2 * ?nk + card (free_frames t)"
      "ks = 0 \<and> page_map t = page_map s \<or> ks \<noteq> 0 \<and> new_pages klen VMM_KERNEL f s ks t"
      "\<And>h. frame_used s h \<Longrightarrow> frame_used t h"
    by (rule vmm_alloc_spaces[OF sp _ fr, of VMM_KERNEL]) (use dk no_frame_0_kernel[OF ready] room in simp_all)
  have vt: "same_views s D t" by (rule alloc_views[OF t(6) dk t(3)])
  have fD: "f \<in> D" using sp by (simp add: spaces_def)
  have fr': "2 * ?nu \<le> card (free_frames t)" using frames t(5) by simp
  have z: "no_frame_0 t f user_domain"
  proof -
    have "page_map t f q = None" if q: "262144 \<le> q" "q < 1047552" for q
      using vt fD none[OF user_page_slot[OF q]] user_page_slot[OF q] lookup_page_addr[of q t f] q(2)
      by (simp add: same_views_def)
    then show ?thesis using domain_pages(4)[of user_domain] by (simp add: no_frame_0_def domain_low_def)
  qed
  obtain us u where u: "vmm_alloc ulen ?U t = Some (us, u)" "spaces u f D" "same_views t (D - {f}) u" "ctrl u = ctrl t"
      "card (free_frames t) \<le> 2 * ?nu + card (free_frames u)"
      "us = 0 \<and> page_map u = page_map t \<or> us \<noteq> 0 \<and> new_pages ulen ?U f t us u"
    by (rule vmm_alloc_spaces[OF t(2) _ fr', of ?U]) (use du z in simp_all)
  have vu: "same_views s (D - {f}) u" by (rule same_views_trans[OF t(3) u(3)])
  have "0 < card (free_frames u)" using frames t(5) u(5) by simp
  then have fr'': "free_frames u \<noteq> {}" by auto
  have kl: "lookup u f i j = lookup t f i j" if "kernel_slot i" for i j
    using alloc_outside[OF u(6) kernel_slot_low[OF that]] that du by blast
  have ctl: "ctrl u = ctrl s" using u(4) t(4) by simp
  have us: "us = 0 \<or> new_pages ulen ?U f t us u" and ks: "ks = 0 \<or> new_pages klen VMM_KERNEL f s ks t"
    using u(6) t(6) by blast+
  show ?thesis by (rule that[OF t(1) u(1) u(2) vu ctl fr'' us ks kl t(7)])
qed

end
