(* ===== verification/Task_Space.thy ===== *)
theory Task_Space
  imports Task_Life VMM_Bracket
begin

unbundle bit_operations_syntax

text \<open>
  Tasks and address spaces: \<^verbatim>\<open>task_create_detailed\<close> (\<^verbatim>\<open>tasks/task.c\<close>) gives a task a directory of its own with
  its stacks, and leaves the address spaces of the other tasks as they are.
\<close>

lemma phys_frame_of_page: "phys_frame (page_addr x) = of_nat x"
proof -
  have "(of_nat x :: 20 word) = ucast (of_nat x :: u32)" by (simp add: unsigned_of_nat word_of_nat_eq_iff)
  then show ?thesis
    by (auto intro!: bit_word_eqI simp: phys_frame_def pmm_get_address_def PAGE_SHIFT_def bit_simps)
qed

text \<open>The pages of an allocation, seen from a state \<open>s\<close> before it and a state \<open>u\<close> after it.\<close>

lemma new_pages_seen:
  assumes new: "new_pages len flags f s va t" and grow: "\<And>h. frame_used s0 h \<Longrightarrow> frame_used s h"
    and same: "\<And>q. domain_low (vmm_get_domain flags) \<le> q \<Longrightarrow> q < domain_high (vmm_get_domain flags) \<Longrightarrow>
      page_map u e q = page_map t f q"
  shows "\<exists>q. va = page_addr q \<and> (\<forall>k<unat (pmm_pages len). \<exists>v. page_map u e (q + k) = Some v \<and>
    (entry_user v \<longleftrightarrow> flags AND VMM_USER \<noteq> 0) \<and> (entry_rw v \<longleftrightarrow> flags AND VMM_WRITABLE \<noteq> 0) \<and> \<not> frame_used s0 (entry_frame v))"
proof -
  obtain q g where q: "va = page_addr q" "domain_low (vmm_get_domain flags) \<le> q"
    "q + unat (pmm_pages len) \<le> domain_high (vmm_get_domain flags)"
    "\<And>k. k < unat (pmm_pages len) \<Longrightarrow> \<not> frame_used s (of_nat (g + k)) \<and>
       (\<exists>v. page_map t f (q + k) = Some v \<and> maps_to v (page_addr (g + k)) flags)"
    using new unfolding new_pages_def by blast
  have "\<exists>v. page_map u e (q + k) = Some v \<and> (entry_user v \<longleftrightarrow> flags AND VMM_USER \<noteq> 0) \<and>
      (entry_rw v \<longleftrightarrow> flags AND VMM_WRITABLE \<noteq> 0) \<and> \<not> frame_used s0 (entry_frame v)"
    if k: "k < unat (pmm_pages len)" for k
  proof -
    obtain v where v: "page_map t f (q + k) = Some v" "maps_to v (page_addr (g + k)) flags" using q(4)[OF k] by blast
    have "entry_frame v = of_nat (g + k)" using v(2) phys_frame_of_page[of "g + k"] by (simp add: maps_to_def del: of_nat_add)
    then have "\<not> frame_used s0 (entry_frame v)" using q(4)[OF k] grow by metis
    moreover have "page_map u e (q + k) = Some v" using same[of "q + k"] q(2,3) k v(1) by simp
    ultimately show ?thesis using v(2) unfolding maps_to_def by blast
  qed
  then show ?thesis using q(1) by blast
qed

lemma task_add_works:
  assumes "1 \<le> q" "q < MAX_TASKS" "tasks s q = 0"
  shows "\<exists>p. task_add t s = Some (p, s\<lparr>tasks := (tasks s)(p := t)\<rparr>)"
proof -
  have one: "1 \<le> MAX_TASKS" by (simp add: MAX_TASKS_def)
  note spec = task_free_slot_spec[OF one, of "tasks s"]
  have "\<not> q < task_free_slot (tasks s) 1" using spec assms(1,3) by blast
  then have "task_free_slot (tasks s) 1 \<noteq> MAX_TASKS" using assms(2) by simp
  then show ?thesis by (simp add: task_add_def Let_def)
qed

text \<open>The pages of a stack in directory \<open>e\<close>, all in frames that were unused in \<open>s0\<close>.\<close>

definition stack_pages :: "'a mm_scheme \<Rightarrow> 'a mm_scheme \<Rightarrow> 20 word \<Rightarrow> bool \<Rightarrow> u32 \<Rightarrow> ptr \<Rightarrow> bool" where
  "stack_pages s0 t e user len va \<longleftrightarrow>
     (\<exists>q. va = page_addr q \<and> (\<forall>k<unat (pmm_pages len). \<exists>v. page_map t e (q + k) = Some v \<and>
        entry_user v = user \<and> entry_rw v = user \<and> \<not> frame_used s0 (entry_frame v)))"

lemma stack_pages_alloc:
  assumes new: "new_pages len flags f s va t" and grow: "\<And>h. frame_used s0 h \<Longrightarrow> frame_used s h"
    and fl: "flags = (if user then VMM_USER OR VMM_WRITABLE else VMM_KERNEL)"
    and same: "\<And>q. domain_low (vmm_get_domain flags) \<le> q \<Longrightarrow> q < domain_high (vmm_get_domain flags) \<Longrightarrow>
      page_map u e q = page_map t f q"
  shows "stack_pages s0 u e user len va"
proof -
  have "(flags AND VMM_USER \<noteq> 0) = user" "(flags AND VMM_WRITABLE \<noteq> 0) = user" using fl by simp_all
  then show ?thesis using new_pages_seen[OF new grow same] unfolding stack_pages_def by simp
qed

lemma prepare_spaces:
  "spaces (task_prepare t p ks klen us ulen elf entry cseg dseg s) d D \<longleftrightarrow> spaces s d D"
  "same_views (task_prepare t p ks klen us ulen elf entry cseg dseg s) D u \<longleftrightarrow> same_views s D u"
  "lookup (task_prepare t p ks klen us ulen elf entry cseg dseg s) = lookup s"
  "free_frames (task_prepare t p ks klen us ulen elf entry cseg dseg s) = free_frames s"
  "old_directory (task_prepare t p ks klen us ulen elf entry cseg dseg s) = old_directory s"
proof -
  let ?t = "task_prepare t p ks klen us ulen elf entry cseg dseg s"
  show "spaces ?t d D \<longleftrightarrow> spaces s d D" by (rule spaces_cong) (simp_all add: task_prepare_def Let_def)
  show lk: "lookup ?t = lookup s" by (rule lookup_cong) (simp add: task_prepare_def Let_def)
  then show "same_views ?t D u \<longleftrightarrow> same_views s D u" by (simp add: same_views_def)
  have "bitmap ?t = bitmap s" by (simp add: task_prepare_def Let_def)
  from frame_state_bitmap[OF this] show "free_frames ?t = free_frames s" by (simp add: free_frames_def frame_used_def)
  show "old_directory ?t = old_directory s" by (simp add: task_prepare_def Let_def)
qed

text \<open>The memory of a new task: the calls of \<^verbatim>\<open>task_create_detailed\<close> before the task is added.\<close>

lemma task_memory:
  fixes s :: "'a os_scheme"
  assumes sp: "spaces s d D" and pd: "proper_frame d" and old: "old_directory s = 0" and top: "frame_used s 0xFFFFF"
    and frames: "2 * (1 + unat (pmm_pages klen) + unat (pmm_pages ulen)) + 4 \<le> card (free_frames s)"
    and room: "1 + unat (pmm_pages klen) < card (kernel_room s d)"
  obtains t s1 p s2 s3 ks s4 us s5 u where
    "vmm_alloc TASK_SIZE VMM_KERNEL s = Some (t, s1)" "vmm_create_page_directory s1 = Some (p, s2)"
    "vmm_modify_page_directory p s2 = Some s3" "vmm_alloc klen VMM_KERNEL s3 = Some (ks, s4)"
    "vmm_alloc ulen (VMM_USER OR VMM_WRITABLE) s4 = Some (us, s5)"
    "vmm_modified_page_directory (task_prepare t p ks klen us ulen elf entry cseg dseg s5) = Some u"
    "p = push_bit 12 (ucast (phys_frame p))" "p \<noteq> 0" "\<not> frame_used s (phys_frame p)"
    "spaces u d (insert (phys_frame p) D)" "same_views s D u" "cr3 u = push_bit 12 (ucast d)"
    "us = 0 \<or> stack_pages s u (phys_frame p) True ulen us" "ks = 0 \<or> stack_pages s u d False klen ks"
proof -
  let ?U = "VMM_USER OR VMM_WRITABLE" and ?nk = "unat (pmm_pages klen)" and ?nu = "unat (pmm_pages ulen)"
  have one: "unat (pmm_pages TASK_SIZE) = 1" by (simp add: unat_pmm_pages TASK_SIZE_def)
  obtain t s1 p s2 s3 where n:
    "vmm_alloc TASK_SIZE VMM_KERNEL s = Some (t, s1)" "vmm_create_page_directory s1 = Some (p, s2)"
    "vmm_modify_page_directory p s2 = Some s3" "p = push_bit 12 (ucast (phys_frame p))" "p \<noteq> 0"
    "\<not> frame_used s (phys_frame p)" "spaces s3 (phys_frame p) (insert (phys_frame p) D)" "same_views s D s3"
    "\<And>i j. user_slot i \<Longrightarrow> lookup s3 (phys_frame p) i j = None" "old_directory s3 = push_bit 12 (ucast d)"
    "card (free_frames s) \<le> 2 * unat (pmm_pages TASK_SIZE) + 3 + card (free_frames s3)"
    "card (kernel_room s d) \<le> unat (pmm_pages TASK_SIZE) + card (kernel_room s3 (phys_frame p))"
    "\<And>h. frame_used s h \<Longrightarrow> frame_used s3 h"
    by (rule new_space[OF sp old top, of TASK_SIZE]) (use frames room in \<open>simp_all add: one del: VMM_KERNEL_def\<close>)
  let ?f = "phys_frame p"
  have k3: "?nk < card (kernel_room s3 ?f)" using n(12) room by (simp add: one)
  have f3: "2 * (?nk + ?nu) < card (free_frames s3)" using n(11) frames by (simp add: one)
  obtain ks s4 us s5 where m: "vmm_alloc klen VMM_KERNEL s3 = Some (ks, s4)" "vmm_alloc ulen ?U s4 = Some (us, s5)"
    "spaces s5 ?f (insert ?f D)" "same_views s3 (insert ?f D - {?f}) s5" "ctrl s5 = ctrl s3" "free_frames s5 \<noteq> {}"
    "us = 0 \<or> new_pages ulen ?U ?f s4 us s5" "ks = 0 \<or> new_pages klen VMM_KERNEL ?f s3 ks s4"
    "\<And>i j. kernel_slot i \<Longrightarrow> lookup s5 ?f i j = lookup s4 ?f i j" "\<And>h. frame_used s3 h \<Longrightarrow> frame_used s4 h"
    by (rule stacks_in_space[OF n(7,9) f3 k3]) blast+
  let ?s6 = "task_prepare t p ks klen us ulen elf entry cseg dseg s5"
  have dD: "d \<in> D" using sp by (simp add: spaces_def)
  have fd: "?f \<noteq> d" and fD: "?f \<notin> D" using n(6) sp by (auto simp: spaces_def kernel_ready_def vmm_ok_def space_def)
  have od: "old_directory s5 = push_bit 12 (ucast d)" using n(10) m(5) by (simp add: ctrl_def)
  obtain u where o: "vmm_modified_page_directory ?s6 = Some u" "spaces u d (insert ?f D)" "same_views ?s6 (insert ?f D) u"
    "\<And>i j. kernel_slot i \<Longrightarrow> lookup u d i j = lookup ?s6 ?f i j" "cr3 u = push_bit 12 (ucast d)"
    by (rule modified_spaces[of ?s6 ?f "insert ?f D" d]) (use m(3,6) dD fd pd od in \<open>simp_all add: prepare_spaces\<close>)
  have v5u: "same_views s5 (insert ?f D) u" using o(3) by (simp add: prepare_spaces)
  have "insert ?f D - {?f} = D" using fD by blast
  then have views: "same_views s D u"
    using n(8) m(4) same_views_mono[OF v5u subset_insertI] by (metis same_views_trans)
  have "page_map u ?f r = page_map s5 ?f r" if "262144 \<le> r" "r < 1047552" for r
    by (rule same_views_page[OF v5u insertI1 that])
  then have us: "us = 0 \<or> stack_pages s u ?f True ulen us"
    using m(7) stack_pages_alloc[of ulen ?U ?f s4 us s5 s True u ?f] n(13) m(10)
    by (auto simp: vmm_get_domain_def domain_low_def domain_high_def ENTRIES_def)
  have "lookup u d i j = lookup s4 ?f i j" if "kernel_slot i" for i j
    using o(4)[OF that] m(9)[OF that] by (simp add: prepare_spaces)
  then have "page_map u d r = page_map s4 ?f r" if "1024 \<le> r" "r < 262144" for r
    using kernel_page_cong[of u d s4 ?f r] that by blast
  then have ks: "ks = 0 \<or> stack_pages s u d False klen ks"
    using m(8) stack_pages_alloc[of klen VMM_KERNEL ?f s3 ks s4 s False u d] n(13)
    by (auto simp: vmm_get_domain_def kernel_pages)
  show ?thesis
    by (rule that[OF n(1-3) m(1,2) o(1) n(4-6) o(2) views o(5) us ks])
qed

subsection \<open>Creating a task\<close>



end
