(* ===== verification/Spec2Isabelle.thy ===== *)
theory Spec2Isabelle
  imports Console Lists Task_Space
begin

text \<open>
  A verification development for the UnnamedOS kernel (\<^verbatim>\<open>src/kernel\<close> and \<^verbatim>\<open>src/lib\<close>), a 32-bit kernel
  for one x86 processor with paging, preemptive tasks, virtual 8086 mode and drivers for timer, keyboard, mouse and screen.

  \<^bold>\<open>The parts and how they interact.\<close> \<^verbatim>\<open>boot/main.c\<close> brings the components up in a fixed order and creates the first
  task; from then on the kernel runs only when an interrupt enters it. The common handler in \<^verbatim>\<open>interrupts/isr.c\<close>
  looks up a handler for the vector: the timer calls the scheduler, the controller of keyboard and mouse calls the two decoders, a
  protection fault calls the virtual 8086 monitor, vector \<open>0x30\<close> is a system call, and a page fault is a panic. Tasks get
  their memory from the virtual memory manager, which takes frames from the physical one; every task has a page directory
  of its own. All components share one state, which the records of the theories extend step by step:
  \<open>pmm\<close> (the bitmap of frames), \<open>mm\<close> (physical memory, control registers and the statics of \<^verbatim>\<open>vmm.c\<close>),
  \<open>os\<close> (task table, task structures, saved CPU states, descriptor table), \<open>kernel\<close> (handlers, drivers, screen) and
  \<open>machine\<close> (what only booting needs). An operation takes the state and returns it changed; \<open>None\<close> is a
  panic or an access to an unmapped address, so a theorem that says \<open>Some\<close> also says that neither happens.

  \<^bold>\<open>Theories, in the order of the imports.\<close>
  \<^item> \<open>Prelude\<close>: machine words, the option monad, the case-split collections and the interfaces shared by components:
    \<open>packed_array\<close> (bit fields packed into words), \<open>fresh_allocator\<close> (memory for objects), \<open>driven_machine\<close> (drivers that
    are fed bytes). Each is interpreted where the code provides it.
  \<^item> \<open>PMM\<close>: \<^verbatim>\<open>mem/pmm.c\<close>. The bitmap as an array of owners; marking, first-fit search, allocation, release.
  \<^item> \<open>MMU\<close>: \<^verbatim>\<open>mem/mmu.c\<close>, the two-level page walk of the processor, loads and stores through it.
  \<^item> \<open>VMM\<close>: \<^verbatim>\<open>mem/vmm.c\<close>, the operations. \<open>VMM_Refine\<close> has the well-formedness \<open>vmm_ok\<close> of a
    directory and the abstract address space \<open>lookup\<close>; \<open>VMM_Map\<close> proves mapping and unmapping as updates of it;
    \<open>VMM_Alloc\<close> the search for free pages, allocation and address translation; \<open>VMM_Frame\<close> what no
    operation touches; \<open>VMM_Init\<close> the identity mapping and the switch to paging.
  \<^item> \<open>VMM_Window\<close>, \<open>VMM_Dir\<close>, \<open>VMM_Space\<close>, \<open>VMM_Bracket\<close>: page directories as address spaces. The page that is mapped
    onto the frame of another directory and unmapped again (the window), creating and loading a directory, allocation
    in one space beside the others, and the visit \<open>vmm_modify_page_directory\<close> \<dots> \<open>vmm_modified_page_directory\<close>.
  \<^item> \<open>Descriptors\<close>: \<^verbatim>\<open>mem/gdt.c\<close>, \<^verbatim>\<open>tasks/tss.c\<close>, \<^verbatim>\<open>interrupts/idt.c\<close>, \<^verbatim>\<open>interrupts/pic.c\<close>, down to the bytes that the
    processor reads.
  \<^item> \<open>Bytes\<close>: byte accesses and \<^verbatim>\<open>lib/string.c\<close>. \<open>Multiboot\<close>: \<^verbatim>\<open>boot/multiboot.c\<close> and \<open>pmm_init\<close>.
  \<^item> \<open>Task\<close>, \<open>Task_Order\<close>, \<open>Task_Life\<close>, \<open>Schedule\<close>: \<^verbatim>\<open>tasks/task.c\<close> and \<^verbatim>\<open>tasks/schedule.c\<close>. The cyclic order of
    tasks, creation and destruction, the round robin scheduler. \<open>Task_Space\<close>: creating a task composed with the
    address spaces, from the new directory to its stacks.
  \<^item> \<open>ELF\<close>, \<open>VM86\<close>: \<^verbatim>\<open>tasks/elf.c\<close> with the finalization loop, and \<^verbatim>\<open>tasks/vm86.c\<close>.
  \<^item> \<open>Timer\<close>, \<open>Keyboard\<close>, \<open>Mouse\<close>, \<open>PS2\<close>: \<^verbatim>\<open>hardware/pit.c\<close>, \<^verbatim>\<open>hardware/io/\<close>\<open>{speaker,keyboard,mouse,ps2}\<close>\<^verbatim>\<open>.c\<close>.
  \<^item> \<open>Output\<close>: \<^verbatim>\<open>hardware/io/output.c\<close> and \<^verbatim>\<open>lib/io.c\<close>. \<open>CPUID\<close>: \<^verbatim>\<open>hardware/cpu/cpuid.c\<close>.
  \<^item> \<open>Interrupts\<close>, \<open>Kernel\<close>: \<^verbatim>\<open>interrupts/isr.c\<close>, \<^verbatim>\<open>interrupts/syscall.c\<close>, \<^verbatim>\<open>lib/syscall.c\<close>; the kernel as a
    transition system over its entry points.
  \<^item> \<open>Boot\<close>: \<^verbatim>\<open>boot/main.c\<close>. \<open>Dump\<close>: the dumps of all components. \<open>Console\<close>: the report of \<^verbatim>\<open>multiboot_init\<close>,
    the task \<^verbatim>\<open>main2\<close> with its clock and closing screen, the melody of the speaker; printing fails exactly when a format is
    incomplete or lacks an argument. \<open>Lists\<close>: \<^verbatim>\<open>lib/list.c\<close> and \<^verbatim>\<open>lib/queue.c\<close>.

  \<^bold>\<open>What is shown.\<close> Memory: allocation is first-fit and total, mapping refines the update of an abstract address space, and
  the kernel boots into an identity mapping. Address spaces: a directory that is created shares the kernel's tables and no
  other frame with the directories that exist, what is mapped in one is not seen in another, loading one makes its view the
  processor's, and a new task has stacks of its own while every other task keeps its view. Tasks: what creation, scheduling, exit and finalization change and that nothing
  else does; in every run the processor is with a running task. Interrupts: dispatch, acknowledgement, system calls from the stub
  to the result. Drivers: the decoders give exactly the events of the bytes, and no sequence of bytes overruns a buffer.
  Libraries: lists and queues as sequences, copying, printing and its inverse. The faults that the proofs found are part of the
  theorems: each is either a branch of the statement or excluded by a hypothesis that names it.

  \<^bold>\<open>Bounds and termination.\<close> Loops are structural recursion, or recursion with a measure. Loops that the code does not bound
  (the memory map, the modules, waiting for a device, the list of tasks, strings) are \<open>partial_function\<close>s, and
  where the code returns this is a theorem. A loop over pages or table entries is recursion over the number of its rounds; the searches
  are bounded by the \<open>1024\<close> entries of a table and the \<open>2^20\<close> pages of the address space. There is no other fuel.
  Words have the width they have in the code, and arithmetic on them wraps. The theorems about address spaces suppose
  enough free frames, a free page of the kernel for the window (\<open>kernel_ready\<close>, \<open>kernel_ready_pages\<close>) and that the
  directory lies in no frame whose address the code takes for a constant; their witnesses evaluate a complete state.

  \<^bold>\<open>Parameters.\<close> What the device or the processor answers is a parameter: the ports of the PS/2 controller, of the virtual 8086
  monitor and of the speaker, the \<^verbatim>\<open>cpuid\<close> instruction, what a register holds that a function does not set, and the addresses that the
  linker chooses (\<open>image\<close>).

  \<^bold>\<open>Not modelled.\<close> The assembly (entry, \<^verbatim>\<open>isr_common\<close>, flushing segment registers, the copied virtual 8086 code) appears by its
  effect only; \<^verbatim>\<open>port.h\<close> holds single instructions. Messages to the screen and the log are left out, except where printing is
  the purpose of a function. What interrupts do while \<^verbatim>\<open>main2\<close> sleeps is an argument of its loop. The user program is a sample,
  the American keyboard layout and \<^verbatim>\<open>cpuid_dump\<close> are compiled out, and no program uses the stubs with four and five arguments. The
  translation lookaside buffer is a log of its invalidations; the page walk always reads memory.
\<close>

end
